(* ===== verification/Prelude.thy ===== *)
theory Prelude
  imports Main "HOL-Library.Word" "HOL-Library.Multiset" "HOL-Library.Monad_Syntax"
begin

text \<open>
  Shared vocabulary of the development: type names, the option monad in which every
  operation that can end abnormally is written, bounds-checked array access, little-endian
  integers, and the list facts that several components use.

  Abnormal termination.  A C++ operation that can call \<^verbatim>\<open>abort()\<close>, fail an
  \<^verbatim>\<open>assert\<close>, dereference a null or dangling pointer, index outside an array, or recurse
  without end returns an \<open>option\<close>; \<open>None\<close> is "does not return normally".  Error codes
  that the program itself returns are ordinary values.
\<close>

named_theorems heap_simps \<open>reading and writing the node stores\<close>
named_theorems wf_intros \<open>introduction rules for well-formedness predicates\<close>
named_theorems frame_simps \<open>fields and counters an operation leaves alone\<close>

type_synonym u16 = "16 word"
type_synonym u32 = "32 word"
type_synonym addr = nat

subsection \<open>Loops in the option monad\<close>

text \<open>A C++ \<^verbatim>\<open>for\<close> loop over a sequence whose body may end abnormally.\<close>

fun mfold :: "('a \<Rightarrow> 's \<Rightarrow> 's option) \<Rightarrow> 'a list \<Rightarrow> 's \<Rightarrow> 's option" where
  "mfold f [] s = Some s"
| "mfold f (x # xs) s = Option.bind (f x s) (mfold f xs)"

lemma mfold_Nil [simp]: "mfold f [] = Some"
  by (rule ext) simp

lemma mfold_mono [partial_function_mono]:
  assumes "\<And>x s. mono_option (\<lambda>f. g f x s)"
  shows "mono_option (\<lambda>f. mfold (g f) xs s)"
proof (induction xs arbitrary: s)
  case Nil
  show ?case by (simp add: option.const_mono)
next
  case (Cons x xs)
  have "mono_option (\<lambda>f. Option.bind (g f x s) (\<lambda>t. mfold (g f) xs t))"
    by (rule bind_mono [OF assms Cons])
  then show ?case by simp
qed

lemma mfold_append: "mfold f (xs @ ys) s = Option.bind (mfold f xs s) (mfold f ys)"
proof (induction xs arbitrary: s)
  case Nil
  show ?case by simp
next
  case (Cons x xs)
  then have "mfold f (xs @ ys) = (\<lambda>s. Option.bind (mfold f xs s) (mfold f ys))" by (rule ext)
  then show ?case by simp
qed

lemma mfold_map: "mfold f (map g xs) = mfold (\<lambda>x. f (g x)) xs"
proof (induction xs)
  case Nil
  show ?case by simp
next
  case (Cons x xs)
  show ?case by (rule ext) (simp only: list.map mfold.simps Cons.IH)
qed

lemma mfold_cong [cong, fundef_cong]:
  "xs = ys \<Longrightarrow> s = t \<Longrightarrow> (\<And>x u. x \<in> set ys \<Longrightarrow> f x u = g x u) \<Longrightarrow> mfold f xs s = mfold g ys t"
proof (induction xs arbitrary: ys s t)
  case Nil
  then show ?case by simp
next
  case (Cons x xs)
  have eq: "mfold f xs = mfold g xs"
  proof (rule ext)
    fix u
    show "mfold f xs u = mfold g xs u"
      by (rule Cons.IH) (use Cons.prems in auto)
  qed
  from Cons.prems have "f x s = g x s" by auto
  with eq Cons.prems show ?case by auto
qed

text \<open>The invariant rule for total loops: every iteration returns and keeps the invariant.\<close>

lemma mfold_invariant:
  assumes "\<And>x s. x \<in> set xs \<Longrightarrow> P s \<Longrightarrow> \<exists>s'. f x s = Some s' \<and> P s'" and "P s"
  shows "\<exists>s'. mfold f xs s = Some s' \<and> P s'"
  using assms
proof (induction xs arbitrary: s)
  case Nil
  then show ?case by simp
next
  case (Cons x xs)
  from Cons.prems obtain s1 where s1: "f x s = Some s1" "P s1" by auto
  have "\<exists>s'. mfold f xs s1 = Some s' \<and> P s'"
    by (rule Cons.IH) (use Cons.prems(1) s1 in auto)
  with s1 show ?case by simp
qed

text \<open>Counting loops: the invariant may depend on the counter.\<close>

lemma mfold_upt:
  assumes "\<And>i s. i < n \<Longrightarrow> P i s \<Longrightarrow> \<exists>s'. f i s = Some s' \<and> P (Suc i) s'" and "P 0 s"
  shows "\<exists>s'. mfold f [0..<n] s = Some s' \<and> P n s'"
  using assms
proof (induction n)
  case 0
  then show ?case by simp
next
  case (Suc n)
  then obtain s' where s': "mfold f [0..<n] s = Some s'" "P n s'" by auto
  with Suc.prems(1) [of n s'] show ?case using mfold_append [of f "[0..<n]" "[n]" s] by auto
qed

text \<open>The same for loops that may end abnormally: whatever is returned has the invariant.\<close>

lemma mfold_preserves:
  assumes "mfold f xs s = Some t" and "P s"
    and "\<And>x s s'. x \<in> set xs \<Longrightarrow> P s \<Longrightarrow> f x s = Some s' \<Longrightarrow> P s'"
  shows "P t"
  using assms
proof (induction xs arbitrary: s)
  case Nil
  then show ?case by simp
next
  case (Cons x xs)
  from Cons.prems(1) obtain s1 where s1: "f x s = Some s1" "mfold f xs s1 = Some t"
    by (auto split: Option.bind_splits)
  have "P s1" using Cons.prems(2,3) s1(1) by auto
  with s1(2) show ?case by (rule Cons.IH) (use Cons.prems(3) in auto)
qed

subsection \<open>Arrays\<close>

text \<open>Array indexing: an index outside the array is undefined behaviour in C++.\<close>

definition nth_opt :: "'a list \<Rightarrow> nat \<Rightarrow> 'a option" where
  "nth_opt xs i = (if i < length xs then Some (xs ! i) else None)"

lemma nth_opt_Some [simp]: "i < length xs \<Longrightarrow> nth_opt xs i = Some (xs ! i)"
  by (simp add: nth_opt_def)

lemma nth_opt_None_iff [simp]: "nth_opt xs i = None \<longleftrightarrow> length xs \<le> i"
  by (auto simp: nth_opt_def)

lemma nth_opt_SomeD: "nth_opt xs i = Some x \<Longrightarrow> i < length xs \<and> x = xs ! i"
  by (auto simp: nth_opt_def split: if_splits)

subsection \<open>Little-endian 16-bit integers\<close>

definition le16 :: "nat \<Rightarrow> string" where
  "le16 n = [char_of n, char_of (n div 256)]"

definition un_le16 :: "char \<Rightarrow> char \<Rightarrow> nat" where
  "un_le16 a b = of_char a + 256 * of_char b"

lemma length_le16 [simp]: "length (le16 n) = 2"
  by (simp add: le16_def)

lemma un_le16_le16 [simp]: "un_le16 (char_of n) (char_of (n div 256)) = n mod 65536"
proof -
  have "un_le16 (char_of n) (char_of (n div 256)) = n mod 256 + 256 * (n div 256 mod 256)"
    by (simp add: un_le16_def)
  also have "\<dots> = n mod (256 * 256)"
    by (simp only: mod_mult2_eq add.commute)
  finally show ?thesis by simp
qed

lemma un_le16_bound: "un_le16 a b < 65536"
proof -
  have "(of_char a :: nat) < 256" "(of_char b :: nat) < 256"
    by simp_all
  then show ?thesis unfolding un_le16_def by linarith
qed

subsection \<open>Words and characters\<close>

lemma u32_eq_of_nat_iff: "n < 2 ^ 32 \<Longrightarrow> (l :: u32) = of_nat n \<longleftrightarrow> unat l = n"
proof
  assume "n < 2 ^ 32" and "l = of_nat n"
  then show "unat l = n" by (simp add: unsigned_of_nat take_bit_nat_eq_self)
next
  assume "unat l = n"
  then show "l = of_nat n" by auto
qed

lemma u32_unat_of_nat [simp]: "n < 2 ^ 32 \<Longrightarrow> unat (of_nat n :: u32) = n"
  by (simp add: unsigned_of_nat take_bit_nat_eq_self)

lemma u32_unat_less: "unat (w :: u32) < 2 ^ 32"
  using unsigned_less [of w] by simp

lemma char_eq_char_of_iff: "n < 256 \<Longrightarrow> c = char_of (n :: nat) \<longleftrightarrow> of_char c = n"
  by (metis char_of_char mod_less of_char_of)

subsection \<open>Lists\<close>

lemma distinct_mset_eq: "mset xs = mset ys \<Longrightarrow> distinct xs = distinct ys"
  by (rule mset_eq_imp_distinct_iff)

lemma set_mset_eq: "mset xs = mset ys \<Longrightarrow> set xs = set ys"
  by (rule mset_eq_setD)

subsection \<open>Assertions\<close>

text \<open>\<^verbatim>\<open>assert\<close>: nothing in a build with \<^verbatim>\<open>NDEBUG\<close>.\<close>

definition c_assert :: "bool \<Rightarrow> bool \<Rightarrow> unit option" where
  "c_assert ndebug cond = (if ndebug \<or> cond then Some () else None)"

subsection \<open>Strings\<close>

text \<open>\<^verbatim>\<open>std::string::find\<close>, as a test.\<close>

fun contains_str :: "string \<Rightarrow> string \<Rightarrow> bool" where
  "contains_str pat [] = (pat = [])"
| "contains_str pat (c # s) = (take (length pat) (c # s) = pat \<or> contains_str pat s)"

end
