(* ===== verification/Floats.thy ===== *)
theory Floats
  imports Prelude Complex_Main
begin

text \<open>
  The C++ types \<^verbatim>\<open>float\<close> and \<^verbatim>\<open>double\<close> as the language gives them: IEEE 754
  binary32 and binary64 with round-to-nearest-even.  A value is not-a-number, an infinity
  (\<open>Inf True\<close> is minus infinity) or \<open>Fin m e\<close>, the number \<open>m * 2 ^ e\<close> with \<open>m\<close> odd
  or zero.  The two zeros are one value, and not-a-number has no payload: no operation of
  the program distinguishes them.  Every operation computes the exact result and rounds
  it once to the format of its C++ type, as IEEE 754 prescribes.  The elementary functions
  \<^verbatim>\<open>log\<close> and \<^verbatim>\<open>exp\<close> of the C library have no prescribed rounding; they are the
  fields of the record \<open>libm\<close> that the components take as an argument.
\<close>

datatype fval = NaN | Inf bool | Fin int int

record fmt =
  prec :: int
  emin :: int
  emax :: int

definition binary32 :: fmt where
  "binary32 = \<lparr>prec = 24, emin = -149, emax = 128\<rparr>"

definition binary64 :: fmt where
  "binary64 = \<lparr>prec = 53, emin = -1074, emax = 1024\<rparr>"

definition pow2 :: "int \<Rightarrow> int" where
  "pow2 k = 2 ^ nat k"

lemma pow2_pos [simp]: "0 < pow2 k" "\<not> pow2 k < 0" "pow2 k \<noteq> 0"
  by (simp_all add: pow2_def)

text \<open>The number of binary digits of a natural magnitude.\<close>

function blen :: "int \<Rightarrow> int" where
  "blen m = (if m \<le> 0 then 0 else 1 + blen (m div 2))"
  by pat_completeness auto
termination by (relation "measure nat") auto

declare blen.simps [simp del]

text \<open>Canonical form: an odd mantissa, or zero with exponent zero.\<close>

function fnorm :: "int \<Rightarrow> int \<Rightarrow> fval" where
  "fnorm m e =
     (if m = 0 then Fin 0 0 else if even m then fnorm (m div 2) (e + 1) else Fin m e)"
  by pat_completeness auto
termination by (relation "measure (\<lambda>(m, e). nat \<bar>m\<bar>)") auto

declare fnorm.simps [simp del]

text \<open>Drop the \<open>s\<close> lowest digits of a magnitude, to nearest, ties to even.\<close>

definition rshift_even :: "int \<Rightarrow> int \<Rightarrow> int" where
  "rshift_even a s =
     (let q = a div pow2 s; r = a mod pow2 s in
      if 2 * r > pow2 s \<or> (2 * r = pow2 s \<and> odd q) then q + 1 else q)"

text \<open>Round the exact value \<open>m * 2 ^ e\<close> to a format; overflow goes to an infinity.\<close>

definition fround :: "fmt \<Rightarrow> int \<Rightarrow> int \<Rightarrow> fval" where
  "fround f m e =
     (let a = \<bar>m\<bar>;
          t = max (blen a + e - prec f) (emin f);
          a' = (if t \<le> e then a else rshift_even a (t - e));
          x = max t e
      in if a' \<noteq> 0 \<and> blen a' + x > emax f then Inf (m < 0)
         else fnorm (sgn m * a') x)"

fun fneg :: "fval \<Rightarrow> fval" where
  "fneg NaN = NaN"
| "fneg (Inf s) = Inf (\<not> s)"
| "fneg (Fin m e) = Fin (- m) e"

fun fadd :: "fmt \<Rightarrow> fval \<Rightarrow> fval \<Rightarrow> fval" where
  "fadd f (Fin a b) (Fin c d) =
     (let e = min b d in fround f (a * pow2 (b - e) + c * pow2 (d - e)) e)"
| "fadd f (Inf s) (Inf t) = (if s = t then Inf s else NaN)"
| "fadd f (Inf s) (Fin c d) = Inf s"
| "fadd f (Fin a b) (Inf t) = Inf t"
| "fadd f NaN y = NaN"
| "fadd f x NaN = NaN"

definition fsub :: "fmt \<Rightarrow> fval \<Rightarrow> fval \<Rightarrow> fval" where
  "fsub f x y = fadd f x (fneg y)"

fun fmul :: "fmt \<Rightarrow> fval \<Rightarrow> fval \<Rightarrow> fval" where
  "fmul f (Fin a b) (Fin c d) = fround f (a * c) (b + d)"
| "fmul f (Inf s) (Inf t) = Inf (s \<noteq> t)"
| "fmul f (Inf s) (Fin c d) = (if c = 0 then NaN else Inf (s \<noteq> (c < 0)))"
| "fmul f (Fin a b) (Inf t) = (if a = 0 then NaN else Inf (t \<noteq> (a < 0)))"
| "fmul f NaN y = NaN"
| "fmul f x NaN = NaN"

text \<open>
  Division keeps 70 digits more than the divisor has and one sticky digit, enough for a
  single correct rounding in either format.
\<close>

fun fdiv :: "fmt \<Rightarrow> fval \<Rightarrow> fval \<Rightarrow> fval" where
  "fdiv f (Fin a b) (Fin c d) =
     (if c = 0 then (if a = 0 then NaN else Inf (a < 0))
      else let k = 70 + blen \<bar>c\<bar>; n = \<bar>a\<bar> * pow2 k; q = n div \<bar>c\<bar>;
               s = (if n mod \<bar>c\<bar> = 0 then 0 else 1)
           in fround f (sgn a * sgn c * (2 * q + s)) (b - d - k - 1))"
| "fdiv f (Inf s) (Inf t) = NaN"
| "fdiv f (Inf s) (Fin c d) = Inf (s \<noteq> (c < 0))"
| "fdiv f (Fin a b) (Inf t) = Fin 0 0"
| "fdiv f NaN y = NaN"
| "fdiv f x NaN = NaN"

text \<open>Narrowing a \<^verbatim>\<open>double\<close> to a \<^verbatim>\<open>float\<close>; widening changes nothing.\<close>

fun to_float :: "fval \<Rightarrow> fval" where
  "to_float NaN = NaN"
| "to_float (Inf s) = Inf s"
| "to_float (Fin m e) = fround binary32 m e"

text \<open>Conversion of an integer to a floating type, and of a floating value to an integer
  (truncation towards zero; undefined for infinities and not-a-number).\<close>

definition of_integer :: "fmt \<Rightarrow> int \<Rightarrow> fval" where
  "of_integer f n = fround f n 0"

fun ftrunc :: "fval \<Rightarrow> int option" where
  "ftrunc (Fin m e) = Some (if 0 \<le> e then m * pow2 e else sgn m * (\<bar>m\<bar> div pow2 (- e)))"
| "ftrunc _ = None"

text \<open>The C++ comparison operators: every comparison with not-a-number is false, but
  \<^verbatim>\<open>!=\<close>.\<close>

fun flt :: "fval \<Rightarrow> fval \<Rightarrow> bool" where
  "flt (Fin a b) (Fin c d) = (let e = min b d in a * pow2 (b - e) < c * pow2 (d - e))"
| "flt (Inf s) (Inf t) = (s \<and> \<not> t)"
| "flt (Inf s) (Fin c d) = s"
| "flt (Fin a b) (Inf t) = (\<not> t)"
| "flt NaN y = False"
| "flt x NaN = False"

fun is_nan :: "fval \<Rightarrow> bool" where
  "is_nan NaN = True"
| "is_nan _ = False"

definition feq :: "fval \<Rightarrow> fval \<Rightarrow> bool" where
  "feq x y \<longleftrightarrow> \<not> is_nan x \<and> \<not> is_nan y \<and> \<not> flt x y \<and> \<not> flt y x"

definition fle :: "fval \<Rightarrow> fval \<Rightarrow> bool" where
  "fle x y \<longleftrightarrow> flt x y \<or> feq x y"

text \<open>\<^verbatim>\<open>std::max(a, b)\<close> returns \<open>a\<close> unless \<open>a < b\<close>.\<close>

definition std_max :: "fval \<Rightarrow> fval \<Rightarrow> fval" where
  "std_max a b = (if flt a b then b else a)"

text \<open>The elementary functions: \<^verbatim>\<open>float\<close> overloads and \<^verbatim>\<open>double\<close> overload.\<close>

record libm =
  logf :: "fval \<Rightarrow> fval"
  expf :: "fval \<Rightarrow> fval"
  log_d :: "fval \<Rightarrow> fval"

subsection \<open>Order\<close>

text \<open>The real number a finite value stands for.\<close>

definition rval :: "int \<Rightarrow> int \<Rightarrow> real" where
  "rval m e = of_int m * 2 powi e"

lemma rval_shift: "k \<le> e \<Longrightarrow> rval m e = of_int (m * pow2 (e - k)) * 2 powi k"
proof -
  assume "k \<le> e"
  then have "(2::real) powi e = 2 powi (e - k) * 2 powi k"
    by (simp flip: power_int_add)
  moreover have "(2::real) powi (e - k) = of_int (pow2 (e - k))"
    using \<open>k \<le> e\<close> by (simp add: pow2_def power_int_def)
  ultimately show ?thesis by (simp add: rval_def)
qed

lemma flt_Fin_iff: "flt (Fin a b) (Fin c d) \<longleftrightarrow> rval a b < rval c d"
proof -
  let ?e = "min b d"
  have "rval a b < rval c d \<longleftrightarrow>
      of_int (a * pow2 (b - ?e)) * (2::real) powi ?e < of_int (c * pow2 (d - ?e)) * 2 powi ?e"
    by (simp only: rval_shift [of ?e b a] rval_shift [of ?e d c] min.cobounded1 min.cobounded2)
  also have "\<dots> \<longleftrightarrow> a * pow2 (b - ?e) < c * pow2 (d - ?e)"
    by (subst mult_less_cancel_right_pos) (simp_all only: of_int_less_iff zero_less_power_int zero_less_numeral)
  finally show ?thesis by (simp add: Let_def)
qed

declare flt.simps(1) [simp del]

lemma flt_irrefl [simp]: "\<not> flt x x"
  by (cases x) (auto simp: flt_Fin_iff)

lemma flt_nan [simp]: "is_nan x \<Longrightarrow> \<not> flt x y" "is_nan y \<Longrightarrow> \<not> flt x y"
  by (cases x; cases y; simp)+

lemma flt_trans: "flt x y \<Longrightarrow> flt y z \<Longrightarrow> flt x z"
  by (cases x; cases y; cases z) (auto simp: flt_Fin_iff)

lemma flt_asym: "flt x y \<Longrightarrow> \<not> flt y x"
  using flt_trans [of x y x] by auto

text \<open>Away from not-a-number the order is weak: incomparability is transitive.\<close>

lemma flt_cotrans: "flt x z \<Longrightarrow> \<not> is_nan y \<Longrightarrow> flt x y \<or> flt y z"
  by (cases x; cases y; cases z) (auto simp: flt_Fin_iff)

lemma feq_refl: "\<not> is_nan x \<Longrightarrow> feq x x"
  by (simp add: feq_def)

lemma feq_sym: "feq x y \<longleftrightarrow> feq y x"
  by (auto simp: feq_def)

lemma feq_trans: "feq x y \<Longrightarrow> feq y z \<Longrightarrow> feq x z"
  by (auto simp: feq_def dest: flt_cotrans [of x z y] flt_cotrans [of z x y])

lemma feq_flt_trans: "feq x y \<Longrightarrow> flt y z \<Longrightarrow> flt x z"
  by (auto simp: feq_def dest: flt_cotrans [of y z x])

lemma flt_feq_trans: "flt x y \<Longrightarrow> feq y z \<Longrightarrow> flt x z"
  by (auto simp: feq_def dest: flt_cotrans [of x y z])

lemma flt_total: "\<not> is_nan x \<Longrightarrow> \<not> is_nan y \<Longrightarrow> flt x y \<or> feq x y \<or> flt y x"
  by (auto simp: feq_def)

end
