(* ===== verification/Decoder_Utils.thy ===== *)
theory Decoder_Utils
  imports Floats
begin

unbundle bit_operations_syntax

text \<open>
  \<^verbatim>\<open>native_client/ctcdecode/decoder_utils.{h,cpp}\<close>: UTF-8 and delimiter splitting,
  log-domain addition, and the selection of the output classes that one time step of the
  beam search looks at.  The comparison of prefixes is in \<open>Path_Trie\<close>, the dictionary
  construction in \<open>Scorer\<close>.

  \<^verbatim>\<open>std::sort\<close>, \<^verbatim>\<open>std::partial_sort\<close> and \<^verbatim>\<open>std::nth_element\<close> leave open how
  equivalent elements are ordered.  They are the fields of the record \<open>stl\<close>, and
  \<open>stl_ok\<close> is what the C++ standard says of them; that they permute the elements is also assumed for
  a comparison that a NaN keeps from being a strict weak ordering, where the standard is silent.
\<close>

section \<open>Definitions\<close>

subsection \<open>Constants\<close>

definition NUM_FLT_INF :: fval where
  "NUM_FLT_INF = Fin 16777215 104"

definition NUM_FLT_MIN :: fval where
  "NUM_FLT_MIN = Fin 1 (-126)"

text \<open>The literal \<open>0.4342944819\<close> is a \<^verbatim>\<open>double\<close> narrowed to \<^verbatim>\<open>float\<close>.\<close>

definition NUM_FLT_LOGE :: fval where
  "NUM_FLT_LOGE = to_float (fdiv binary64 (Fin 4342944819 0) (Fin 10000000000 0))"

abbreviation neg_flt_inf :: fval where
  "neg_flt_inf \<equiv> fneg NUM_FLT_INF"

subsection \<open>Strings\<close>

definition byte_is_codepoint_boundary :: "char \<Rightarrow> bool" where
  "byte_is_codepoint_boundary c \<longleftrightarrow> (of_char c :: 8 word) AND 0xC0 \<noteq> 0x80"

fun get_utf8_str_len_loop :: "string \<Rightarrow> nat \<Rightarrow> nat" where
  "get_utf8_str_len_loop [] str_len = str_len"
| "get_utf8_str_len_loop (c # str) str_len =
     get_utf8_str_len_loop str (str_len + (if (of_char c :: 8 word) AND 0xc0 \<noteq> 0x80 then 1 else 0))"

definition get_utf8_str_len :: "string \<Rightarrow> nat" where
  "get_utf8_str_len str = get_utf8_str_len_loop str 0"

text \<open>The loop of \<^verbatim>\<open>split_into_codepoints\<close>; its state is \<open>(result, out_str)\<close>.\<close>

fun split_into_codepoints_loop :: "string \<Rightarrow> string list \<Rightarrow> string \<Rightarrow> string list \<times> string" where
  "split_into_codepoints_loop [] result out_str = (result, out_str)"
| "split_into_codepoints_loop (c # str) result out_str =
     (if byte_is_codepoint_boundary c \<and> out_str \<noteq> []
      then split_into_codepoints_loop str (result @ [out_str]) [c]
      else split_into_codepoints_loop str result (out_str @ [c]))"

definition split_into_codepoints :: "string \<Rightarrow> string list" where
  "split_into_codepoints str =
     (let (result, out_str) = split_into_codepoints_loop str [] [] in result @ [out_str])"

fun split_into_bytes_loop :: "string \<Rightarrow> string list \<Rightarrow> string list" where
  "split_into_bytes_loop [] result = result"
| "split_into_bytes_loop (c # str) result = split_into_bytes_loop str (result @ [[c]])"

definition split_into_bytes :: "string \<Rightarrow> string list" where
  "split_into_bytes str = split_into_bytes_loop str []"

text \<open>\<^verbatim>\<open>std::string::find(delim, start)\<close>: the first position at or after \<open>start\<close>
  where \<open>delim\<close> occurs; \<open>None\<close> is \<^verbatim>\<open>npos\<close>.\<close>

function str_find :: "string \<Rightarrow> string \<Rightarrow> nat \<Rightarrow> nat option" where
  "str_find s delim start =
     (if length s < start then None
      else if take (length delim) (drop start s) = delim then Some start
      else str_find s delim (Suc start))"
  by pat_completeness auto
termination by (relation "measure (\<lambda>(s, delim, start). Suc (length s) - start)") auto

declare str_find.simps [simp del]

text \<open>The loop of \<^verbatim>\<open>split_str\<close>.  It does not end when \<open>delim\<close> is empty.\<close>

partial_function (option) split_str_loop ::
    "string \<Rightarrow> string \<Rightarrow> nat \<Rightarrow> string list \<Rightarrow> string list option" where
  "split_str_loop s delim start result =
     (case str_find s delim start of
        None \<Rightarrow> Some (if start < length s then result @ [drop start s] else result)
      | Some stop \<Rightarrow>
          split_str_loop s delim (stop + length delim)
            (if stop > start then result @ [take (stop - start) (drop start s)] else result))"

declare split_str_loop.simps [code]

definition split_str :: "string \<Rightarrow> string \<Rightarrow> string list option" where
  "split_str s delim = split_str_loop s delim 0 []"

subsection \<open>Probabilities\<close>

text \<open>The instance of the template \<^verbatim>\<open>log_sum_exp\<close> that the program uses, for \<^verbatim>\<open>float\<close>.\<close>

definition log_sum_exp :: "libm \<Rightarrow> fval \<Rightarrow> fval \<Rightarrow> fval" where
  "log_sum_exp m x y =
     (let num_min = fneg NUM_FLT_INF in
      if fle x num_min then y
      else if fle y num_min then x
      else let xmax = std_max x y in
        fadd binary32
          (logf m (fadd binary32 (expf m (fsub binary32 x xmax)) (expf m (fsub binary32 y xmax))))
          xmax)"

definition pair_comp_second_rev :: "nat \<times> fval \<Rightarrow> nat \<times> fval \<Rightarrow> bool" where
  "pair_comp_second_rev a b \<longleftrightarrow> flt (snd b) (snd a)"

record stl =
  std_sort :: "(nat \<times> fval \<Rightarrow> nat \<times> fval \<Rightarrow> bool) \<Rightarrow> (nat \<times> fval) list \<Rightarrow> (nat \<times> fval) list"
  std_partial_sort :: "(addr \<Rightarrow> addr \<Rightarrow> bool) \<Rightarrow> nat \<Rightarrow> addr list \<Rightarrow> addr list"
  std_nth_element :: "(addr \<Rightarrow> addr \<Rightarrow> bool) \<Rightarrow> nat \<Rightarrow> addr list \<Rightarrow> addr list"

text \<open>The loop that accumulates probability mass; its result is \<open>cutoff_len\<close>.\<close>

fun cutoff_loop :: "fval \<Rightarrow> nat \<Rightarrow> (nat \<times> fval) list \<Rightarrow> fval \<Rightarrow> nat \<Rightarrow> nat" where
  "cutoff_loop cutoff_prob cutoff_top_n [] cum_prob cutoff_len = cutoff_len"
| "cutoff_loop cutoff_prob cutoff_top_n (p # ps) cum_prob cutoff_len =
     (let cum_prob' = fadd binary64 cum_prob (snd p); cutoff_len' = cutoff_len + 1 in
      if fle cutoff_prob cum_prob' \<or> cutoff_top_n \<le> cutoff_len' then cutoff_len'
      else cutoff_loop cutoff_prob cutoff_top_n ps cum_prob' cutoff_len')"

text \<open>\<open>prob_step\<close> is the array from the pointer on; reading past its end is \<open>None\<close>.\<close>

definition get_pruned_log_probs ::
    "libm \<Rightarrow> stl \<Rightarrow> fval list \<Rightarrow> nat \<Rightarrow> fval \<Rightarrow> nat \<Rightarrow> (nat \<times> fval) list option" where
  "get_pruned_log_probs m env prob_step class_dim cutoff_prob cutoff_top_n =
     (if length prob_step < class_dim then None
      else
        let prob_idx = map (\<lambda>i. (i, prob_step ! i)) [0..<class_dim];
            one = Fin 1 0;
            (prob_idx, cutoff_len) =
              (if flt cutoff_prob one \<or> cutoff_top_n < class_dim then
                 let sorted = std_sort env pair_comp_second_rev prob_idx;
                     cutoff_len =
                       (if flt cutoff_prob one
                        then cutoff_loop cutoff_prob cutoff_top_n sorted (Fin 0 0) 0
                        else class_dim)
                 in (take cutoff_len sorted, cutoff_len)
               else (prob_idx, class_dim))
        in Some (map (\<lambda>p. (fst p, to_float (log_d m (fadd binary64 (snd p) NUM_FLT_MIN))))
                   (take cutoff_len prob_idx)))"

section \<open>What the standard says of the sorting algorithms\<close>

definition strict_weak :: "('a \<Rightarrow> 'a \<Rightarrow> bool) \<Rightarrow> 'a set \<Rightarrow> bool" where
  "strict_weak cmp S \<longleftrightarrow>
     (\<forall>x\<in>S. \<not> cmp x x) \<and>
     (\<forall>x\<in>S. \<forall>y\<in>S. \<forall>z\<in>S. cmp x y \<longrightarrow> cmp y z \<longrightarrow> cmp x z) \<and>
     (\<forall>x\<in>S. \<forall>y\<in>S. \<forall>z\<in>S. cmp x z \<longrightarrow> cmp x y \<or> cmp y z)"

definition sort_ok :: "(('a \<Rightarrow> 'a \<Rightarrow> bool) \<Rightarrow> 'a list \<Rightarrow> 'a list) \<Rightarrow> bool" where
  "sort_ok srt \<longleftrightarrow>
     (\<forall>cmp xs. mset (srt cmp xs) = mset xs \<and>
        (strict_weak cmp (set xs) \<longrightarrow> sorted_wrt (\<lambda>a b. \<not> cmp b a) (srt cmp xs)))"

definition partial_sort_ok :: "(('a \<Rightarrow> 'a \<Rightarrow> bool) \<Rightarrow> nat \<Rightarrow> 'a list \<Rightarrow> 'a list) \<Rightarrow> bool" where
  "partial_sort_ok srt \<longleftrightarrow>
     (\<forall>cmp n xs. n \<le> length xs \<longrightarrow> mset (srt cmp n xs) = mset xs \<and>
        (strict_weak cmp (set xs) \<longrightarrow>
           sorted_wrt (\<lambda>a b. \<not> cmp b a) (take n (srt cmp n xs)) \<and>
           (\<forall>a\<in>set (take n (srt cmp n xs)). \<forall>b\<in>set (drop n (srt cmp n xs)). \<not> cmp b a)))"

definition nth_element_ok :: "(('a \<Rightarrow> 'a \<Rightarrow> bool) \<Rightarrow> nat \<Rightarrow> 'a list \<Rightarrow> 'a list) \<Rightarrow> bool" where
  "nth_element_ok srt \<longleftrightarrow>
     (\<forall>cmp n xs. n \<le> length xs \<longrightarrow> mset (srt cmp n xs) = mset xs \<and>
        (strict_weak cmp (set xs) \<longrightarrow>
           (\<forall>a\<in>set (take n (srt cmp n xs)). \<forall>b\<in>set (drop n (srt cmp n xs)). \<not> cmp b a)))"

definition stl_ok :: "stl \<Rightarrow> bool" where
  "stl_ok env \<longleftrightarrow> sort_ok (std_sort env) \<and> partial_sort_ok (std_partial_sort env)
     \<and> nth_element_ok (std_nth_element env)"

text \<open>A concrete library that meets the contract: insertion sort for all three.\<close>

fun insort_by :: "('a \<Rightarrow> 'a \<Rightarrow> bool) \<Rightarrow> 'a \<Rightarrow> 'a list \<Rightarrow> 'a list" where
  "insort_by cmp x [] = [x]"
| "insort_by cmp x (y # ys) = (if cmp y x then y # insort_by cmp x ys else x # y # ys)"

definition isort :: "('a \<Rightarrow> 'a \<Rightarrow> bool) \<Rightarrow> 'a list \<Rightarrow> 'a list" where
  "isort cmp xs = foldr (insort_by cmp) xs []"

definition stl_ref :: stl where
  "stl_ref = \<lparr>std_sort = isort, std_partial_sort = (\<lambda>cmp n. isort cmp), std_nth_element = (\<lambda>cmp n. isort cmp)\<rparr>"

lemma mset_insort_by [simp]: "mset (insort_by cmp x xs) = add_mset x (mset xs)"
  by (induction xs) auto

lemma set_insort_by [simp]: "set (insort_by cmp x xs) = insert x (set xs)"
  by (induction xs) auto

lemma mset_isort [simp]: "mset (isort cmp xs) = mset xs"
  by (induction xs) (simp_all add: isort_def)

lemma set_isort [simp]: "set (isort cmp xs) = set xs"
  by (rule set_mset_eq) simp

lemma strict_weak_subset: "strict_weak cmp S \<Longrightarrow> T \<subseteq> S \<Longrightarrow> strict_weak cmp T"
  unfolding strict_weak_def by blast

lemma strict_weak_not_trans:
  assumes "strict_weak cmp S" and "x \<in> S" "y \<in> S" "z \<in> S" and "\<not> cmp y x" "\<not> cmp z y"
  shows "\<not> cmp z x"
  using assms unfolding strict_weak_def by blast

lemma sorted_insort_by:
  assumes "strict_weak cmp (insert x (set xs))" and "sorted_wrt (\<lambda>a b. \<not> cmp b a) xs"
  shows "sorted_wrt (\<lambda>a b. \<not> cmp b a) (insort_by cmp x xs)"
  using assms
proof (induction xs)
  case Nil
  then show ?case by simp
next
  case (Cons y ys)
  have sw: "strict_weak cmp (insert x (set ys))"
    using Cons.prems(1) by (rule strict_weak_subset) auto
  show ?case
  proof (cases "cmp y x")
    case True
    have "\<not> cmp x y"
      using Cons.prems(1) True unfolding strict_weak_def by (metis insert_iff list.set_intros(1))
    with True Cons sw show ?thesis by simp
  next
    case False
    have "\<not> cmp z x" if z: "z \<in> set ys" for z
      using Cons.prems(2) z by (intro strict_weak_not_trans [OF Cons.prems(1) _ _ _ False]) auto
    with False Cons.prems(2) show ?thesis by simp
  qed
qed

lemma sorted_isort: "strict_weak cmp (set xs) \<Longrightarrow> sorted_wrt (\<lambda>a b. \<not> cmp b a) (isort cmp xs)"
proof (induction xs)
  case Nil
  show ?case by (simp add: isort_def)
next
  case (Cons x xs)
  have "sorted_wrt (\<lambda>a b. \<not> cmp b a) (isort cmp xs)"
    by (rule Cons.IH) (rule strict_weak_subset [OF Cons.prems], auto)
  moreover have "strict_weak cmp (insert x (set (isort cmp xs)))"
    using Cons.prems by simp
  ultimately have "sorted_wrt (\<lambda>a b. \<not> cmp b a) (insort_by cmp x (isort cmp xs))"
    by (intro sorted_insort_by)
  then show ?case by (simp add: isort_def)
qed

lemma sorted_wrt_take_drop:
  "sorted_wrt P xs \<Longrightarrow> a \<in> set (take n xs) \<Longrightarrow> b \<in> set (drop n xs) \<Longrightarrow> P a b"
  by (metis append_take_drop_id sorted_wrt_append)

lemma sorted_wrt_take': "sorted_wrt P xs \<Longrightarrow> sorted_wrt P (take n xs)"
  by (metis append_take_drop_id sorted_wrt_append)

lemma isort_partition:
  assumes "strict_weak cmp (set xs)" and "a \<in> set (take n (isort cmp xs))"
    and "b \<in> set (drop n (isort cmp xs))"
  shows "\<not> cmp b a"
  using sorted_wrt_take_drop [OF sorted_isort [OF assms(1)] assms(2,3)] .

lemma stl_ref_ok: "stl_ok stl_ref"
proof -
  have "sort_ok (isort :: (nat \<times> fval \<Rightarrow> nat \<times> fval \<Rightarrow> bool) \<Rightarrow> _)"
    by (simp add: sort_ok_def sorted_isort)
  moreover have "partial_sort_ok (\<lambda>cmp n :: nat. isort (cmp :: addr \<Rightarrow> addr \<Rightarrow> bool))"
    unfolding partial_sort_ok_def using isort_partition sorted_wrt_take' [OF sorted_isort] by (metis mset_isort)
  moreover have "nth_element_ok (\<lambda>cmp n :: nat. isort (cmp :: addr \<Rightarrow> addr \<Rightarrow> bool))"
    unfolding nth_element_ok_def using isort_partition by (metis mset_isort)
  ultimately show ?thesis by (simp add: stl_ok_def stl_ref_def)
qed

section \<open>Strings\<close>

lemma codepoints_loop_concat:
  "split_into_codepoints_loop str result out_str = (r, t) \<Longrightarrow>
     concat r @ t = concat result @ out_str @ str"
  by (induction str arbitrary: result out_str) (force split: if_splits)+

lemma split_into_bytes_eq: "split_into_bytes str = map (\<lambda>c. [c]) str"
proof -
  have "split_into_bytes_loop str result = result @ map (\<lambda>c. [c]) str" for result
    by (induction str arbitrary: result) auto
  then show ?thesis by (simp add: split_into_bytes_def)
qed

lemma get_utf8_str_len_eq: "get_utf8_str_len str = length (filter byte_is_codepoint_boundary str)"
proof -
  have "get_utf8_str_len_loop str n = n + length (filter byte_is_codepoint_boundary str)" for n
    by (induction str arbitrary: n) (auto simp: byte_is_codepoint_boundary_def)
  then show ?thesis by (simp add: get_utf8_str_len_def)
qed

text \<open>A piece is well formed when only its first byte may start a code point.\<close>

definition codepoint_piece :: "string \<Rightarrow> bool" where
  "codepoint_piece w \<longleftrightarrow> w \<noteq> [] \<and> (\<forall>c\<in>set (tl w). \<not> byte_is_codepoint_boundary c)"

lemma codepoint_piece_snoc:
  "w = [] \<or> codepoint_piece w \<Longrightarrow> w = [] \<or> \<not> byte_is_codepoint_boundary c \<Longrightarrow> codepoint_piece (w @ [c])"
  by (cases w) (auto simp: codepoint_piece_def)

lemma codepoints_loop_pieces:
  assumes "split_into_codepoints_loop str result out_str = (r, t)"
    and "\<forall>w\<in>set result. codepoint_piece w" and "out_str = [] \<or> codepoint_piece out_str"
  shows "(\<forall>w\<in>set r. codepoint_piece w) \<and> (t = [] \<longrightarrow> str = [] \<and> out_str = []) \<and> (t = [] \<or> codepoint_piece t)"
  using assms
proof (induction str arbitrary: result out_str)
  case Nil
  then show ?case by simp
next
  case (Cons c str)
  show ?case
  proof (cases "byte_is_codepoint_boundary c \<and> out_str \<noteq> []")
    case True
    have "codepoint_piece [c]" by (simp add: codepoint_piece_def)
    moreover have "split_into_codepoints_loop str (result @ [out_str]) [c] = (r, t)"
      using True Cons.prems(1) by simp
    moreover have "\<forall>w\<in>set (result @ [out_str]). codepoint_piece w"
      using True Cons.prems(2,3) by auto
    ultimately show ?thesis using Cons.IH [of "result @ [out_str]" "[c]"] by blast
  next
    case False
    have "codepoint_piece (out_str @ [c])"
      using Cons.prems(3) False by (intro codepoint_piece_snoc) auto
    moreover have "split_into_codepoints_loop str result (out_str @ [c]) = (r, t)"
      using False Cons.prems(1) by (simp split: if_splits)
    ultimately show ?thesis using Cons.IH [of result "out_str @ [c]"] Cons.prems(2) by blast
  qed
qed

lemma codepoints_loop_boundaries:
  "split_into_codepoints_loop str result out_str = (r, t) \<Longrightarrow> out_str \<noteq> [] \<Longrightarrow>
     \<exists>w ws. r @ [t] = result @ (out_str @ w) # ws \<and> (\<forall>v\<in>set ws. byte_is_codepoint_boundary (hd v))"
proof (induction str arbitrary: result out_str)
  case Nil
  then show ?case by auto
next
  case (Cons c str)
  show ?case
  proof (cases "byte_is_codepoint_boundary c")
    case True
    with Cons.prems Cons.IH [of "result @ [out_str]" "[c]"] obtain w ws where
      "r @ [t] = (result @ [out_str]) @ ([c] @ w) # ws" "\<forall>v\<in>set ws. byte_is_codepoint_boundary (hd v)"
      by auto
    with True show ?thesis by (intro exI [of _ "[]"] exI [of _ "([c] @ w) # ws"]) simp
  next
    case False
    with Cons.prems Cons.IH [of result "out_str @ [c]"] obtain w ws where
      "r @ [t] = result @ ((out_str @ [c]) @ w) # ws" "\<forall>v\<in>set ws. byte_is_codepoint_boundary (hd v)"
      by auto
    then show ?thesis by (intro exI [of _ "c # w"] exI [of _ ws]) simp
  qed
qed

text \<open>
  Splitting a non-empty string into code points loses nothing (the pieces concatenate
  to the string), every piece is non-empty with no code point start after its first byte, and
  every piece but the first begins at a code point start.
\<close>

lemma split_into_codepoints_correct:
  assumes "str \<noteq> []"
  shows "concat (split_into_codepoints str) = str \<and> (\<forall>w\<in>set (split_into_codepoints str). codepoint_piece w)
    \<and> (\<forall>w\<in>set (tl (split_into_codepoints str)). byte_is_codepoint_boundary (hd w))"
proof -
  obtain r t where rt: "split_into_codepoints_loop str [] [] = (r, t)" by fastforce
  obtain c str' where str: "str = c # str'" using assms by (cases str) auto
  have "concat r @ t = str"
    using codepoints_loop_concat [OF rt] by simp
  moreover have "(\<forall>w\<in>set r. codepoint_piece w) \<and> codepoint_piece t"
    using codepoints_loop_pieces [OF rt] assms by auto
  moreover have "split_into_codepoints_loop str' [] [c] = (r, t)" using rt by (simp add: str)
  then obtain w ws where "r @ [t] = ([c] @ w) # ws" "\<forall>v\<in>set ws. byte_is_codepoint_boundary (hd v)"
    using codepoints_loop_boundaries [of str' "[]" "[c]" r t] by auto
  then have "\<forall>w\<in>set (tl (r @ [t])). byte_is_codepoint_boundary (hd w)" by simp
  ultimately show ?thesis using rt by (simp add: split_into_codepoints_def)
qed

lemma split_into_codepoints_correct_witness:
  "concat (split_into_codepoints ''ab'') = ''ab'' \<and> list_all codepoint_piece (split_into_codepoints ''ab'')"
  using split_into_codepoints_correct [of "''ab''"] by (simp add: list_all_iff)

text \<open>The number of code points is the number of pieces, for text that begins with one.\<close>

lemma codepoints_loop_length:
  "split_into_codepoints_loop str result out_str = (r, t) \<Longrightarrow> out_str \<noteq> [] \<Longrightarrow>
     length r = length result + length (filter byte_is_codepoint_boundary str)"
  by (induction str arbitrary: result out_str) (auto split: if_splits)

lemma split_into_codepoints_length:
  assumes "byte_is_codepoint_boundary c"
  shows "length (split_into_codepoints (c # str)) = get_utf8_str_len (c # str)"
proof -
  obtain r t where rt: "split_into_codepoints_loop str [] [c] = (r, t)" by fastforce
  from codepoints_loop_length [OF rt] rt assms show ?thesis
    by (simp add: split_into_codepoints_def get_utf8_str_len_eq)
qed

subsection \<open>Splitting on a delimiter\<close>

text \<open>The reference: cut at every occurrence of the character, drop the empty pieces.\<close>

fun split_on :: "char \<Rightarrow> string \<Rightarrow> string list" where
  "split_on d [] = [[]]"
| "split_on d (c # s) =
     (if c = d then [] # split_on d s
      else case split_on d s of [] \<Rightarrow> [[c]] | w # ws \<Rightarrow> (c # w) # ws)"

definition words_on :: "char \<Rightarrow> string \<Rightarrow> string list" where
  "words_on d s = filter (\<lambda>w. w \<noteq> []) (split_on d s)"

lemma split_on_no_delim: "d \<notin> set p \<Longrightarrow> split_on d p = [p]"
  by (induction p) auto

lemma split_on_delim: "d \<notin> set p \<Longrightarrow> split_on d (p @ d # q) = p # split_on d q"
  by (induction p) auto

lemma words_on_no_delim: "d \<notin> set p \<Longrightarrow> words_on d p = (if p = [] then [] else [p])"
  by (simp add: words_on_def split_on_no_delim)

lemma words_on_delim:
  "d \<notin> set p \<Longrightarrow> words_on d (p @ d # q) = (if p = [] then [] else [p]) @ words_on d q"
  by (simp add: words_on_def split_on_delim)

lemma split_on_pieces: "w \<in> set (split_on d s) \<Longrightarrow> d \<notin> set w \<and> set w \<subseteq> set s"
proof (induction s arbitrary: w)
  case Nil
  then show ?case by simp
next
  case (Cons c s)
  then show ?case
    by (cases "split_on d s") (fastforce split: if_splits)+
qed

lemma words_on_pieces: "w \<in> set (words_on d s) \<Longrightarrow> w \<noteq> [] \<and> d \<notin> set w \<and> set w \<subseteq> set s"
  using split_on_pieces by (auto simp: words_on_def)

lemma str_find_ge: "str_find s delim start = Some e \<Longrightarrow> start \<le> e \<and> e \<le> length s"
proof (induction s delim start rule: str_find.induct)
  case (1 s delim start)
  then show ?case
    by (subst (asm) (2) str_find.simps) (fastforce split: if_splits)
qed

lemma str_find_absent: "d \<notin> set (drop start s) \<Longrightarrow> str_find s [d] start = None"
proof (induction s "[d]" start rule: str_find.induct)
  case (1 s start)
  have "d \<notin> set (drop (Suc start) s)"
    using "1.prems" by (metis Suc_eq_plus1_left drop_drop in_set_dropD)
  moreover have "take 1 (drop start s) \<noteq> [d]"
    using "1.prems" by (cases "drop start s") auto
  ultimately show ?case
    using "1.hyps" by (subst str_find.simps) simp
qed

lemma str_find_first:
  "drop start s = p @ d # q \<Longrightarrow> d \<notin> set p \<Longrightarrow> str_find s [d] start = Some (start + length p)"
proof (induction p arbitrary: start)
  case Nil
  then have "start \<le> length s" by (metis drop_all le_cases list.distinct(1) append_Nil)
  with Nil show ?case by (subst str_find.simps) simp
next
  case (Cons c p)
  then have "start \<le> length s" by (metis drop_all le_cases list.distinct(1) append_Cons)
  moreover have "drop (Suc start) s = p @ d # q"
    using Cons.prems(1) by (metis append_Cons drop_Suc list.sel(3) tl_drop)
  ultimately show ?case
    using Cons by (subst str_find.simps) auto
qed

lemma split_str_loop_char:
  "start \<le> length s \<Longrightarrow> split_str_loop s [d] start result = Some (result @ words_on d (drop start s))"
proof (induction "length s - start" arbitrary: start result rule: less_induct)
  case less
  show ?case
  proof (cases "d \<in> set (drop start s)")
    case False
    with less.prems show ?thesis
      by (subst split_str_loop.simps) (simp add: str_find_absent words_on_no_delim)
  next
    case True
    then obtain p q where pq: "drop start s = p @ d # q" "d \<notin> set p"
      by (meson split_list_first)
    let ?next = "start + length p + 1"
    have len: "length s - start = length p + 1 + length q"
      using arg_cong [OF pq(1), of length] by simp
    have "drop ?next s = drop (length p + 1) (drop start s)"
      by (simp add: add.commute)
    then have q: "drop ?next s = q" by (simp add: pq(1))
    have IH: "split_str_loop s [d] ?next result' = Some (result' @ words_on d q)" for result'
      using less.hyps [of ?next result'] less.prems len q by simp
    show ?thesis
      by (subst split_str_loop.simps) (use IH in \<open>auto simp: str_find_first [OF pq] pq words_on_delim\<close>)
  qed
qed

text \<open>
  With a one-character delimiter \<^verbatim>\<open>split_str\<close> always returns, and returns exactly
  the non-empty pieces between the occurrences of the delimiter, in order.
\<close>

lemma split_str_char: "split_str s [d] = Some (words_on d s)"
  by (simp add: split_str_def split_str_loop_char)

text \<open>With an empty delimiter the loop never ends.\<close>

lemma split_str_empty_delim: "split_str s [] = None"
proof (rule ccontr)
  assume "split_str s [] \<noteq> None"
  then obtain r where "split_str_loop s [] 0 [] = Some r" by (auto simp: split_str_def)
  then have "length s < 0"
    using split_str_loop.raw_induct [where P = "\<lambda>s delim start result r. delim = [] \<longrightarrow> length s < start"]
    by (fastforce simp: str_find.simps split: option.splits if_splits)
  then show False by simp
qed

section \<open>Probabilities\<close>

subsection \<open>Log-domain addition\<close>

lemma fround_zero [simp]: "fround f 0 e = Fin 0 0"
  by (simp add: fround_def Let_def rshift_even_def blen.simps [of 0] fnorm.simps [of 0])

lemma fnorm_nonpos: "m \<le> 0 \<Longrightarrow> \<exists>m' e'. fnorm m e = Fin m' e' \<and> m' \<le> 0"
proof (induction m e rule: fnorm.induct)
  case (1 m e)
  then show ?case by (subst fnorm.simps) auto
qed

lemma rshift_even_nonneg: "0 \<le> a \<Longrightarrow> 0 \<le> rshift_even a s"
  by (simp add: rshift_even_def Let_def pow2_def pos_imp_zdiv_nonneg_iff)

lemma fround_nonpos: "m \<le> 0 \<Longrightarrow> fle (fround f m e) (Fin 0 0)"
proof (cases "m = 0")
  case True
  then show ?thesis by (simp add: fle_def feq_def)
next
  case False
  assume "m \<le> 0"
  with False have m: "m < 0" by simp
  let ?t = "max (blen \<bar>m\<bar> + e - prec f) (emin f)"
  let ?a = "if ?t \<le> e then \<bar>m\<bar> else rshift_even \<bar>m\<bar> (?t - e)"
  have "0 \<le> ?a" by (simp add: rshift_even_nonneg)
  then have "sgn m * ?a \<le> 0" using m by (auto simp: sgn_if)
  then obtain m' e' where "fnorm (sgn m * ?a) (max ?t e) = Fin m' e'" "m' \<le> 0"
    using fnorm_nonpos by blast
  then have "fle (fnorm (sgn m * ?a) (max ?t e)) (Fin 0 0)"
    by (auto simp: fle_def feq_def flt_Fin_iff rval_def mult_le_0_iff not_less zero_le_mult_iff)
  moreover have "fle (Inf (m < 0)) (Fin 0 0)"
    using m by (simp add: fle_def)
  ultimately show ?thesis
    by (simp add: fround_def Let_def)
qed

lemma fsub_self_Fin [simp]: "fsub f (Fin a b) (Fin a b) = Fin 0 0"
  by (simp add: fsub_def)

lemma fsub_Fin_nonpos:
  assumes "\<not> flt (Fin c d) (Fin a b)"
  shows "fle (fsub f (Fin a b) (Fin c d)) (Fin 0 0)"
proof -
  have "a * pow2 (b - min b d) \<le> c * pow2 (d - min b d)"
    using assms by (simp add: flt.simps Let_def min.commute not_less)
  then show ?thesis by (simp add: fsub_def Let_def fround_nonpos)
qed

text \<open>
  \<^verbatim>\<open>log_sum_exp\<close> is the usual max-shifted form: for finite arguments above the
  sentinel the result is \<open>log (exp a + exp b) + max\<close> in which one exponent is exactly zero
  and the other at most zero, so no exponential overflows; an argument at or below the
  sentinel \<open>-FLT_MAX\<close> stands for probability zero and the other argument is returned.
\<close>

lemma log_sum_exp_shifted:
  assumes "x = Fin a b" and "y = Fin c d"
  shows "(if fle x neg_flt_inf then log_sum_exp m x y = y
    else if fle y neg_flt_inf then log_sum_exp m x y = x
    else \<exists>u v. log_sum_exp m x y = fadd binary32 (logf m (fadd binary32 (expf m u) (expf m v))) (std_max x y)
      \<and> fle u (Fin 0 0) \<and> fle v (Fin 0 0) \<and> (u = Fin 0 0 \<or> v = Fin 0 0))"
proof -
  have u: "fle (fsub binary32 x (std_max x y)) (Fin 0 0)" and v: "fle (fsub binary32 y (std_max x y)) (Fin 0 0)"
    using assms by (auto simp: std_max_def fsub_Fin_nonpos dest: flt_asym)
       (auto simp: fle_def feq_def)
  have "fsub binary32 x (std_max x y) = Fin 0 0 \<or> fsub binary32 y (std_max x y) = Fin 0 0"
    using assms by (simp add: std_max_def)
  with u v show ?thesis by (auto simp: log_sum_exp_def Let_def)
qed

lemma log_sum_exp_shifted_witness:
  "\<exists>u v. log_sum_exp \<lparr>logf = id, expf = id, log_d = id\<rparr> (Fin (-1) 0) (Fin (-3) 0)
      = fadd binary32 (fadd binary32 u v) (std_max (Fin (-1) 0) (Fin (-3) 0))
    \<and> fle u (Fin 0 0) \<and> fle v (Fin 0 0) \<and> (u = Fin 0 0 \<or> v = Fin 0 0)"
proof -
  have "\<not> fle (Fin (-1) 0) neg_flt_inf" "\<not> fle (Fin (-3) 0) neg_flt_inf" by code_simp+
  with log_sum_exp_shifted [of "Fin (-1) 0" "-1" 0 "Fin (-3) 0" "-3" 0 "\<lparr>logf = id, expf = id, log_d = id\<rparr>"]
  show ?thesis by simp
qed

subsection \<open>Pruning\<close>

lemma strict_weak_pair_comp:
  assumes "\<forall>p\<in>S. \<not> is_nan (snd p)"
  shows "strict_weak pair_comp_second_rev S"
  unfolding strict_weak_def pair_comp_second_rev_def
  using assms by (auto dest: flt_trans flt_cotrans)

lemma cutoff_loop_le: "cutoff_loop cp tn ps cum n \<le> n + length ps"
proof (induction ps arbitrary: cum n)
  case Nil
  show ?case by simp
next
  case (Cons p ps)
  from Cons [of "fadd binary64 cum (snd p)" "Suc n"] show ?case by (simp add: Let_def)
qed

lemma cutoff_loop_ge: "n \<le> cutoff_loop cp tn ps cum n"
proof (induction ps arbitrary: cum n)
  case Nil
  show ?case by simp
next
  case (Cons p ps)
  from Cons [of "Suc n" "fadd binary64 cum (snd p)"] show ?case by (simp add: Let_def)
qed

lemma cutoff_loop_top_n: "n < tn \<Longrightarrow> cutoff_loop cp tn ps cum n \<le> tn"
  by (induction ps arbitrary: cum n) (auto simp: Let_def)

lemma cutoff_loop_bounds:
  assumes "ps \<noteq> []"
  shows "1 \<le> cutoff_loop cp tn ps cum 0" "cutoff_loop cp tn ps cum 0 \<le> max 1 tn"
proof -
  obtain p qs where "ps = p # qs" using assms by (cases ps) auto
  then show "1 \<le> cutoff_loop cp tn ps cum 0"
    using cutoff_loop_ge [of 1 cp tn qs] by (simp add: Let_def)
  show "cutoff_loop cp tn ps cum 0 \<le> max 1 tn"
  proof (cases "tn = 0")
    case True
    with assms show ?thesis by (cases ps) (simp_all add: Let_def)
  next
    case False
    then have "cutoff_loop cp tn ps cum 0 \<le> tn" by (intro cutoff_loop_top_n) simp
    then show ?thesis by simp
  qed
qed

definition log_prob_entry :: "libm \<Rightarrow> fval list \<Rightarrow> nat \<Rightarrow> nat \<times> fval" where
  "log_prob_entry m prob_step i = (i, to_float (log_d m (fadd binary64 (prob_step ! i) NUM_FLT_MIN)))"

lemma log_prob_entry_map:
  assumes "set ps \<subseteq> set (map (\<lambda>i. (i, prob_step ! i)) [0..<n])"
  shows "map (\<lambda>p. (fst p, to_float (log_d m (fadd binary64 (snd p) NUM_FLT_MIN)))) ps
       = map (log_prob_entry m prob_step) (map fst ps)"
proof -
  have "snd p = prob_step ! fst p" if "p \<in> set ps" for p
    using assms that by auto
  then show ?thesis by (simp add: log_prob_entry_def)
qed

lemma pruned_sorted_facts:
  fixes n :: nat and prob_step :: "fval list"
  assumes "sort_ok srt"
  defines "s \<equiv> srt pair_comp_second_rev (map (\<lambda>i. (i, prob_step ! i)) [0..<n])"
  shows "mset (map fst s) = mset [0..<n]" and "set s = set (map (\<lambda>i. (i, prob_step ! i)) [0..<n])"
    and "length s = n" and "distinct (map fst s)"
proof -
  have ms: "mset s = mset (map (\<lambda>i. (i, prob_step ! i)) [0..<n])"
    using assms by (simp add: sort_ok_def)
  show fst: "mset (map fst s) = mset [0..<n]"
    using arg_cong [OF ms, of "image_mset fst"] by (simp add: multiset.map_comp comp_def)
  show "set s = set (map (\<lambda>i. (i, prob_step ! i)) [0..<n])"
    using ms by (rule set_mset_eq)
  show "length s = n"
    using mset_eq_length [OF ms] by simp
  show "distinct (map fst s)"
    using distinct_mset_eq [OF fst] by simp
qed

text \<open>
  When \<open>cutoff_prob\<close> is not below 1, as in \<^verbatim>\<open>DS_CreateStream\<close>, nothing is pruned
  whatever \<open>cutoff_top_n\<close> is: every one of the \<open>class_dim\<close> classes is returned once, with
  its log probability.
\<close>

lemma get_pruned_log_probs_top_n_ignored:
  assumes "stl_ok env" and "\<not> flt cutoff_prob (Fin 1 0)" and "class_dim \<le> length prob_step"
  shows "\<exists>r. get_pruned_log_probs m env prob_step class_dim cutoff_prob cutoff_top_n = Some r
    \<and> mset r = mset (map (log_prob_entry m prob_step) [0..<class_dim])"
proof (cases "cutoff_top_n < class_dim")
  case False
  have "get_pruned_log_probs m env prob_step class_dim cutoff_prob cutoff_top_n =
      Some (map (log_prob_entry m prob_step) [0..<class_dim])"
    using False assms(2,3) by (simp add: get_pruned_log_probs_def Let_def log_prob_entry_def comp_def)
  then show ?thesis by simp
next
  case True
  let ?s = "std_sort env pair_comp_second_rev (map (\<lambda>i. (i, prob_step ! i)) [0..<class_dim])"
  have srt: "sort_ok (std_sort env)" using assms(1) by (simp add: stl_ok_def)
  note facts = pruned_sorted_facts [OF srt, of prob_step class_dim]
  have "get_pruned_log_probs m env prob_step class_dim cutoff_prob cutoff_top_n =
      Some (map (log_prob_entry m prob_step) (map fst ?s))"
    using True assms(2,3) log_prob_entry_map [of ?s prob_step class_dim m] facts(2,3)
    by (simp add: get_pruned_log_probs_def Let_def)
  moreover have "mset (map (log_prob_entry m prob_step) (map fst ?s)) = mset (map (log_prob_entry m prob_step) [0..<class_dim])"
    using facts(1) by (metis mset_map)
  ultimately show ?thesis by simp
qed

lemma get_pruned_log_probs_top_n_ignored_witness:
  "\<exists>r. get_pruned_log_probs \<lparr>logf = id, expf = id, log_d = id\<rparr> stl_ref [Fin 1 (-1), Fin 1 (-2), Fin 1 (-2)] 3 (Fin 1 0) 1 = Some r
    \<and> mset r = mset (map (log_prob_entry \<lparr>logf = id, expf = id, log_d = id\<rparr> [Fin 1 (-1), Fin 1 (-2), Fin 1 (-2)]) [0..<3])"
  by (rule get_pruned_log_probs_top_n_ignored) (simp_all add: stl_ref_ok)

text \<open>
  C33: when \<open>cutoff_prob\<close> is below 1, between one and \<open>max 1 cutoff_top_n\<close> classes are
  returned, each at most once and each with its own log probability, and no class that is
  left out is more probable than one that is returned.
\<close>

theorem get_pruned_log_probs_selects_best:
  assumes "stl_ok env" and "flt cutoff_prob (Fin 1 0)" and "0 < class_dim" and "class_dim \<le> length prob_step"
    and "\<forall>i<class_dim. \<not> is_nan (prob_step ! i)"
  shows "\<exists>is. get_pruned_log_probs m env prob_step class_dim cutoff_prob cutoff_top_n
        = Some (map (log_prob_entry m prob_step) is)
    \<and> 1 \<le> length is \<and> length is \<le> max 1 cutoff_top_n \<and> distinct is \<and> set is \<subseteq> {0..<class_dim}
    \<and> (\<forall>i\<in>set is. \<forall>j<class_dim. j \<notin> set is \<longrightarrow> \<not> flt (prob_step ! i) (prob_step ! j))"
proof -
  let ?s = "std_sort env pair_comp_second_rev (map (\<lambda>i. (i, prob_step ! i)) [0..<class_dim])"
  let ?n = "cutoff_loop cutoff_prob cutoff_top_n ?s (Fin 0 0) 0"
  let ?is = "map fst (take ?n ?s)"
  have srt: "sort_ok (std_sort env)" using assms(1) by (simp add: stl_ok_def)
  note facts = pruned_sorted_facts [OF srt, of prob_step class_dim]
  have ne: "?s \<noteq> []" using facts(3) assms(3) by force
  have nle: "?n \<le> class_dim" using cutoff_loop_le [of _ _ ?s _ 0] facts(3) by simp
  have "set (take ?n ?s) \<subseteq> set (map (\<lambda>i. (i, prob_step ! i)) [0..<class_dim])"
    using facts(2) by (metis set_take_subset)
  from log_prob_entry_map [OF this] assms(2,4)
  have res: "get_pruned_log_probs m env prob_step class_dim cutoff_prob cutoff_top_n
        = Some (map (log_prob_entry m prob_step) ?is)"
    by (simp add: get_pruned_log_probs_def Let_def)
  have "distinct ?is"
    using facts(4) by (simp add: distinct_map_filter take_map flip: take_map)
  moreover have "set ?is \<subseteq> set (map fst ?s)"
    by (auto dest: in_set_takeD)
  then have "set ?is \<subseteq> {0..<class_dim}"
    using facts(2) by auto
  moreover have "1 \<le> length ?is" "length ?is \<le> max 1 cutoff_top_n"
    using cutoff_loop_bounds [OF ne, of cutoff_prob cutoff_top_n "Fin 0 0"] nle facts(3) by auto
  moreover have "\<not> flt (prob_step ! i) (prob_step ! j)"
    if i: "i \<in> set ?is" and j: "j < class_dim" "j \<notin> set ?is" for i j
  proof -
    have "strict_weak pair_comp_second_rev (set (map (\<lambda>i. (i, prob_step ! i)) [0..<class_dim]))"
      using assms(5) by (intro strict_weak_pair_comp) auto
    then have sorted: "sorted_wrt (\<lambda>a b. \<not> pair_comp_second_rev b a) ?s"
      using srt by (auto simp: sort_ok_def)
    obtain p where p: "p \<in> set (take ?n ?s)" "fst p = i" using i by auto
    then have "p \<in> set ?s" by (meson in_set_takeD)
    with facts(2) p have "p = (i, prob_step ! i)" by auto
    with p have "(i, prob_step ! i) \<in> set (take ?n ?s)" by simp
    moreover have "(j, prob_step ! j) \<in> set ?s"
      using j(1) facts(2) by auto
    then have "(j, prob_step ! j) \<in> set (drop ?n ?s)"
      using j(2) by (metis (no_types, lifting) UnE append_take_drop_id fst_conv image_eqI list.set_map set_append)
    ultimately show ?thesis
      using sorted_wrt_take_drop [OF sorted] by (fastforce simp: pair_comp_second_rev_def)
  qed
  ultimately show ?thesis using res by blast
qed

theorem get_pruned_log_probs_selects_best_witness:
  "\<exists>is. get_pruned_log_probs \<lparr>logf = id, expf = id, log_d = id\<rparr> stl_ref [Fin 1 (-1), Fin 1 (-2), Fin 1 (-2)] 3 (Fin 1 (-1)) 2
        = Some (map (log_prob_entry \<lparr>logf = id, expf = id, log_d = id\<rparr> [Fin 1 (-1), Fin 1 (-2), Fin 1 (-2)]) is)
    \<and> 1 \<le> length is \<and> length is \<le> max 1 2 \<and> distinct is \<and> set is \<subseteq> {0..<3}
    \<and> (\<forall>i\<in>set is. \<forall>j<3. j \<notin> set is \<longrightarrow>
          \<not> flt ([Fin 1 (-1), Fin 1 (-2), Fin 1 (-2)] ! i) ([Fin 1 (-1), Fin 1 (-2), Fin 1 (-2)] ! j))"
  by (rule get_pruned_log_probs_selects_best)
    (simp_all add: stl_ref_ok flt.simps pow2_def Let_def less_Suc_eq numeral_3_eq_3 nth_Cons')

end
