(* ===== verification/Alphabet.thy ===== *)
theory Alphabet
  imports Decoder_Utils
begin

text \<open>
  \<^verbatim>\<open>native_client/alphabet.{h,cc}\<close>: the table of output labels and their strings, its
  text and binary formats, and the conversion between transcripts and label sequences.

  A label is an \<^verbatim>\<open>unsigned int\<close>.  The two hash tables are maps; the order in which
  \<^verbatim>\<open>Serialize\<close> walks one of them is not fixed by C++ and is an argument.  A file is its
  bytes.  \<^verbatim>\<open>abort()\<close> is \<open>None\<close>.
\<close>

section \<open>Definitions\<close>

record alphabet =
  asize :: nat
  space_label :: u32
  label_to_str :: "u32 \<rightharpoonup> string"
  str_to_label :: "string \<rightharpoonup> u32"

subsection \<open>Reading the text format\<close>

text \<open>An input stream: the bytes not read yet and the two state bits that matter.\<close>

record istream =
  rest :: string
  eofbit :: bool
  failbit :: bool

text \<open>The read loop; the result is the line, the unread bytes and whether the end of file
  was hit.\<close>

fun getline_loop :: "string \<Rightarrow> string \<Rightarrow> string \<times> string \<times> bool" where
  "getline_loop [] t = (t, [], True)"
| "getline_loop (c # cs) t =
     (if c = CHR 0x0A then (t, cs, False)
      else if c = CHR 0x0D then
        (t, (case cs of [] \<Rightarrow> [] | d # ds \<Rightarrow> if d = CHR 0x0A then ds else cs), False)
      else getline_loop cs (t @ [c]))"

text \<open>Constructing the sentry on a stream that is not \<^verbatim>\<open>good()\<close> sets the fail bit; the
  function reads on regardless.\<close>

definition getline_crossplatform :: "istream \<Rightarrow> string \<times> istream" where
  "getline_crossplatform strm =
     (let strm1 = (if eofbit strm \<or> failbit strm then strm\<lparr>failbit := True\<rparr> else strm);
          (t, bytes, at_eof) = getline_loop (rest strm1) []
      in (t, strm1\<lparr>rest := bytes, eofbit := eofbit strm1 \<or> (at_eof \<and> t = [])\<rparr>))"

text \<open>One iteration of the loop of \<^verbatim>\<open>Alphabet::init\<close>.  Indexing position 0 of an empty
  \<^verbatim>\<open>std::string\<close> yields the terminating zero byte.\<close>

definition init_line :: "string \<Rightarrow> alphabet \<times> u32 \<Rightarrow> alphabet \<times> u32" where
  "init_line line s =
     (let (a, label) = s;
          escaped = (length line = 2 \<and> line ! 0 = CHR 0x5C \<and> line ! 1 = CHR ''#'')
      in if \<not> escaped \<and> line \<noteq> [] \<and> line ! 0 = CHR ''#'' then (a, label)
         else
           let line = (if escaped then ''#'' else line);
               a = (if line = '' '' then a\<lparr>space_label := label\<rparr> else a)
           in if length line = 0 then (a, label)
              else (a\<lparr>label_to_str := (label_to_str a)(label \<mapsto> line),
                      str_to_label := (str_to_label a)(line \<mapsto> label)\<rparr>, label + 1))"

lemma getline_loop_length:
  "getline_loop cs t = (u, bytes, b) \<Longrightarrow> length bytes \<le> length cs \<and> (cs \<noteq> [] \<longrightarrow> length bytes < length cs)"
  by (induction cs arbitrary: t) (force split: if_splits list.splits)+

lemma getline_loop_Nil: "getline_loop [] t = (u, bytes, b) \<Longrightarrow> u = t \<and> bytes = [] \<and> b"
  by simp

function init_loop :: "istream \<Rightarrow> alphabet \<times> u32 \<Rightarrow> alphabet \<times> u32" where
  "init_loop strm s =
     (let (line, strm') = getline_crossplatform strm in
      if failbit strm' then s else init_loop strm' (init_line line s))"
  by pat_completeness auto
termination
proof (relation "measure (\<lambda>(strm, s). 2 * length (rest strm) + (if eofbit strm then 0 else 1))")
  fix strm s p line strm'
  assume p: "p = getline_crossplatform strm" "(line, strm') = p" and ok: "\<not> failbit strm'"
  obtain t bytes e where g: "getline_loop (rest strm) [] = (t, bytes, e)" by (metis prod_cases3)
  from ok p have st: "\<not> eofbit strm" "strm' = strm\<lparr>rest := bytes, eofbit := (e \<and> t = [])\<rparr>"
    by (auto simp: getline_crossplatform_def Let_def g split: if_splits)
  show "((strm', init_line line s), strm, s) \<in> measure (\<lambda>(strm, s). 2 * length (rest strm) + (if eofbit strm then 0 else 1))"
    using st getline_loop_length [OF g] g by (cases "rest strm = []") auto
qed simp

declare init_loop.simps [simp del]

text \<open>\<open>file\<close> is \<open>None\<close> when the file cannot be opened.  The result is the return code
  and the updated object.\<close>

definition Alphabet_init :: "string option \<Rightarrow> alphabet \<Rightarrow> int \<times> alphabet" where
  "Alphabet_init file a =
     (case file of
        None \<Rightarrow> (1, a)
      | Some bytes \<Rightarrow>
          let (a', label) =
                init_loop \<lparr>rest = bytes, eofbit = False, failbit = False\<rparr> (a\<lparr>space_label := - 2\<rparr>, 0)
          in (0, a'\<lparr>asize := unat label\<rparr>))"

subsection \<open>The binary format\<close>

text \<open>\<open>order\<close> lists the keys of \<open>label_to_str\<close> as its iterator visits them.\<close>

definition Serialize :: "u32 list \<Rightarrow> alphabet \<Rightarrow> string" where
  "Serialize order a =
     le16 (asize a) @
     concat (map (\<lambda>key.
       let str = the (label_to_str a key); len = length str mod 65536
       in le16 (unat key) @ le16 len @ take len str) order)"

text \<open>The loop of \<^verbatim>\<open>Deserialize\<close> over the bytes from \<^verbatim>\<open>buffer + offset\<close> on.  The object
  is updated up to the point of an error.\<close>

fun deserialize_loop :: "nat \<Rightarrow> string \<Rightarrow> alphabet \<Rightarrow> int \<times> alphabet" where
  "deserialize_loop 0 buf al = (0, al)"
| "deserialize_loop (Suc n) buf al =
     (case buf of
        a # b # buf1 \<Rightarrow>
          let label = of_nat (un_le16 a b) in
          (case buf1 of
             c # d # buf2 \<Rightarrow>
               let val_len = un_le16 c d in
               if length buf2 < val_len then (1, al)
               else
                 let val = take val_len buf2;
                     al = al\<lparr>label_to_str := (label_to_str al)(label \<mapsto> val),
                             str_to_label := (str_to_label al)(val \<mapsto> label)\<rparr>;
                     al = (if val = '' '' then al\<lparr>space_label := label\<rparr> else al)
                 in deserialize_loop n (drop val_len buf2) al
           | _ \<Rightarrow> (1, al))
      | _ \<Rightarrow> (1, al))"

definition Deserialize :: "string \<Rightarrow> alphabet \<Rightarrow> int \<times> alphabet" where
  "Deserialize buffer al =
     (case buffer of
        a # b # buf \<Rightarrow>
          let size = un_le16 a b in deserialize_loop size buf (al\<lparr>asize := size\<rparr>)
      | _ \<Rightarrow> (1, al))"

subsection \<open>Queries and conversions\<close>

definition GetSize :: "alphabet \<Rightarrow> nat" where
  "GetSize a = asize a"

definition IsSpace :: "alphabet \<Rightarrow> u32 \<Rightarrow> bool" where
  "IsSpace a label \<longleftrightarrow> label = space_label a"

definition GetSpaceLabel :: "alphabet \<Rightarrow> u32" where
  "GetSpaceLabel a = space_label a"

definition CanEncodeSingle :: "alphabet \<Rightarrow> string \<Rightarrow> bool" where
  "CanEncodeSingle a input \<longleftrightarrow> str_to_label a input \<noteq> None"

definition CanEncode :: "alphabet \<Rightarrow> string \<Rightarrow> bool" where
  "CanEncode a input \<longleftrightarrow> list_all (CanEncodeSingle a) (split_into_codepoints input)"

definition DecodeSingle :: "alphabet \<Rightarrow> u32 \<Rightarrow> string option" where
  "DecodeSingle a label = label_to_str a label"

definition EncodeSingle :: "alphabet \<Rightarrow> string \<Rightarrow> u32 option" where
  "EncodeSingle a string = str_to_label a string"

definition Decode :: "alphabet \<Rightarrow> u32 list \<Rightarrow> string option" where
  "Decode a input = mfold (\<lambda>ind word. do { s \<leftarrow> DecodeSingle a ind; Some (word @ s) }) input []"

text \<open>The overload for a C array and its length.\<close>

definition Decode_array :: "alphabet \<Rightarrow> u32 list \<Rightarrow> nat \<Rightarrow> string option" where
  "Decode_array a input len =
     mfold (\<lambda>i word. do { ind \<leftarrow> nth_opt input i; s \<leftarrow> DecodeSingle a ind; Some (word @ s) }) [0..<len] []"

definition Encode :: "alphabet \<Rightarrow> string \<Rightarrow> u32 list option" where
  "Encode a input =
     mfold (\<lambda>cp result. do { l \<leftarrow> EncodeSingle a cp; Some (result @ [l]) }) (split_into_codepoints input) []"

subsection \<open>The byte alphabet\<close>

text \<open>The constructor of \<^verbatim>\<open>UTF8Alphabet\<close>; the base object starts with empty tables.\<close>

definition UTF8Alphabet :: alphabet where
  "UTF8Alphabet =
     fold (\<lambda>i a. let val = [char_of (i + 1)] in
             a\<lparr>label_to_str := (label_to_str a)(of_nat i \<mapsto> val),
               str_to_label := (str_to_label a)(val \<mapsto> of_nat i)\<rparr>)
       [0..<255]
       \<lparr>asize = 255, space_label = 31, label_to_str = Map.empty, str_to_label = Map.empty\<rparr>"

definition UTF8_init :: "string option \<Rightarrow> alphabet \<Rightarrow> int \<times> alphabet" where
  "UTF8_init file a = (0, a)"

definition UTF8_CanEncodeSingle :: "alphabet \<Rightarrow> string \<Rightarrow> bool" where
  "UTF8_CanEncodeSingle a input = True"

definition UTF8_CanEncode :: "alphabet \<Rightarrow> string \<Rightarrow> bool" where
  "UTF8_CanEncode a input = True"

definition UTF8_Encode :: "alphabet \<Rightarrow> string \<Rightarrow> u32 list option" where
  "UTF8_Encode a input =
     mfold (\<lambda>byte_char result. do { l \<leftarrow> EncodeSingle a [byte_char]; Some (result @ [l]) }) input []"

section \<open>Conversions\<close>

text \<open>What the two alphabets promise to their clients: a string has a label only if the label
  decodes to it, and a transcript is cut into units that concatenate to it.\<close>

locale label_codec =
  fixes wf :: "'a \<Rightarrow> bool"
    and enc1 :: "'a \<Rightarrow> string \<Rightarrow> u32 option"
    and dec1 :: "'a \<Rightarrow> u32 \<Rightarrow> string option"
    and units :: "string \<Rightarrow> string list"
  assumes dec1_enc1: "wf a \<Longrightarrow> enc1 a s = Some l \<Longrightarrow> dec1 a l = Some s"
    and concat_units: "concat (units s) = s"
begin

lemma decode_encode_units:
  assumes "wf a"
    and "mfold (\<lambda>cp result. Option.bind (enc1 a cp) (\<lambda>l. Some (result @ [l]))) us ls0 = Some ls"
    and "mfold (\<lambda>ind word. Option.bind (dec1 a ind) (\<lambda>s. Some (word @ s))) ls0 w0 = Some w"
  shows "mfold (\<lambda>ind word. Option.bind (dec1 a ind) (\<lambda>s. Some (word @ s))) ls w0 = Some (w @ concat us)"
  using assms(2,3)
proof (induction us arbitrary: ls0 w)
  case Nil
  then show ?case by simp
next
  case (Cons u us)
  then obtain l where l: "enc1 a u = Some l"
    "mfold (\<lambda>cp result. Option.bind (enc1 a cp) (\<lambda>l. Some (result @ [l]))) us (ls0 @ [l]) = Some ls"
    by (auto split: Option.bind_splits)
  have "mfold (\<lambda>ind word. Option.bind (dec1 a ind) (\<lambda>s. Some (word @ s))) (ls0 @ [l]) w0 = Some (w @ u)"
    using Cons.prems(2) dec1_enc1 [OF assms(1) l(1)] by (simp add: mfold_append)
  from Cons.IH [OF l(2) this] show ?case by simp
qed

lemma decode_encode:
  assumes "wf a"
    and "mfold (\<lambda>cp result. Option.bind (enc1 a cp) (\<lambda>l. Some (result @ [l]))) (units s) [] = Some ls"
  shows "mfold (\<lambda>ind word. Option.bind (dec1 a ind) (\<lambda>s. Some (word @ s))) ls [] = Some s"
  using decode_encode_units [OF assms, of "[]" "[]"] by (simp add: concat_units)

lemma encode_total_units:
  "list_all (\<lambda>u. enc1 a u \<noteq> None) us \<Longrightarrow>
     \<exists>ls. mfold (\<lambda>cp result. Option.bind (enc1 a cp) (\<lambda>l. Some (result @ [l]))) us ls0 = Some ls"
  by (induction us arbitrary: ls0) auto

end

text \<open>The tables agree: a string's label decodes back to the string, and every string of the
  table has a label.\<close>

definition alphabet_consistent :: "alphabet \<Rightarrow> bool" where
  "alphabet_consistent a \<longleftrightarrow>
     (\<forall>s l. str_to_label a s = Some l \<longrightarrow> label_to_str a l = Some s) \<and>
     (\<forall>s l. label_to_str a l = Some s \<longrightarrow> str_to_label a s \<noteq> None)"

lemma concat_split_into_codepoints: "concat (split_into_codepoints s) = s"
proof -
  obtain r t where rt: "split_into_codepoints_loop s [] [] = (r, t)" by fastforce
  with codepoints_loop_concat [OF rt] show ?thesis by (simp add: split_into_codepoints_def)
qed

interpretation text_codec: label_codec alphabet_consistent EncodeSingle DecodeSingle split_into_codepoints
  by unfold_locales
    (auto simp: alphabet_consistent_def EncodeSingle_def DecodeSingle_def concat_split_into_codepoints)

interpretation byte_codec: label_codec alphabet_consistent EncodeSingle DecodeSingle split_into_bytes
  by unfold_locales
    (auto simp: alphabet_consistent_def EncodeSingle_def DecodeSingle_def split_into_bytes_eq)

text \<open>
  C35: in a consistent alphabet, a string that \<^verbatim>\<open>CanEncode\<close> accepts is encoded without
  aborting, and decoding its labels gives the string back.
\<close>

theorem decode_encode_roundtrip:
  assumes "alphabet_consistent a" and "CanEncode a s"
  shows "\<exists>ls. Encode a s = Some ls \<and> Decode a ls = Some s"
proof -
  have "list_all (\<lambda>u. EncodeSingle a u \<noteq> None) (split_into_codepoints s)"
    using assms(2) by (simp add: CanEncode_def CanEncodeSingle_def EncodeSingle_def list_all_iff)
  from text_codec.encode_total_units [OF this, of "[]"]
  obtain ls where "Encode a s = Some ls" by (auto simp: Encode_def)
  with text_codec.decode_encode [OF assms(1)] show ?thesis
    by (auto simp: Encode_def Decode_def)
qed

definition ab_alphabet :: alphabet where
  "ab_alphabet = \<lparr>asize = 2, space_label = - 2,
     label_to_str = [0 \<mapsto> ''a'', 1 \<mapsto> ''b''], str_to_label = [''a'' \<mapsto> 0, ''b'' \<mapsto> 1]\<rparr>"

lemma ab_alphabet_consistent: "alphabet_consistent ab_alphabet"
  by (auto simp: alphabet_consistent_def ab_alphabet_def split: if_splits)

theorem decode_encode_roundtrip_witness:
  "\<exists>ls. Encode ab_alphabet ''ba'' = Some ls \<and> Decode ab_alphabet ls = Some ''ba''"
  by (rule decode_encode_roundtrip [OF ab_alphabet_consistent]) code_simp

text \<open>The empty string is one empty unit, which no alphabet with non-empty strings has a
  label for: it cannot be encoded, although it needs no label.\<close>

lemma empty_string_not_encodable:
  assumes "str_to_label a [] = None"
  shows "\<not> CanEncode a []" and "Encode a [] = None"
  using assms by (simp_all add: CanEncode_def Encode_def split_into_codepoints_def CanEncodeSingle_def EncodeSingle_def)

subsection \<open>The byte alphabet\<close>

definition utf8_add :: "nat \<Rightarrow> alphabet \<Rightarrow> alphabet" where
  "utf8_add i a = (let val = [char_of (i + 1)] in
     a\<lparr>label_to_str := (label_to_str a)(of_nat i \<mapsto> val), str_to_label := (str_to_label a)(val \<mapsto> of_nat i)\<rparr>)"

lemma UTF8Alphabet_eq:
  "UTF8Alphabet = fold utf8_add [0..<255] \<lparr>asize = 255, space_label = 31, label_to_str = Map.empty, str_to_label = Map.empty\<rparr>"
  unfolding UTF8Alphabet_def utf8_add_def ..

lemma utf8_fold_label:
  "n \<le> 255 \<Longrightarrow> label_to_str a = Map.empty \<Longrightarrow>
     label_to_str (fold utf8_add [0..<n] a) l = (if unat l < n then Some [char_of (unat l + 1)] else None)"
  by (induction n) (auto simp: utf8_add_def Let_def u32_eq_of_nat_iff)

lemma utf8_fold_str:
  "n \<le> 255 \<Longrightarrow> str_to_label a = Map.empty \<Longrightarrow>
     str_to_label (fold utf8_add [0..<n] a) s = (case s of [c] \<Rightarrow>
       (if 0 < (of_char c :: nat) \<and> (of_char c :: nat) \<le> n then Some (of_nat (of_char c - 1)) else None) | _ \<Rightarrow> None)"
proof (induction n)
  case 0
  then show ?case by (auto split: list.split)
next
  case (Suc n)
  then show ?case
    by (auto simp: utf8_add_def Let_def char_eq_char_of_iff split: list.split)
qed

lemma UTF8_DecodeSingle:
  "DecodeSingle UTF8Alphabet l = (if unat l < 255 then Some [char_of (unat l + 1)] else None)"
  by (simp add: DecodeSingle_def UTF8Alphabet_eq utf8_fold_label)

lemma UTF8_EncodeSingle:
  "EncodeSingle UTF8Alphabet [c] = (if c = CHR 0x00 then None else Some (of_nat (of_char c - 1)))"
proof -
  have "(of_char c :: nat) \<le> 255" using nat_of_char_less_256 [of c] by linarith
  moreover have "0 < (of_char c :: nat) \<longleftrightarrow> c \<noteq> CHR 0x00"
    by (cases c) (auto simp: of_char_def)
  ultimately show ?thesis
    by (simp add: EncodeSingle_def UTF8Alphabet_eq utf8_fold_str)
qed

lemma UTF8Alphabet_consistent: "alphabet_consistent UTF8Alphabet"
proof -
  have dec: "DecodeSingle UTF8Alphabet l = Some s" if "str_to_label UTF8Alphabet s = Some l" for s l
  proof -
    from that obtain c where c: "s = [c]" "0 < (of_char c :: nat)" "l = of_nat (of_char c - 1)"
      by (auto simp: UTF8Alphabet_eq utf8_fold_str split: list.splits if_splits)
    then obtain k where k: "(of_char c :: nat) = Suc k" by (cases "of_char c :: nat") auto
    then have "k < 255" using nat_of_char_less_256 [of c] by linarith
    then have "unat l = k" using c(3) k by (simp add: k del: of_nat_diff)
    moreover have "c = char_of (Suc k)" using char_eq_char_of_iff [of "Suc k" c] k \<open>k < 255\<close> by simp
    ultimately show ?thesis using c(1) \<open>k < 255\<close> by (simp add: UTF8_DecodeSingle)
  qed
  have enc: "str_to_label UTF8Alphabet s \<noteq> None" if "label_to_str UTF8Alphabet l = Some s" for s l
    using that by (auto simp: UTF8Alphabet_eq utf8_fold_label utf8_fold_str split: if_splits)
  from dec enc show ?thesis by (simp add: alphabet_consistent_def DecodeSingle_def)
qed

text \<open>
  The byte alphabet encodes every string without a zero byte, one label per byte, and
  decodes the labels to the same string; a zero byte aborts, although \<^verbatim>\<open>CanEncode\<close> says
  every string can be encoded.
\<close>

lemma utf8_roundtrip:
  "(if CHR 0x00 \<notin> set s
    then \<exists>ls. UTF8_Encode UTF8Alphabet s = Some ls \<and> length ls = length s \<and> Decode UTF8Alphabet ls = Some s
    else UTF8_CanEncode UTF8Alphabet s \<and> UTF8_Encode UTF8Alphabet s = None)"
proof -
  let ?push = "\<lambda>cp result. Option.bind (EncodeSingle UTF8Alphabet cp) (\<lambda>l. Some (result @ [l]))"
  have enc: "UTF8_Encode UTF8Alphabet s = mfold ?push (split_into_bytes s) []" for s
  proof -
    have "mfold (\<lambda>c. ?push [c]) s r = mfold ?push (map (\<lambda>c. [c]) s) r" for r
      by (induction s arbitrary: r) (auto split: Option.bind_split)
    then show ?thesis by (simp add: UTF8_Encode_def split_into_bytes_eq)
  qed
  show ?thesis
  proof (cases "CHR 0x00 \<in> set s")
    case True
    then obtain p q where "s = p @ CHR 0x00 # q" by (meson split_list)
    then have "UTF8_Encode UTF8Alphabet s = None"
      by (simp add: UTF8_Encode_def mfold_append UTF8_EncodeSingle split: Option.bind_split)
    with True show ?thesis by (simp add: UTF8_CanEncode_def)
  next
    case False
    then have "list_all (\<lambda>u. EncodeSingle UTF8Alphabet u \<noteq> None) (split_into_bytes s)"
      by (auto simp: list_all_iff split_into_bytes_eq UTF8_EncodeSingle)
    from byte_codec.encode_total_units [OF this, of "[]"]
    obtain ls where ls: "UTF8_Encode UTF8Alphabet s = Some ls" by (auto simp: enc)
    have "mfold ?push us r = Some t \<Longrightarrow> length t = length r + length us" for us r t
      by (induction us arbitrary: r) (auto split: Option.bind_splits)
    from this [of "split_into_bytes s" "[]" ls] ls have "length ls = length s"
      by (simp add: enc split_into_bytes_eq)
    moreover have "Decode UTF8Alphabet ls = Some s"
      using byte_codec.decode_encode [OF UTF8Alphabet_consistent, of s ls] ls by (simp add: enc Decode_def)
    ultimately show ?thesis using ls False by simp
  qed
qed

section \<open>The text format\<close>

text \<open>The reference reading of an alphabet file: unify the line ends, cut into lines, drop
  empty lines and comments, unescape the hash sign.\<close>

fun unify_newlines :: "string \<Rightarrow> string" where
  "unify_newlines [] = []"
| "unify_newlines (c # cs) =
     (if c = CHR 0x0D then
        CHR 0x0A # (case cs of [] \<Rightarrow> [] | d # ds \<Rightarrow> if d = CHR 0x0A then unify_newlines ds else unify_newlines cs)
      else c # unify_newlines cs)"

definition line_entry :: "string \<Rightarrow> string option" where
  "line_entry line =
     (if line = [CHR 0x5C, CHR ''#''] then Some ''#''
      else if line = [] \<or> hd line = CHR ''#'' then None else Some line)"

definition entries :: "string \<Rightarrow> string list" where
  "entries bytes = List.map_filter line_entry (split_on (CHR 0x0A) (unify_newlines bytes))"

definition add_entry :: "string \<Rightarrow> alphabet \<times> u32 \<Rightarrow> alphabet \<times> u32" where
  "add_entry e s = (let (a, label) = s in
     (a\<lparr>space_label := (if e = '' '' then label else space_label a),
        label_to_str := (label_to_str a)(label \<mapsto> e),
        str_to_label := (str_to_label a)(e \<mapsto> label)\<rparr>, label + 1))"

lemma init_line_entry: "init_line line s = (case line_entry line of None \<Rightarrow> s | Some e \<Rightarrow> add_entry e s)"
proof -
  have "(length line = 2 \<and> line ! 0 = CHR 0x5C \<and> line ! 1 = CHR ''#'') \<longleftrightarrow> line = [CHR 0x5C, CHR ''#'']"
    by (auto simp: length_Suc_conv numeral_2_eq_2)
  then show ?thesis
    by (cases s; cases line) (auto simp: init_line_def line_entry_def add_entry_def Let_def)
qed

lemma getline_loop_unify:
  "getline_loop cs t = (u, bytes, e) \<Longrightarrow> \<exists>p. u = t @ p \<and> CHR 0x0A \<notin> set p \<and>
     (if e then unify_newlines cs = p \<and> bytes = []
      else unify_newlines cs = p @ CHR 0x0A # unify_newlines bytes)"
proof (induction cs arbitrary: t)
  case Nil
  then show ?case by simp
next
  case (Cons c cs)
  consider "c = CHR 0x0A" | "c = CHR 0x0D" | "c \<noteq> CHR 0x0A" "c \<noteq> CHR 0x0D" by blast
  then show ?case
  proof cases
    case 1
    with Cons.prems show ?thesis by simp
  next
    case 2
    with Cons.prems show ?thesis by (cases cs) (auto split: if_splits)
  next
    case 3
    with Cons.prems have "getline_loop cs (t @ [c]) = (u, bytes, e)" by simp
    from Cons.IH [OF this] obtain p where
      "u = t @ [c] @ p" "CHR 0x0A \<notin> set p"
      "if e then unify_newlines cs = p \<and> bytes = [] else unify_newlines cs = p @ CHR 0x0A # unify_newlines bytes"
      by auto
    with 3 show ?thesis by (intro exI [of _ "c # p"]) auto
  qed
qed

text \<open>From the end of the file on nothing more is added.\<close>

lemma init_loop_at_eof: "eofbit strm \<Longrightarrow> init_loop strm s = s"
  by (subst init_loop.simps)
    (auto simp: getline_crossplatform_def Let_def split: prod.splits)

lemma init_loop_entries:
  "\<not> eofbit strm \<Longrightarrow> \<not> failbit strm \<Longrightarrow> init_loop strm s = fold add_entry (entries (rest strm)) s"
proof (induction strm s rule: init_loop.induct)
  case (1 strm s)
  obtain u bytes e where g: "getline_loop (rest strm) [] = (u, bytes, e)" by (metis prod_cases3)
  from getline_loop_unify [OF g] have u: "CHR 0x0A \<notin> set u"
    "if e then unify_newlines (rest strm) = u \<and> bytes = []
     else unify_newlines (rest strm) = u @ CHR 0x0A # unify_newlines bytes"
    by auto
  let ?next = "strm\<lparr>rest := bytes, eofbit := (e \<and> u = [])\<rparr>"
  have gl: "getline_crossplatform strm = (u, ?next)"
    using "1.prems" g by (simp add: getline_crossplatform_def)
  have step: "init_loop strm s = init_loop ?next (init_line u s)"
    using gl "1.prems" by (subst init_loop.simps) simp
  have ent: "entries (rest strm) = (case line_entry u of None \<Rightarrow> [] | Some x \<Rightarrow> [x]) @ (if e then [] else entries bytes)"
    using u by (auto simp: entries_def split_on_delim split_on_no_delim List.map_filter_def split: option.split if_splits)
  show ?case
  proof (cases "e \<and> u = []")
    case True
    then have "init_loop ?next (init_line u s) = init_line u s" by (intro init_loop_at_eof) simp
    with True step ent show ?thesis by (simp add: init_line_entry line_entry_def)
  next
    case False
    then have "init_loop ?next (init_line u s) = fold add_entry (entries bytes) (init_line u s)"
      using "1.IH" [OF gl [symmetric] refl] "1.prems" by simp
    moreover have "e \<Longrightarrow> entries bytes = []"
      using u(2) by (simp add: entries_def List.map_filter_def line_entry_def)
    ultimately show ?thesis using step ent
      by (cases e) (auto simp: init_line_entry split: option.split)
  qed
qed

text \<open>The tables after a sequence of entries.\<close>

lemma fold_add_entry:
  assumes "label_to_str a = Map.empty" and "str_to_label a = Map.empty" and "length es < 2 ^ 32"
  shows "\<exists>a'. fold add_entry es (a, 0) = (a', of_nat (length es))
    \<and> (\<forall>l. label_to_str a' l = (if unat l < length es then Some (es ! unat l) else None))
    \<and> (\<forall>s l. str_to_label a' s = Some l \<longrightarrow> unat l < length es \<and> es ! unat l = s)
    \<and> (\<forall>s\<in>set es. str_to_label a' s \<noteq> None)
    \<and> (if '' '' \<in> set es then str_to_label a' '' '' = Some (space_label a') else space_label a' = space_label a)"
  using assms(3)
proof (induction es rule: rev_induct)
  case Nil
  then show ?case using assms(1,2) by simp
next
  case (snoc e es)
  then obtain a' where IH: "fold add_entry es (a, 0) = (a', of_nat (length es))"
    "\<forall>l. label_to_str a' l = (if unat l < length es then Some (es ! unat l) else None)"
    "\<forall>s l. str_to_label a' s = Some l \<longrightarrow> unat l < length es \<and> es ! unat l = s"
    "\<forall>s\<in>set es. str_to_label a' s \<noteq> None"
    "if '' '' \<in> set es then str_to_label a' '' '' = Some (space_label a') else space_label a' = space_label a"
    by auto
  let ?n = "of_nat (length es) :: u32"
  let ?a = "a'\<lparr>space_label := (if e = '' '' then ?n else space_label a'),
     label_to_str := (label_to_str a')(?n \<mapsto> e), str_to_label := (str_to_label a')(e \<mapsto> ?n)\<rparr>"
  have n: "unat ?n = length es" using snoc.prems by simp
  have "fold add_entry (es @ [e]) (a, 0) = (?a, of_nat (length (es @ [e])))"
    using IH(1) by (simp add: add_entry_def add.commute)
  moreover have "label_to_str ?a l = (if unat l < length (es @ [e]) then Some ((es @ [e]) ! unat l) else None)" for l
    using IH(2) u32_eq_of_nat_iff [of "length es" l] snoc.prems by (auto simp: nth_append less_Suc_eq)
  moreover have "str_to_label ?a s = Some l \<Longrightarrow> unat l < length (es @ [e]) \<and> (es @ [e]) ! unat l = s" for s l
    using IH(3) n by (auto simp: nth_append less_Suc_eq split: if_splits)
  moreover have "\<forall>s\<in>set (es @ [e]). str_to_label ?a s \<noteq> None" using IH(4) by auto
  moreover have "if '' '' \<in> set (es @ [e]) then str_to_label ?a '' '' = Some (space_label ?a) else space_label ?a = space_label a"
    using IH(5) by auto
  ultimately show ?case by blast
qed

text \<open>
  C34: loading an alphabet file into a fresh object always returns.  The labels number the
  lines of the file (any newline convention) that are neither empty nor comments, with
  \<open>\#\<close> standing for a hash sign, in order; the two tables agree; and the space label is
  the label of the line holding one space, or -2 when there is none.
\<close>

theorem Alphabet_init_correct:
  assumes "label_to_str a = Map.empty" and "str_to_label a = Map.empty" and "length (entries bytes) < 2 ^ 32"
  shows "\<exists>a'. Alphabet_init (Some bytes) a = (0, a') \<and> alphabet_consistent a'
    \<and> GetSize a' = length (entries bytes)
    \<and> (\<forall>l. DecodeSingle a' l = (if unat l < length (entries bytes) then Some (entries bytes ! unat l) else None))
    \<and> (if '' '' \<in> set (entries bytes) then DecodeSingle a' (GetSpaceLabel a') = Some '' '' else GetSpaceLabel a' = - 2)"
proof -
  let ?es = "entries bytes"
  obtain a' where a': "fold add_entry ?es (a\<lparr>space_label := - 2\<rparr>, 0) = (a', of_nat (length ?es))"
    "\<forall>l. label_to_str a' l = (if unat l < length ?es then Some (?es ! unat l) else None)"
    "\<forall>s l. str_to_label a' s = Some l \<longrightarrow> unat l < length ?es \<and> ?es ! unat l = s"
    "\<forall>s\<in>set ?es. str_to_label a' s \<noteq> None"
    "if '' '' \<in> set ?es then str_to_label a' '' '' = Some (space_label a') else space_label a' = - 2"
    using fold_add_entry [of "a\<lparr>space_label := - 2\<rparr>" ?es] assms by auto
  let ?a = "a'\<lparr>asize := length ?es\<rparr>"
  have "Alphabet_init (Some bytes) a = (0, ?a)"
    using a'(1) assms(3) by (simp add: Alphabet_init_def init_loop_entries)
  moreover have "alphabet_consistent ?a"
    using a'(2-4) by (auto simp: alphabet_consistent_def)
  moreover have "GetSize ?a = length ?es" by (simp add: GetSize_def)
  moreover have "DecodeSingle ?a l = (if unat l < length ?es then Some (?es ! unat l) else None)" for l
    using a'(2) by (simp add: DecodeSingle_def)
  moreover have "if '' '' \<in> set ?es then DecodeSingle ?a (GetSpaceLabel ?a) = Some '' '' else GetSpaceLabel ?a = - 2"
    using a'(2,3,5) by (auto simp: DecodeSingle_def GetSpaceLabel_def)
  ultimately show ?thesis by blast
qed

theorem Alphabet_init_correct_witness:
  "\<exists>a'. Alphabet_init (Some ''a'') (ab_alphabet\<lparr>label_to_str := Map.empty, str_to_label := Map.empty\<rparr>) = (0, a')
    \<and> alphabet_consistent a' \<and> GetSize a' = length (entries ''a'')
    \<and> (\<forall>l. DecodeSingle a' l = (if unat l < length (entries ''a'') then Some (entries ''a'' ! unat l) else None))
    \<and> (if '' '' \<in> set (entries ''a'') then DecodeSingle a' (GetSpaceLabel a') = Some '' '' else GetSpaceLabel a' = - 2)"
  by (rule Alphabet_init_correct) (simp_all add: entries_def List.map_filter_def line_entry_def)

section \<open>The binary format\<close>

definition put_entry :: "alphabet \<Rightarrow> u32 \<Rightarrow> alphabet \<Rightarrow> alphabet" where
  "put_entry a key al =
     (let val = the (label_to_str a key);
          al = al\<lparr>label_to_str := (label_to_str al)(key \<mapsto> val), str_to_label := (str_to_label al)(val \<mapsto> key)\<rparr>
      in if val = '' '' then al\<lparr>space_label := key\<rparr> else al)"

definition entry_bytes :: "alphabet \<Rightarrow> u32 \<Rightarrow> string" where
  "entry_bytes a key =
     (let str = the (label_to_str a key); len = length str mod 65536
      in le16 (unat key) @ le16 len @ take len str)"

text \<open>Every key and every string length fits the 16-bit fields of the format.\<close>

definition serializable :: "alphabet \<Rightarrow> u32 list \<Rightarrow> bool" where
  "serializable a order \<longleftrightarrow>
     distinct order \<and> set order = dom (label_to_str a) \<and> asize a = length order \<and> length order < 65536 \<and>
     (\<forall>key\<in>set order. unat key < 65536 \<and> length (the (label_to_str a key)) < 65536)"

lemma deserialize_loop_entries:
  assumes "\<forall>key\<in>set keys. unat key < 65536 \<and> length (the (label_to_str a key)) < 65536"
  shows "deserialize_loop (length keys) (concat (map (entry_bytes a) keys)) al = (0, fold (put_entry a) keys al)"
  using assms
proof (induction keys arbitrary: al)
  case Nil
  then show ?case by simp
next
  case (Cons key keys)
  let ?v = "the (label_to_str a key)"
  show ?case
    using Cons by (simp add: entry_bytes_def le16_def put_entry_def Let_def)
qed

lemma fold_put_entry:
  assumes "distinct keys" and "set keys \<subseteq> dom (label_to_str a)"
    and "label_to_str al = Map.empty" and "str_to_label al = Map.empty"
  defines "al' \<equiv> fold (put_entry a) keys al"
  shows "label_to_str al' = label_to_str a |` set keys"
    and "\<forall>s l. str_to_label al' s = Some l \<longrightarrow> l \<in> set keys \<and> label_to_str a l = Some s"
    and "\<forall>l\<in>set keys. str_to_label al' (the (label_to_str a l)) \<noteq> None"
    and "asize al' = asize al"
    and "if \<exists>l\<in>set keys. label_to_str a l = Some '' '' then label_to_str a (space_label al') = Some '' ''
         else space_label al' = space_label al"
proof -
  have "label_to_str al' = label_to_str a |` set keys
    \<and> (\<forall>s l. str_to_label al' s = Some l \<longrightarrow> l \<in> set keys \<and> label_to_str a l = Some s)
    \<and> (\<forall>l\<in>set keys. str_to_label al' (the (label_to_str a l)) \<noteq> None)
    \<and> asize al' = asize al
    \<and> (if \<exists>l\<in>set keys. label_to_str a l = Some '' '' then label_to_str a (space_label al') = Some '' ''
         else space_label al' = space_label al)"
    using assms(1,2) unfolding al'_def
  proof (induction keys rule: rev_induct)
    case Nil
    then show ?case using assms(3,4) by (simp add: restrict_map_def fun_eq_iff)
  next
    case (snoc k keys)
    then obtain v where v: "label_to_str a k = Some v" by auto
    let ?b = "fold (put_entry a) keys al"
    have IH: "label_to_str ?b = label_to_str a |` set keys"
      "\<And>s l. str_to_label ?b s = Some l \<Longrightarrow> l \<in> set keys \<and> label_to_str a l = Some s"
      "\<And>l. l \<in> set keys \<Longrightarrow> str_to_label ?b (the (label_to_str a l)) \<noteq> None" "asize ?b = asize al"
      "if \<exists>l\<in>set keys. label_to_str a l = Some '' '' then label_to_str a (space_label ?b) = Some '' ''
       else space_label ?b = space_label al"
      using snoc by auto
    have b: "fold (put_entry a) (keys @ [k]) al =
      ?b\<lparr>label_to_str := (label_to_str ?b)(k \<mapsto> v), str_to_label := (str_to_label ?b)(v \<mapsto> k),
         space_label := (if v = '' '' then k else space_label ?b)\<rparr>"
      using v by (simp add: put_entry_def Let_def)
    have "(label_to_str ?b)(k \<mapsto> v) = label_to_str a |` set (keys @ [k])"
      using IH(1) v by (auto simp: restrict_map_def fun_eq_iff)
    moreover have "((str_to_label ?b)(v \<mapsto> k)) s = Some l \<Longrightarrow> l \<in> set (keys @ [k]) \<and> label_to_str a l = Some s" for s l
      using IH(2) v by (auto split: if_splits)
    moreover have "\<forall>l\<in>set (keys @ [k]). ((str_to_label ?b)(v \<mapsto> k)) (the (label_to_str a l)) \<noteq> None"
      using IH(3) v by auto
    moreover have "if \<exists>l\<in>set (keys @ [k]). label_to_str a l = Some '' ''
       then label_to_str a (if v = '' '' then k else space_label ?b) = Some '' ''
       else (if v = '' '' then k else space_label ?b) = space_label al"
      using IH(5) v by (auto split: if_splits)
    ultimately show ?case unfolding b using IH(4) by auto
  qed
  then show "label_to_str al' = label_to_str a |` set keys"
    and "\<forall>s l. str_to_label al' s = Some l \<longrightarrow> l \<in> set keys \<and> label_to_str a l = Some s"
    and "\<forall>l\<in>set keys. str_to_label al' (the (label_to_str a l)) \<noteq> None"
    and "asize al' = asize al"
    and "if \<exists>l\<in>set keys. label_to_str a l = Some '' '' then label_to_str a (space_label al') = Some '' ''
         else space_label al' = space_label al"
    by blast+
qed

text \<open>
  C32: an alphabet written by \<^verbatim>\<open>Serialize\<close>, in whatever order the hash table is walked, is
  read back by \<^verbatim>\<open>Deserialize\<close> into a fresh object without error: same size, same labels,
  agreeing tables, and the label of the space.  When no label is a space, \<open>space_label\<close> is
  left as it was, so in a fresh C++ object it stays uninitialised.
\<close>

theorem serialize_roundtrip:
  assumes "serializable a order" and "label_to_str a0 = Map.empty" and "str_to_label a0 = Map.empty"
  shows "\<exists>a'. Deserialize (Serialize order a) a0 = (0, a') \<and> GetSize a' = GetSize a
    \<and> label_to_str a' = label_to_str a \<and> alphabet_consistent a'
    \<and> (if \<exists>l. label_to_str a l = Some '' '' then DecodeSingle a' (GetSpaceLabel a') = Some '' ''
       else GetSpaceLabel a' = GetSpaceLabel a0)"
proof -
  have ser: "distinct order" "set order = dom (label_to_str a)" "asize a = length order" "length order < 65536"
    "\<forall>key\<in>set order. unat key < 65536 \<and> length (the (label_to_str a key)) < 65536"
    using assms(1) by (simp_all add: serializable_def)
  let ?al = "a0\<lparr>asize := length order\<rparr>"
  let ?a = "fold (put_entry a) order ?al"
  have "Serialize order a = le16 (length order) @ concat (map (entry_bytes a) order)"
    using ser(3) unfolding Serialize_def entry_bytes_def by simp
  then have des: "Deserialize (Serialize order a) a0 = (0, ?a)"
    using deserialize_loop_entries [OF ser(5)] ser(4) by (simp add: Deserialize_def le16_def Let_def)
  have "set order \<subseteq> dom (label_to_str a)" "label_to_str ?al = Map.empty" "str_to_label ?al = Map.empty"
    using ser(2) assms(2,3) by simp_all
  note f = fold_put_entry [OF ser(1) this, unfolded ser(2)]
  have l2s: "label_to_str ?a = label_to_str a"
    using f(1) by (auto simp: restrict_map_def fun_eq_iff dom_def)
  have "alphabet_consistent ?a"
    unfolding alphabet_consistent_def l2s using f(2,3) by force
  moreover have "GetSize ?a = GetSize a" using f(4) ser(3) by (simp add: GetSize_def)
  moreover have "if \<exists>l. label_to_str a l = Some '' '' then DecodeSingle ?a (GetSpaceLabel ?a) = Some '' ''
       else GetSpaceLabel ?a = GetSpaceLabel a0"
    using f(5) by (auto simp: DecodeSingle_def GetSpaceLabel_def l2s split: if_splits)
  ultimately show ?thesis using des l2s by blast
qed

theorem serialize_roundtrip_witness:
  "\<exists>a'. Deserialize (Serialize [1, 0] ab_alphabet) (ab_alphabet\<lparr>label_to_str := Map.empty, str_to_label := Map.empty\<rparr>) = (0, a')
    \<and> GetSize a' = GetSize ab_alphabet \<and> label_to_str a' = label_to_str ab_alphabet \<and> alphabet_consistent a'
    \<and> (if \<exists>l. label_to_str ab_alphabet l = Some '' '' then DecodeSingle a' (GetSpaceLabel a') = Some '' ''
       else GetSpaceLabel a' = GetSpaceLabel (ab_alphabet\<lparr>label_to_str := Map.empty, str_to_label := Map.empty\<rparr>))"
  by (rule serialize_roundtrip) (auto simp: serializable_def ab_alphabet_def)

end
