(* ===== verification/Fst_Matcher.thy ===== *)
theory Fst_Matcher
  imports Prelude
begin

text \<open>
  The part of OpenFst (\<^verbatim>\<open>ctcdecode/third_party/openfst-1.6.7\<close>) that the decoder calls
  while it searches: a read-only automaton (\<^verbatim>\<open>ConstFst<StdArc>\<close>) and the sorted matcher
  on its input labels (\<^verbatim>\<open>SortedMatcher\<close> with \<^verbatim>\<open>MATCH_INPUT\<close>).  A state is final when
  its weight differs from the semiring zero.  Arc weights are not read by the decoder.
\<close>

record arc =
  ilabel :: int
  nextstate :: int

record const_fst =
  fst_start :: int
  fst_final :: "int \<Rightarrow> bool"
  fst_arcs :: "int \<Rightarrow> arc list"

text \<open>The loop of \<^verbatim>\<open>BinarySearch\<close>; its result is the final \<open>low\<close>.\<close>

function binary_search_loop :: "arc list \<Rightarrow> int \<Rightarrow> nat \<Rightarrow> nat \<Rightarrow> nat" where
  "binary_search_loop arcs match_label low high =
     (if low < high then
        let mid = low + (high - low) div 2 in
        if ilabel (arcs ! mid) < match_label then binary_search_loop arcs match_label (mid + 1) high
        else binary_search_loop arcs match_label low mid
      else low)"
  by pat_completeness auto
termination by (relation "measure (\<lambda>(arcs, l, low, high). high - low)") auto

declare binary_search_loop.simps [simp del]

text \<open>The searches return the position of the arc iterator when they find the label.\<close>

definition BinarySearch :: "arc list \<Rightarrow> int \<Rightarrow> nat option" where
  "BinarySearch arcs match_label =
     (let low = binary_search_loop arcs match_label 0 (length arcs) in
      if low < length arcs \<and> ilabel (arcs ! low) = match_label then Some low else None)"

fun linear_search_loop :: "arc list \<Rightarrow> int \<Rightarrow> nat \<Rightarrow> nat option" where
  "linear_search_loop [] match_label pos = None"
| "linear_search_loop (a # arcs) match_label pos =
     (if ilabel a = match_label then Some pos
      else if match_label < ilabel a then None
      else linear_search_loop arcs match_label (pos + 1))"

definition LinearSearch :: "arc list \<Rightarrow> int \<Rightarrow> nat option" where
  "LinearSearch arcs match_label = linear_search_loop arcs match_label 0"

text \<open>\<open>binary_label_\<close> has its default, 1.\<close>

definition Search :: "arc list \<Rightarrow> int \<Rightarrow> nat option" where
  "Search arcs match_label =
     (if 1 \<le> match_label then BinarySearch arcs match_label else LinearSearch arcs match_label)"

text \<open>\<^verbatim>\<open>SetState(s)\<close>, \<^verbatim>\<open>Find(match_label)\<close> and, when it succeeds, the next state of
  \<^verbatim>\<open>Value()\<close>.  Label 0 always matches the implicit self-loop.\<close>

definition matcher_Find :: "const_fst \<Rightarrow> int \<Rightarrow> int \<Rightarrow> int option" where
  "matcher_Find d s match_label =
     (if match_label = 0 then Some s
      else
        let arcs = fst_arcs d s in
        map_option (\<lambda>pos. nextstate (arcs ! pos)) (Search arcs (if match_label = -1 then 0 else match_label)))"

section \<open>The binary search finds what the linear search finds\<close>

definition arcs_sorted :: "arc list \<Rightarrow> bool" where
  "arcs_sorted arcs \<longleftrightarrow> sorted (map ilabel arcs)"

text \<open>The loop ends at the lower bound: everything before it is smaller, everything from it
  on is not.\<close>

lemma binary_search_loop_bound:
  assumes "arcs_sorted arcs" and "low \<le> high" and "high \<le> length arcs"
    and "\<forall>i<low. ilabel (arcs ! i) < l" and "\<forall>i. high \<le> i \<and> i < length arcs \<longrightarrow> l \<le> ilabel (arcs ! i)"
  shows "binary_search_loop arcs l low high \<le> length arcs
    \<and> (\<forall>i<binary_search_loop arcs l low high. ilabel (arcs ! i) < l)
    \<and> (\<forall>i. binary_search_loop arcs l low high \<le> i \<and> i < length arcs \<longrightarrow> l \<le> ilabel (arcs ! i))"
  using assms
proof (induction arcs l low high rule: binary_search_loop.induct)
  case (1 arcs l low high)
  have mono: "ilabel (arcs ! i) \<le> ilabel (arcs ! j)" if "i \<le> j" "j < length arcs" for i j
    using "1.prems"(1) that sorted_nth_mono [of "map ilabel arcs" i j] by (simp add: arcs_sorted_def)
  show ?case
  proof (cases "low < high")
    case False
    with "1.prems" show ?thesis by (subst (1 2 3) binary_search_loop.simps) simp
  next
    case True
    let ?mid = "low + (high - low) div 2"
    have mid: "low \<le> ?mid" "?mid < high" "?mid < length arcs" using True "1.prems"(3) by auto
    show ?thesis
    proof (cases "ilabel (arcs ! ?mid) < l")
      case less: True
      have "ilabel (arcs ! i) < l" if "i < ?mid + 1" for i
        using mono [OF _ mid(3), of i] that less by simp
      with "1.IH"(1) [OF True refl less] "1.prems" mid True less show ?thesis
        by (subst (1 2 3) binary_search_loop.simps) (simp add: Let_def)
    next
      case False
      have "\<forall>i. ?mid \<le> i \<and> i < length arcs \<longrightarrow> l \<le> ilabel (arcs ! i)"
        using mono [of ?mid] False by fastforce
      with "1.IH"(2) [OF True refl False] "1.prems" mid True False show ?thesis
        by (subst (1 2 3) binary_search_loop.simps) (simp add: Let_def)
    qed
  qed
qed

lemma linear_search_loop_spec:
  assumes "arcs_sorted arcs"
  shows "linear_search_loop arcs l pos =
    (case filter (\<lambda>i. ilabel (arcs ! i) = l) [0..<length arcs] of [] \<Rightarrow> None | i # _ \<Rightarrow> Some (pos + i))"
  using assms
proof (induction arcs arbitrary: pos)
  case Nil
  then show ?case by simp
next
  case (Cons a arcs)
  have split: "[0..<length (a # arcs)] = 0 # map Suc [0..<length arcs]"
    by (simp add: upt_conv_Cons map_Suc_upt del: upt_Suc)
  have srt: "arcs_sorted arcs" "\<forall>b\<in>set arcs. ilabel a \<le> ilabel b"
    using Cons.prems by (auto simp: arcs_sorted_def)
  consider "ilabel a = l" | "l < ilabel a" | "ilabel a < l" by linarith
  then show ?case
  proof cases
    case 2
    then have "\<forall>b\<in>set arcs. ilabel b \<noteq> l" using srt(2) by force
    then have "filter (\<lambda>i. ilabel (arcs ! i) = l) [0..<length arcs] = []" by (simp add: filter_empty_conv)
    with 2 show ?thesis unfolding split by (simp add: filter_map comp_def)
  next
    case 3
    with Cons.IH [OF srt(1), of "pos + 1"] show ?thesis
      unfolding split by (simp add: filter_map comp_def split: list.split)
  next
    case 1
    then show ?thesis unfolding split by simp
  qed
qed

text \<open>
  On arcs sorted by input label, as OpenFst keeps them in a matched automaton, the
  binary search stops at the same position as the linear search for every label.
\<close>

lemma binary_search_eq_linear:
  assumes "arcs_sorted arcs"
  shows "BinarySearch arcs l = LinearSearch arcs l"
proof -
  let ?low = "binary_search_loop arcs l 0 (length arcs)"
  have b: "?low \<le> length arcs" "\<forall>i<?low. ilabel (arcs ! i) < l"
    "\<forall>i. ?low \<le> i \<and> i < length arcs \<longrightarrow> l \<le> ilabel (arcs ! i)"
    using binary_search_loop_bound [OF assms, of 0 "length arcs" l] by auto
  have upt: "[0..<length arcs] = [0..<?low] @ [?low..<length arcs]"
    using b(1) by (metis le0 le_Suc_ex upt_add_eq_append)
  have pre: "filter (\<lambda>i. ilabel (arcs ! i) = l) [0..<?low] = []"
    using b(2) by (auto simp: filter_empty_conv)
  have "filter (\<lambda>i. ilabel (arcs ! i) = l) [?low..<length arcs] =
      (if ?low < length arcs \<and> ilabel (arcs ! ?low) = l
       then ?low # filter (\<lambda>i. ilabel (arcs ! i) = l) [Suc ?low..<length arcs] else [])"
  proof (cases "?low < length arcs \<and> ilabel (arcs ! ?low) = l")
    case True
    then show ?thesis by (simp add: upt_conv_Cons)
  next
    case False
    have "ilabel (arcs ! i) \<noteq> l" if "?low \<le> i" "i < length arcs" for i
    proof -
      have "l < ilabel (arcs ! ?low)" using b(3) False that by force
      also have "\<dots> \<le> ilabel (arcs ! i)"
        using assms that sorted_nth_mono [of "map ilabel arcs" ?low i] by (simp add: arcs_sorted_def)
      finally show ?thesis by simp
    qed
    with False show ?thesis by (auto simp: filter_empty_conv)
  qed
  with linear_search_loop_spec [OF assms, of l 0] show ?thesis
    by (simp add: BinarySearch_def LinearSearch_def Let_def upt pre)
qed

lemma binary_search_eq_linear_witness:
  "BinarySearch [\<lparr>ilabel = 1, nextstate = 4\<rparr>, \<lparr>ilabel = 3, nextstate = 5\<rparr>] 3
     = LinearSearch [\<lparr>ilabel = 1, nextstate = 4\<rparr>, \<lparr>ilabel = 3, nextstate = 5\<rparr>] 3"
  by (rule binary_search_eq_linear) (simp add: arcs_sorted_def)

end
