(* ===== verification/Path_Trie.thy ===== *)
theory Path_Trie
  imports Alphabet Fst_Matcher
begin

text \<open>
  \<^verbatim>\<open>native_client/ctcdecode/path_trie.{h,cpp}\<close>: the trie of prefixes of the beam search and
  the tree of time steps, with the two comparison functions of \<^verbatim>\<open>decoder_utils.cpp\<close>.

  Both structures are linked by raw pointers and are updated and freed in place, so they live
  in an explicit store: an address is a number, a null pointer is \<open>None\<close>, a freed or never
  allocated address is outside the store's domain, and \<^verbatim>\<open>new\<close> takes the next unused address.
  Dereferencing a null or freed pointer is \<open>None\<close>.
\<close>

section \<open>Definitions\<close>

record timestep_node =
  t_parent :: "addr option"
  t_children :: "addr list"
  t_data :: u32

record path_trie =
  log_prob_b_prev :: fval
  log_prob_nb_prev :: fval
  log_prob_b_cur :: fval
  log_prob_nb_cur :: fval
  log_prob_c :: fval
  score :: fval
  character :: u32
  timesteps :: "addr option"
  previous_timesteps :: "addr option"
  new_timestep :: u32
  parent :: "addr option"
  pt_exists :: bool
  has_dictionary :: bool
  children :: "(u32 \<times> addr) list"
  dictionary :: "const_fst option"
  dictionary_state :: int

record heap =
  pnodes :: "addr \<rightharpoonup> path_trie"
  pnext :: addr
  tnodes :: "addr \<rightharpoonup> timestep_node"
  tnext :: addr

definition ROOT :: u32 where
  "ROOT = - 1"

definition set_pnode :: "addr \<Rightarrow> path_trie \<Rightarrow> heap \<Rightarrow> heap" where
  "set_pnode a n h = h\<lparr>pnodes := (pnodes h)(a \<mapsto> n)\<rparr>"

subsection \<open>The tree of time steps\<close>

definition add_child :: "addr \<Rightarrow> u32 \<Rightarrow> heap \<Rightarrow> (addr \<times> heap) option" where
  "add_child tree_node data h = do {
     n \<leftarrow> tnodes h tree_node;
     let a = tnext h;
     Some (a, h\<lparr>tnodes := (tnodes h)(tree_node \<mapsto> n\<lparr>t_children := t_children n @ [a]\<rparr>,
                                    a \<mapsto> \<lparr>t_parent = Some tree_node, t_children = [], t_data = data\<rparr>),
               tnext := a + 1\<rparr>)
   }"

partial_function (option) get_history_helper ::
    "heap \<Rightarrow> addr option \<Rightarrow> addr option \<Rightarrow> u32 list \<Rightarrow> u32 list option" where
  "get_history_helper h tree_node rt output =
     (if tree_node = rt then Some output
      else do {
        a \<leftarrow> tree_node;
        n \<leftarrow> tnodes h a;
        output \<leftarrow> get_history_helper h (t_parent n) rt output;
        Some (output @ [t_data n])
      })"

declare get_history_helper.simps [code]

definition get_history :: "heap \<Rightarrow> addr option \<Rightarrow> addr option \<Rightarrow> u32 list option" where
  "get_history h tree_node rt = get_history_helper h tree_node rt []"

subsection \<open>The trie of prefixes\<close>

text \<open>The constructor.  \<^verbatim>\<open>new_timestep\<close> is left uninitialised by the source; it is written
  before it is read.\<close>

definition PathTrie_new :: path_trie where
  "PathTrie_new =
     \<lparr>log_prob_b_prev = neg_flt_inf, log_prob_nb_prev = neg_flt_inf,
      log_prob_b_cur = neg_flt_inf, log_prob_nb_cur = neg_flt_inf,
      log_prob_c = neg_flt_inf, score = neg_flt_inf,
      character = ROOT, timesteps = None, previous_timesteps = None, new_timestep = 0,
      parent = None, pt_exists = True, has_dictionary = False, children = [],
      dictionary = None, dictionary_state = 0\<rparr>"

definition alloc_pnode :: "path_trie \<Rightarrow> heap \<Rightarrow> addr \<times> heap" where
  "alloc_pnode n h = (pnext h, h\<lparr>pnodes := (pnodes h)(pnext h \<mapsto> n), pnext := pnext h + 1\<rparr>)"

definition get_path_trie ::
    "addr \<Rightarrow> u32 \<Rightarrow> fval \<Rightarrow> bool \<Rightarrow> heap \<Rightarrow> (addr option \<times> heap) option" where
  "get_path_trie this new_char cur_log_prob_c reset h = do {
     n \<leftarrow> pnodes h this;
     case find (\<lambda>child. fst child = new_char) (children n) of
       Some (ch, a) \<Rightarrow> do {
         cn \<leftarrow> pnodes h a;
         Some (Some a,
           if \<not> pt_exists cn then
             set_pnode a (cn\<lparr>pt_exists := True,
               log_prob_b_prev := neg_flt_inf, log_prob_nb_prev := neg_flt_inf,
               log_prob_b_cur := neg_flt_inf, log_prob_nb_cur := neg_flt_inf\<rparr>) h
           else h)
       }
     | None \<Rightarrow>
         if has_dictionary n then do {
           d \<leftarrow> dictionary n;
           case matcher_Find d (dictionary_state n) (sint (new_char + 1)) of
             None \<Rightarrow>
               Some (None,
                 if fst_final d (dictionary_state n) \<and> reset then
                   set_pnode this (n\<lparr>dictionary_state := fst_start d\<rparr>) h
                 else h)
           | Some ns \<Rightarrow>
               let (a, h1) = alloc_pnode
                     (PathTrie_new\<lparr>character := new_char, parent := Some this,
                        dictionary := dictionary n, has_dictionary := True,
                        log_prob_c := cur_log_prob_c,
                        dictionary_state := (if fst_final d ns \<and> reset then fst_start d else ns)\<rparr>) h
               in Some (Some a, set_pnode this (n\<lparr>children := children n @ [(new_char, a)]\<rparr>) h1)
         }
         else
           let (a, h1) = alloc_pnode
                 (PathTrie_new\<lparr>character := new_char, parent := Some this,
                    log_prob_c := cur_log_prob_c\<rparr>) h
           in Some (Some a, set_pnode this (n\<lparr>children := children n @ [(new_char, a)]\<rparr>) h1)
   }"

partial_function (option) get_path_vec :: "heap \<Rightarrow> addr \<Rightarrow> u32 list \<Rightarrow> u32 list option" where
  "get_path_vec h this output = do {
     n \<leftarrow> pnodes h this;
     output \<leftarrow> (case parent n of None \<Rightarrow> Some output | Some p \<Rightarrow> get_path_vec h p output);
     Some (if character n \<noteq> ROOT then output @ [character n] else output)
   }"

declare get_path_vec.simps [code]

text \<open>The first byte of a label's string; position 0 of an empty \<^verbatim>\<open>std::string\<close> is the
  terminating zero.\<close>

definition first_byte_of :: "string \<Rightarrow> char" where
  "first_byte_of s = (case s of [] \<Rightarrow> CHR 0x00 | c # _ \<Rightarrow> c)"

text \<open>The two backward walks return the node they stop at and the collected labels.\<close>

partial_function (option) get_prev_grapheme ::
    "heap \<Rightarrow> addr \<Rightarrow> u32 list \<Rightarrow> alphabet \<Rightarrow> (addr \<times> u32 list) option" where
  "get_prev_grapheme h this output alphabet = do {
     n \<leftarrow> pnodes h this;
     if character n = ROOT then Some (this, output)
     else do {
       s \<leftarrow> DecodeSingle alphabet (character n);
       (stop, output) \<leftarrow>
         (if \<not> byte_is_codepoint_boundary (first_byte_of s)
          then do { p \<leftarrow> parent n; get_prev_grapheme h p output alphabet }
          else Some (this, output));
       Some (stop, output @ [character n])
     }
   }"

declare get_prev_grapheme.simps [code]

text \<open>The result is the distance and the byte value at the boundary; reaching the statement
  marked unreachable is \<open>None\<close>.\<close>

partial_function (option) distance_to_codepoint_boundary ::
    "heap \<Rightarrow> addr \<Rightarrow> alphabet \<Rightarrow> (nat \<times> 8 word) option" where
  "distance_to_codepoint_boundary h this alphabet = do {
     n \<leftarrow> pnodes h this;
     s \<leftarrow> DecodeSingle alphabet (character n);
     if byte_is_codepoint_boundary (first_byte_of s) then Some (1, ucast (character n) + 1)
     else do {
       p \<leftarrow> parent n;
       pn \<leftarrow> pnodes h p;
       if character pn \<noteq> ROOT then do {
         (d, first_byte) \<leftarrow> distance_to_codepoint_boundary h p alphabet;
         Some (1 + d, first_byte)
       }
       else None
     }
   }"

declare distance_to_codepoint_boundary.simps [code]

partial_function (option) get_prev_word ::
    "heap \<Rightarrow> addr \<Rightarrow> u32 list \<Rightarrow> alphabet \<Rightarrow> (addr \<times> u32 list) option" where
  "get_prev_word h this output alphabet = do {
     n \<leftarrow> pnodes h this;
     if character n = GetSpaceLabel alphabet \<or> character n = ROOT then Some (this, output)
     else do {
       (stop, output) \<leftarrow>
         (case parent n of None \<Rightarrow> Some (this, output) | Some p \<Rightarrow> get_prev_word h p output alphabet);
       Some (stop, output @ [character n])
     }
   }"

declare get_prev_word.simps [code]

text \<open>The search of a time step's children for one with the given data.\<close>

fun find_timestep_child :: "heap \<Rightarrow> addr list \<Rightarrow> u32 \<Rightarrow> addr option option" where
  "find_timestep_child h [] data = Some None"
| "find_timestep_child h (c # cs) data = do {
     n \<leftarrow> tnodes h c;
     if t_data n = data then Some (Some c) else find_timestep_child h cs data
   }"

text \<open>The part of \<^verbatim>\<open>iterate_to_vec\<close> that updates one existing node.\<close>

definition iterate_update :: "libm \<Rightarrow> addr \<Rightarrow> heap \<Rightarrow> heap option" where
  "iterate_update m this h = do {
     n \<leftarrow> pnodes h this;
     let n = n\<lparr>log_prob_b_prev := log_prob_b_cur n, log_prob_nb_prev := log_prob_nb_cur n,
               log_prob_b_cur := neg_flt_inf, log_prob_nb_cur := neg_flt_inf,
               score := log_sum_exp m (log_prob_b_cur n) (log_prob_nb_cur n)\<rparr>;
     (ts, h) \<leftarrow> (case previous_timesteps n of
         None \<Rightarrow> Some (timesteps n, h)
       | Some pt \<Rightarrow> do {
           ptn \<leftarrow> tnodes h pt;
           found \<leftarrow> find_timestep_child h (t_children ptn) (new_timestep n);
           case found of
             Some c \<Rightarrow> Some (Some c, h)
           | None \<Rightarrow> do { (c, h) \<leftarrow> add_child pt (new_timestep n) h; Some (Some c, h) }
         });
     Some (set_pnode this (n\<lparr>timesteps := ts, previous_timesteps := None\<rparr>) h)
   }"

partial_function (option) iterate_to_vec ::
    "libm \<Rightarrow> addr \<Rightarrow> heap \<times> addr list \<Rightarrow> (heap \<times> addr list) option" where
  "iterate_to_vec m this s = do {
     n \<leftarrow> pnodes (fst s) this;
     s \<leftarrow> mfold (\<lambda>child s. iterate_to_vec m (snd child) s) (children n) s;
     n \<leftarrow> pnodes (fst s) this;
     if pt_exists n then do {
       h \<leftarrow> iterate_update m this (fst s);
       Some (h, snd s @ [this])
     }
     else Some s
   }"

declare iterate_to_vec.simps [code]

text \<open>Erase the first entry with the given label from a list of children.\<close>

fun erase_child :: "u32 \<Rightarrow> (u32 \<times> addr) list \<Rightarrow> (u32 \<times> addr) list" where
  "erase_child ch [] = []"
| "erase_child ch (c # cs) = (if fst c = ch then cs else c # erase_child ch cs)"

text \<open>The destructor run by \<^verbatim>\<open>delete this\<close> has no children left to delete.\<close>

partial_function (option) remove :: "addr \<Rightarrow> heap \<Rightarrow> heap option" where
  "remove this h = do {
     n \<leftarrow> pnodes h this;
     let h = set_pnode this (n\<lparr>pt_exists := False\<rparr>) h;
     if children n = [] then do {
       p \<leftarrow> parent n;
       pn \<leftarrow> pnodes h p;
       let pn = pn\<lparr>children := erase_child (character n) (children pn)\<rparr>;
       let h = set_pnode p pn h;
       h \<leftarrow> (if children pn = [] \<and> \<not> pt_exists pn then remove p h else Some h);
       Some (h\<lparr>pnodes := (pnodes h)(this := None)\<rparr>)
     }
     else Some h
   }"

declare remove.simps [code]

definition set_dictionary :: "const_fst \<Rightarrow> addr \<Rightarrow> heap \<Rightarrow> heap option" where
  "set_dictionary d this h = do {
     n \<leftarrow> pnodes h this;
     Some (set_pnode this (n\<lparr>dictionary := Some d, dictionary_state := fst_start d, has_dictionary := True\<rparr>) h)
   }"

definition is_empty :: "path_trie \<Rightarrow> bool" where
  "is_empty n \<longleftrightarrow> ROOT = character n"

subsection \<open>Comparing prefixes\<close>

definition prefix_compare :: "path_trie \<Rightarrow> path_trie \<Rightarrow> bool" where
  "prefix_compare x y \<longleftrightarrow>
     (if feq (score x) (score y) then
        (if character x = character y then False else character x < character y)
      else flt (score y) (score x))"

text \<open>\<open>scores\<close> is the table of externally corrected scores, by node.\<close>

definition prefix_compare_external :: "heap \<Rightarrow> (addr \<Rightarrow> fval) \<Rightarrow> addr \<Rightarrow> addr \<Rightarrow> bool" where
  "prefix_compare_external h scores x y \<longleftrightarrow>
     (case (pnodes h x, pnodes h y) of
        (Some nx, Some ny) \<Rightarrow>
          (if feq (scores x) (scores y) then
             (if character nx = character ny then False else character nx < character ny)
           else flt (scores y) (scores x))
      | _ \<Rightarrow> False)"

end
