(* ===== verification/Ds_Errors.thy ===== *)
theory Ds_Errors
  imports Prelude
begin

text \<open>
  The error codes of \<^verbatim>\<open>native_client/deepspeech.h\<close> (\<^verbatim>\<open>DS_FOR_EACH_ERROR\<close>) and their texts
  (\<^verbatim>\<open>native_client/deepspeech_errors.cc\<close>).
\<close>

datatype ds_error =
    DS_ERR_OK | DS_ERR_NO_MODEL | DS_ERR_INVALID_ALPHABET | DS_ERR_INVALID_SHAPE
  | DS_ERR_INVALID_SCORER | DS_ERR_MODEL_INCOMPATIBLE | DS_ERR_SCORER_NOT_ENABLED
  | DS_ERR_SCORER_UNREADABLE | DS_ERR_SCORER_INVALID_LM | DS_ERR_SCORER_NO_TRIE
  | DS_ERR_SCORER_INVALID_TRIE | DS_ERR_SCORER_VERSION_MISMATCH | DS_ERR_FAIL_INIT_MMAP
  | DS_ERR_FAIL_INIT_SESS | DS_ERR_FAIL_INTERPRETER | DS_ERR_FAIL_RUN_SESS
  | DS_ERR_FAIL_CREATE_STREAM | DS_ERR_FAIL_READ_PROTOBUF | DS_ERR_FAIL_CREATE_SESS
  | DS_ERR_FAIL_CREATE_MODEL | DS_ERR_FAIL_INSERT_HOTWORD | DS_ERR_FAIL_CLEAR_HOTWORD
  | DS_ERR_FAIL_ERASE_HOTWORD

text \<open>The rows of the table, in the order of the macro: name, value, description.\<close>

definition DS_FOR_EACH_ERROR :: "(ds_error \<times> int \<times> string) list" where
  "DS_FOR_EACH_ERROR =
    [(DS_ERR_OK,                      0x0000, ''No error.''),
     (DS_ERR_NO_MODEL,                0x1000, ''Missing model information.''),
     (DS_ERR_INVALID_ALPHABET,        0x2000, ''Invalid alphabet embedded in model. (Data corruption?)''),
     (DS_ERR_INVALID_SHAPE,           0x2001, ''Invalid model shape.''),
     (DS_ERR_INVALID_SCORER,          0x2002, ''Invalid scorer file.''),
     (DS_ERR_MODEL_INCOMPATIBLE,      0x2003, ''Incompatible model.''),
     (DS_ERR_SCORER_NOT_ENABLED,      0x2004, ''External scorer is not enabled.''),
     (DS_ERR_SCORER_UNREADABLE,       0x2005, ''Could not read scorer file.''),
     (DS_ERR_SCORER_INVALID_LM,       0x2006, ''Could not recognize language model header in scorer.''),
     (DS_ERR_SCORER_NO_TRIE,          0x2007, ''Reached end of scorer file before loading vocabulary trie.''),
     (DS_ERR_SCORER_INVALID_TRIE,     0x2008, ''Invalid magic in trie header.''),
     (DS_ERR_SCORER_VERSION_MISMATCH, 0x2009, ''Scorer file version does not match expected version.''),
     (DS_ERR_FAIL_INIT_MMAP,          0x3000, ''Failed to initialize memory mapped model.''),
     (DS_ERR_FAIL_INIT_SESS,          0x3001, ''Failed to initialize the session.''),
     (DS_ERR_FAIL_INTERPRETER,        0x3002, ''Interpreter failed.''),
     (DS_ERR_FAIL_RUN_SESS,           0x3003, ''Failed to run the session.''),
     (DS_ERR_FAIL_CREATE_STREAM,      0x3004, ''Error creating the stream.''),
     (DS_ERR_FAIL_READ_PROTOBUF,      0x3005, ''Error reading the proto buffer model file.''),
     (DS_ERR_FAIL_CREATE_SESS,        0x3006, ''Failed to create session.''),
     (DS_ERR_FAIL_CREATE_MODEL,       0x3007, ''Could not allocate model state.''),
     (DS_ERR_FAIL_INSERT_HOTWORD,     0x3008, ''Could not insert hot-word.''),
     (DS_ERR_FAIL_CLEAR_HOTWORD,      0x3009, ''Could not clear hot-words.''),
     (DS_ERR_FAIL_ERASE_HOTWORD,      0x3010, ''Could not erase hot-word.'')]"

text \<open>The value of an enumerator.\<close>

definition ds_code :: "ds_error \<Rightarrow> int" where
  "ds_code e = (case map_of DS_FOR_EACH_ERROR e of Some (v, _) \<Rightarrow> v | None \<Rightarrow> 0)"

text \<open>The \<^verbatim>\<open>switch\<close>: the first case whose value matches.\<close>

definition DS_ErrorCodeToErrorMessage :: "int \<Rightarrow> string" where
  "DS_ErrorCodeToErrorMessage aErrorCode =
     (case find (\<lambda>(_, v, _). v = aErrorCode) DS_FOR_EACH_ERROR of
        Some (_, _, desc) \<Rightarrow> desc
      | None \<Rightarrow> ''Unknown error, please make sure you are using the correct native binary.'')"

lemma ds_code_simps [simp]:
  "ds_code DS_ERR_OK = 0" "ds_code DS_ERR_NO_MODEL = 0x1000" "ds_code DS_ERR_INVALID_ALPHABET = 0x2000"
  "ds_code DS_ERR_INVALID_SHAPE = 0x2001" "ds_code DS_ERR_INVALID_SCORER = 0x2002"
  "ds_code DS_ERR_MODEL_INCOMPATIBLE = 0x2003" "ds_code DS_ERR_SCORER_NOT_ENABLED = 0x2004"
  "ds_code DS_ERR_SCORER_UNREADABLE = 0x2005" "ds_code DS_ERR_SCORER_INVALID_LM = 0x2006"
  "ds_code DS_ERR_SCORER_NO_TRIE = 0x2007" "ds_code DS_ERR_SCORER_INVALID_TRIE = 0x2008"
  "ds_code DS_ERR_SCORER_VERSION_MISMATCH = 0x2009" "ds_code DS_ERR_FAIL_INIT_MMAP = 0x3000"
  "ds_code DS_ERR_FAIL_INIT_SESS = 0x3001" "ds_code DS_ERR_FAIL_INTERPRETER = 0x3002"
  "ds_code DS_ERR_FAIL_RUN_SESS = 0x3003" "ds_code DS_ERR_FAIL_CREATE_STREAM = 0x3004"
  "ds_code DS_ERR_FAIL_READ_PROTOBUF = 0x3005" "ds_code DS_ERR_FAIL_CREATE_SESS = 0x3006"
  "ds_code DS_ERR_FAIL_CREATE_MODEL = 0x3007" "ds_code DS_ERR_FAIL_INSERT_HOTWORD = 0x3008"
  "ds_code DS_ERR_FAIL_CLEAR_HOTWORD = 0x3009" "ds_code DS_ERR_FAIL_ERASE_HOTWORD = 0x3010"
  by (simp_all add: ds_code_def DS_FOR_EACH_ERROR_def)

lemma ds_code_inj: "inj ds_code"
proof (rule injI)
  fix x y assume "ds_code x = ds_code y"
  then show "x = y" by (cases x; cases y) simp_all
qed

text \<open>Enumerators compare by their values, as in C.\<close>

instantiation ds_error :: linorder
begin

definition less_eq_ds_error :: "ds_error \<Rightarrow> ds_error \<Rightarrow> bool" where
  "less_eq_ds_error x y \<longleftrightarrow> ds_code x \<le> ds_code y"

definition less_ds_error :: "ds_error \<Rightarrow> ds_error \<Rightarrow> bool" where
  "less_ds_error x y \<longleftrightarrow> ds_code x < ds_code y"

instance
  by intro_classes (auto simp: less_eq_ds_error_def less_ds_error_def dest: injD [OF ds_code_inj])

end

text \<open>The table is listed in the order of the values.\<close>

lemma ds_table_sorted: "sorted_wrt (<) (map fst DS_FOR_EACH_ERROR)"
  by (simp add: DS_FOR_EACH_ERROR_def less_ds_error_def)

lemma ds_table_complete: "\<exists>d. (e, ds_code e, d) \<in> set DS_FOR_EACH_ERROR"
  by (cases e) (simp_all add: DS_FOR_EACH_ERROR_def)

lemma ds_table_codes: "r \<in> set DS_FOR_EACH_ERROR \<Longrightarrow> fst (snd r) = ds_code (fst r)"
  by (auto simp: DS_FOR_EACH_ERROR_def)

lemma ds_table_distinct: "distinct (map (\<lambda>(_, v, _). v) DS_FOR_EACH_ERROR)"
proof -
  have "map (\<lambda>(_, v, _). v) DS_FOR_EACH_ERROR = map ds_code (map fst DS_FOR_EACH_ERROR)"
    using ds_table_codes by fastforce
  moreover have "distinct (map fst DS_FOR_EACH_ERROR)"
    using ds_table_sorted by (simp add: strict_sorted_iff)
  ultimately show ?thesis using inj_on_subset [OF ds_code_inj subset_UNIV] by (simp only: distinct_map)
qed

lemma find_distinct:
  assumes "distinct (map f xs)" and "x \<in> set xs" shows "find (\<lambda>y. f y = f x) xs = Some x"
  using assms by (induction xs) (auto simp: image_iff)

text \<open>
  The error table is consistent: every error has a code of its own, only \<^verbatim>\<open>DS_ERR_OK\<close>
  is zero, and the text for the code of an error is the description in its row; every other
  integer gets the text for unknown errors.
\<close>

lemma error_message_correct:
  "(\<forall>(e, v, d) \<in> set DS_FOR_EACH_ERROR. v = ds_code e \<and> DS_ErrorCodeToErrorMessage v = d)
   \<and> inj ds_code \<and> (\<forall>e. ds_code e = 0 \<longleftrightarrow> e = DS_ERR_OK)
   \<and> (\<forall>c. c \<notin> range ds_code \<longrightarrow>
        DS_ErrorCodeToErrorMessage c = ''Unknown error, please make sure you are using the correct native binary.'')"
proof -
  have "v = ds_code e \<and> DS_ErrorCodeToErrorMessage v = d" if r: "(e, v, d) \<in> set DS_FOR_EACH_ERROR" for e v d
    using find_distinct [OF ds_table_distinct r] ds_table_codes [OF r]
    by (simp add: DS_ErrorCodeToErrorMessage_def split_def)
  moreover have "ds_code e = 0 \<longleftrightarrow> e = DS_ERR_OK" for e by (cases e) simp_all
  moreover have "DS_ErrorCodeToErrorMessage c = ''Unknown error, please make sure you are using the correct native binary.''"
    if c: "c \<notin> range ds_code" for c
  proof -
    have "find (\<lambda>(_, v, _). v = c) DS_FOR_EACH_ERROR = None"
      unfolding find_None_iff using ds_table_codes c by fastforce
    then show ?thesis by (simp add: DS_ErrorCodeToErrorMessage_def)
  qed
  ultimately show ?thesis using ds_code_inj by blast
qed

lemma error_message_correct_witness:
  "DS_ErrorCodeToErrorMessage 0x2004 = ''External scorer is not enabled.''
   \<and> DS_ErrorCodeToErrorMessage 5 = ''Unknown error, please make sure you are using the correct native binary.''"
proof
  have "(DS_ERR_SCORER_NOT_ENABLED, 0x2004, ''External scorer is not enabled.'') \<in> set DS_FOR_EACH_ERROR"
    by (simp add: DS_FOR_EACH_ERROR_def)
  from bspec [OF conjunct1 [OF error_message_correct] this]
  show "DS_ErrorCodeToErrorMessage 0x2004 = ''External scorer is not enabled.''" by simp
  have "5 \<noteq> ds_code e" for e by (cases e) simp_all
  then have "5 \<notin> range ds_code" by auto
  then show "DS_ErrorCodeToErrorMessage 5 = ''Unknown error, please make sure you are using the correct native binary.''"
    by (rule mp [OF spec [OF conjunct2 [OF conjunct2 [OF conjunct2 [OF error_message_correct]]]]])
qed

end
