(* ===== verification/Scorer.thy ===== *)
theory Scorer
  imports Path_Trie Ds_Errors
begin

text \<open>
  \<^verbatim>\<open>native_client/ctcdecode/scorer.{h,cpp}\<close> and the two functions of
  \<^verbatim>\<open>decoder_utils.cpp\<close> that add words to an automaton.

  The language model is the virtual interface \<^verbatim>\<open>lm::base::Model\<close>; its operations are the
  fields of \<open>lm_model\<close>, over an arbitrary type of states.  The mutable automaton
  \<^verbatim>\<open>StdVectorFst\<close> is a list of states.  The OpenFst algorithms that simplify it, the reader
  and writer of its file format, the file system and the object representation of a
  \<^verbatim>\<open>double\<close> are the fields of \<open>lib\<close>.  A call that aborts or reads an indeterminate value is
  \<open>None\<close>.
\<close>

section \<open>Definitions\<close>

subsection \<open>The automaton under construction\<close>

record vector_fst =
  vstart :: int
  vstates :: "(bool \<times> arc list) list"

definition empty_fst :: vector_fst where
  "empty_fst = \<lparr>vstart = -1, vstates = []\<rparr>"

definition AddState :: "vector_fst \<Rightarrow> nat \<times> vector_fst" where
  "AddState F = (length (vstates F), F\<lparr>vstates := vstates F @ [(False, [])]\<rparr>)"

definition AddArc :: "nat \<Rightarrow> arc \<Rightarrow> vector_fst \<Rightarrow> vector_fst" where
  "AddArc s a F = F\<lparr>vstates := (vstates F)[s := (fst (vstates F ! s), snd (vstates F ! s) @ [a])]\<rparr>"

definition SetFinal :: "nat \<Rightarrow> vector_fst \<Rightarrow> vector_fst" where
  "SetFinal s F = F\<lparr>vstates := (vstates F)[s := (True, snd (vstates F ! s))]\<rparr>"

text \<open>The loop of \<^verbatim>\<open>add_word_to_fst\<close>; its result is the last \<open>dst\<close> and the automaton.\<close>

fun add_word_arcs :: "u32 list \<Rightarrow> nat \<Rightarrow> vector_fst \<Rightarrow> nat \<times> vector_fst" where
  "add_word_arcs [] src F = (src, F)"
| "add_word_arcs (c # word) src F =
     (let (dst, F) = AddState F;
          F = AddArc src \<lparr>ilabel = sint c, nextstate = int dst\<rparr> F
      in add_word_arcs word dst F)"

text \<open>For the empty word \<open>dst\<close> is read before it is written.\<close>

definition add_word_to_fst :: "u32 list \<Rightarrow> vector_fst \<Rightarrow> vector_fst option" where
  "add_word_to_fst word F =
     (let F = (if vstates F = [] then (let (start, F) = AddState F in F\<lparr>vstart := int start\<rparr>) else F)
      in if word = [] then None
         else let (dst, F) = add_word_arcs word (nat (vstart F)) F in Some (SetFinal dst F))"

text \<open>The loop that looks up the characters of a word.\<close>

fun word_to_labels :: "(string \<rightharpoonup> int) \<Rightarrow> string list \<Rightarrow> u32 list option" where
  "word_to_labels char_map [] = Some []"
| "word_to_labels char_map (c # cs) = do {
     int_c \<leftarrow> char_map c;
     rest \<leftarrow> word_to_labels char_map cs;
     Some (word_of_int int_c # rest)
   }"

definition add_word_to_dictionary ::
    "string \<Rightarrow> (string \<rightharpoonup> int) \<Rightarrow> bool \<Rightarrow> int \<Rightarrow> vector_fst \<Rightarrow> (bool \<times> vector_fst) option" where
  "add_word_to_dictionary word char_map utf8 SPACE_ID F =
     (let characters = (if utf8 then split_into_bytes word else split_into_codepoints word) in
      case word_to_labels char_map characters of
        None \<Rightarrow> Some (False, F)
      | Some int_word \<Rightarrow> do {
          F \<leftarrow> add_word_to_fst (if utf8 then int_word else int_word @ [word_of_int SPACE_ID]) F;
          Some (True, F)
        })"

text \<open>The conversion to the immutable automaton of the decoder.\<close>

definition to_const_fst :: "vector_fst \<Rightarrow> const_fst" where
  "to_const_fst F =
     \<lparr>fst_start = vstart F,
      fst_final = (\<lambda>s. 0 \<le> s \<and> s < int (length (vstates F)) \<and> fst (vstates F ! nat s)),
      fst_arcs = (\<lambda>s. if 0 \<le> s \<and> s < int (length (vstates F)) then snd (vstates F ! nat s) else [])\<rparr>"

subsection \<open>The language model and the libraries\<close>

record 's lm_model =
  lm_order :: nat
  begin_sentence :: 's
  null_context :: 's
  vocab_index :: "string \<Rightarrow> u32"
  end_sentence :: u32
  base_score :: "'s \<Rightarrow> u32 \<Rightarrow> fval \<times> 's"
  end_of_search_offset :: nat

record 's lib =
  RmEpsilon :: "vector_fst \<Rightarrow> vector_fst"
  Determinize :: "vector_fst \<Rightarrow> vector_fst"
  Minimize :: "vector_fst \<Rightarrow> vector_fst"
  fst_read :: "nat \<Rightarrow> string \<Rightarrow> const_fst option"
  fst_write :: "nat \<Rightarrow> const_fst \<Rightarrow> string"
  double_bytes :: "fval \<Rightarrow> string"
  bytes_double :: "string \<Rightarrow> fval"
  access_R_OK :: "string \<Rightarrow> bool"
  file_contents :: "string \<Rightarrow> string"
  RecognizeBinary :: "string \<Rightarrow> bool"
  LoadVirtual :: "string \<Rightarrow> 's lm_model"

subsection \<open>The scorer\<close>

record 's scorer =
  s_alpha :: fval
  s_beta :: fval
  s_dictionary :: "const_fst option"
  language_model :: "'s lm_model option"
  is_utf8_mode :: bool
  max_order :: nat
  SPACE_ID :: int
  s_alphabet :: alphabet
  s_char_map :: "string \<rightharpoonup> int"

definition OOV_SCORE :: fval where
  "OOV_SCORE = Fin (-1000) 0"

definition START_TOKEN :: string where
  "START_TOKEN = ''<s>''"

definition UNK_TOKEN :: string where
  "UNK_TOKEN = ''<unk>''"

definition END_TOKEN :: string where
  "END_TOKEN = ''</s>''"

text \<open>The loop of \<^verbatim>\<open>setup_char_map\<close>.\<close>

definition char_map_step :: "alphabet \<Rightarrow> nat \<Rightarrow> (string \<rightharpoonup> int) \<Rightarrow> (string \<rightharpoonup> int) option" where
  "char_map_step a i m = do { c \<leftarrow> DecodeSingle a (of_nat i); Some (m(c \<mapsto> int i + 1)) }"

definition setup_char_map :: "'s scorer \<Rightarrow> 's scorer option" where
  "setup_char_map s = do {
     m \<leftarrow> mfold (char_map_step (s_alphabet s)) [0..<GetSize (s_alphabet s)] Map.empty;
     Some (s\<lparr>SPACE_ID := sint (GetSpaceLabel (s_alphabet s)), s_char_map := m\<rparr>)
   }"

definition set_alphabet :: "alphabet \<Rightarrow> 's scorer \<Rightarrow> 's scorer option" where
  "set_alphabet a s = setup_char_map (s\<lparr>s_alphabet := a\<rparr>)"

definition reset_params :: "fval \<Rightarrow> fval \<Rightarrow> 's scorer \<Rightarrow> 's scorer" where
  "reset_params alpha beta s = s\<lparr>s_alpha := alpha, s_beta := beta\<rparr>"

text \<open>\<^verbatim>\<open>'TRIE'\<close>, as the compilers of the project evaluate a multi-character constant.\<close>

definition MAGIC :: int where
  "MAGIC = 0x54524945"

definition FILE_VERSION :: int where
  "FILE_VERSION = 6"

definition le32 :: "int \<Rightarrow> string" where
  "le32 n = map (\<lambda>k. char_of (nat (n div 256 ^ k mod 256))) [0, 1, 2, 3]"

text \<open>\<^verbatim>\<open>fin.read\<close> of a fixed number of bytes; after a short read the destination holds an
  indeterminate value.\<close>

definition read_bytes :: "nat \<Rightarrow> string \<Rightarrow> (string \<times> string) option" where
  "read_bytes k fin = (if length fin < k then None else Some (take k fin, drop k fin))"

text \<open>The arguments of \<^verbatim>\<open>reset_params\<close> are narrowed to \<^verbatim>\<open>float\<close>.  \<open>pos\<close> is the position of
  the stream in the file.\<close>

definition load_trie :: "'s lib \<Rightarrow> nat \<Rightarrow> string \<Rightarrow> 's scorer \<Rightarrow> (int \<times> 's scorer) option" where
  "load_trie L pos fin s = do {
     (magic, fin) \<leftarrow> read_bytes 4 fin;
     if magic \<noteq> le32 MAGIC then Some (ds_code DS_ERR_SCORER_INVALID_TRIE, s)
     else do {
       (version, fin) \<leftarrow> read_bytes 4 fin;
       if version \<noteq> le32 FILE_VERSION then Some (ds_code DS_ERR_SCORER_VERSION_MISMATCH, s)
       else do {
         (utf8, fin) \<leftarrow> read_bytes 1 fin;
         let s = s\<lparr>is_utf8_mode := (utf8 \<noteq> [CHR 0x00])\<rparr>;
         (alpha, fin) \<leftarrow> read_bytes 8 fin;
         (beta, fin) \<leftarrow> read_bytes 8 fin;
         let s = reset_params (to_float (bytes_double L alpha)) (to_float (bytes_double L beta)) s;
         Some (ds_code DS_ERR_OK, s\<lparr>s_dictionary := fst_read L (pos + 25) fin\<rparr>)
       }
     }
   }"

definition load_lm :: "'s lib \<Rightarrow> string \<Rightarrow> 's scorer \<Rightarrow> (int \<times> 's scorer) option" where
  "load_lm L lm_path s =
     (if \<not> access_R_OK L lm_path then Some (ds_code DS_ERR_SCORER_UNREADABLE, s)
      else if \<not> RecognizeBinary L lm_path then Some (ds_code DS_ERR_SCORER_INVALID_LM, s)
      else
        let lm = LoadVirtual L lm_path;
            s = s\<lparr>language_model := Some lm, max_order := lm_order lm\<rparr>;
            package_size = length (file_contents L lm_path);
            trie_offset = end_of_search_offset lm
        in if package_size \<le> trie_offset then Some (ds_code DS_ERR_SCORER_NO_TRIE, s)
           else load_trie L trie_offset (drop trie_offset (file_contents L lm_path)) s)"

definition Scorer_init :: "'s lib \<Rightarrow> string \<Rightarrow> alphabet \<Rightarrow> 's scorer \<Rightarrow> (int \<times> 's scorer) option" where
  "Scorer_init L lm_path alphabet s = do {
     s \<leftarrow> set_alphabet alphabet s;
     load_lm L lm_path s
   }"

text \<open>The overload that reads the alphabet from a file; \<open>config\<close> is the file's contents if it
  can be opened.\<close>

definition Scorer_init_path :: "'s lib \<Rightarrow> string \<Rightarrow> string option \<Rightarrow> 's scorer \<Rightarrow> (int \<times> 's scorer) option" where
  "Scorer_init_path L lm_path config s =
     (let (err, a) = Alphabet_init config (s_alphabet s);
          s = s\<lparr>s_alphabet := a\<rparr>
      in if err \<noteq> 0 then Some (err, s)
         else do {
           s \<leftarrow> setup_char_map s;
           load_lm L lm_path s
         })"

text \<open>\<^verbatim>\<open>save_dictionary\<close> on the bytes of the output file: \<open>old\<close> is the contents the stream
  starts after, \<open>room\<close> the number of bytes the device still takes.  The result is the returned
  flag and the contents of the file.\<close>

definition put_bytes :: "string \<Rightarrow> string \<times> nat \<Rightarrow> (string \<times> nat) + string" where
  "put_bytes bs f = (case f of (data, room) \<Rightarrow>
     if length bs \<le> room then Inl (data @ bs, room - length bs) else Inr (data @ take room bs))"

fun put_all :: "string list \<Rightarrow> string \<times> nat \<Rightarrow> (string \<times> nat) + string" where
  "put_all [] f = Inl f"
| "put_all (bs # bss) f = (case put_bytes bs f of Inl f \<Rightarrow> put_all bss f | Inr data \<Rightarrow> Inr data)"

definition save_dictionary ::
    "'s lib \<Rightarrow> string option \<Rightarrow> bool \<Rightarrow> bool \<Rightarrow> nat \<Rightarrow> 's scorer \<Rightarrow> (bool \<times> string option) option" where
  "save_dictionary L file can_open append_instead_of_overwrite room s =
     (if \<not> can_open \<or> (append_instead_of_overwrite \<and> file = None) then Some (False, file)
      else
        let old = (if append_instead_of_overwrite then (case file of Some d \<Rightarrow> d | None \<Rightarrow> []) else []) in
        case put_all [le32 MAGIC, le32 FILE_VERSION, [if is_utf8_mode s then CHR 0x01 else CHR 0x00],
                      double_bytes L (s_alpha s), double_bytes L (s_beta s)] (old, room) of
          Inr data \<Rightarrow> Some (False, Some data)
        | Inl (data, room) \<Rightarrow> do {
            d \<leftarrow> s_dictionary s;
            (case put_bytes (fst_write L (length data) d) (data, room) of
               Inl (data, _) \<Rightarrow> Some (True, Some data)
             | Inr data \<Rightarrow> Some (False, Some data))
          })"

subsection \<open>Scoring\<close>

text \<open>The number of bytes of a code point by its first byte.\<close>

definition needed_bytes :: "8 word \<Rightarrow> nat option" where
  "needed_bytes first_byte =
     (if drop_bit 3 first_byte = 0x1E then Some 4
      else if drop_bit 4 first_byte = 0x0E then Some 3
      else if drop_bit 5 first_byte = 0x06 then Some 2
      else if drop_bit 7 first_byte = 0x00 then Some 1
      else None)"

text \<open>An invalid first byte fails an assertion in a debug build; in a release build it is not a
  boundary.  \<open>new_label\<close> is compared with \<^verbatim>\<open>SPACE_ID_\<close> after the latter's conversion to
  \<^verbatim>\<open>size_t\<close>.\<close>

definition is_scoring_boundary :: "bool \<Rightarrow> 's scorer \<Rightarrow> heap \<Rightarrow> addr \<Rightarrow> nat \<Rightarrow> bool option" where
  "is_scoring_boundary ndebug s h prefix new_label =
     (if is_utf8_mode s then do {
        n \<leftarrow> pnodes h prefix;
        if character n = ROOT then Some False
        else do {
          (distance_to_boundary, first_byte) \<leftarrow> distance_to_codepoint_boundary h prefix (s_alphabet s);
          case needed_bytes first_byte of
            Some k \<Rightarrow> Some (distance_to_boundary = k)
          | None \<Rightarrow> (if ndebug then Some False else None)
        }
      }
      else Some (int new_label = SPACE_ID s mod 2 ^ 64))"

text \<open>The loop of \<^verbatim>\<open>get_log_cond_prob\<close>; \<open>Inl\<close> is the early return for an unknown word.\<close>

fun log_cond_prob_loop :: "'s lm_model \<Rightarrow> string list \<Rightarrow> 's \<Rightarrow> fval \<Rightarrow> fval + 's \<times> fval" where
  "log_cond_prob_loop lm [] in_state cond_prob = Inr (in_state, cond_prob)"
| "log_cond_prob_loop lm (w # ws) in_state cond_prob =
     (let word_index = vocab_index lm w in
      if word_index = 0 then Inl OOV_SCORE
      else let (cond_prob, out_state) = base_score lm in_state word_index
           in log_cond_prob_loop lm ws out_state cond_prob)"

definition get_log_cond_prob :: "'s scorer \<Rightarrow> string list \<Rightarrow> bool \<Rightarrow> bool \<Rightarrow> fval option" where
  "get_log_cond_prob s words bos eos = do {
     lm \<leftarrow> language_model s;
     let in_state = (if bos then begin_sentence lm else null_context lm);
     case log_cond_prob_loop lm words in_state (Fin 0 0) of
       Inl r \<Rightarrow> Some r
     | Inr (in_state, cond_prob) \<Rightarrow>
         let cond_prob = (if eos then fst (base_score lm in_state (end_sentence lm)) else cond_prob)
         in Some (fdiv binary64 cond_prob NUM_FLT_LOGE)
   }"

definition split_labels_into_scored_units :: "'s scorer \<Rightarrow> u32 list \<Rightarrow> string list option" where
  "split_labels_into_scored_units s labels =
     (if labels = [] then Some []
      else do {
        str \<leftarrow> Decode (s_alphabet s) labels;
        if is_utf8_mode s then Some (split_into_codepoints str) else split_str str '' ''
      })"

text \<open>The loop of \<^verbatim>\<open>make_ngram\<close>, before the final reversal; \<open>walk\<close> is the walk back over one
  unit that the mode of the scorer selects.\<close>

fun make_ngram_loop ::
    "(addr \<Rightarrow> (addr \<times> u32 list) option) \<Rightarrow> alphabet \<Rightarrow> heap \<Rightarrow> nat \<Rightarrow> addr option \<Rightarrow> string list \<Rightarrow> string list option" where
  "make_ngram_loop walk alphabet h 0 current_node ngram = Some ngram"
| "make_ngram_loop walk alphabet h (Suc k) None ngram = Some ngram"
| "make_ngram_loop walk alphabet h (Suc k) (Some a) ngram = do {
     n \<leftarrow> pnodes h a;
     if character n = ROOT then Some ngram
     else do {
       (new_node, prefix_vec) \<leftarrow> walk a;
       nn \<leftarrow> pnodes h new_node;
       word \<leftarrow> Decode alphabet prefix_vec;
       make_ngram_loop walk alphabet h k (parent nn) (ngram @ [word])
     }
   }"

definition make_ngram :: "'s scorer \<Rightarrow> heap \<Rightarrow> addr \<Rightarrow> string list option" where
  "make_ngram s h prefix = do {
     ngram \<leftarrow> make_ngram_loop
       (\<lambda>node. if is_utf8_mode s then get_prev_grapheme h node [] (s_alphabet s)
               else get_prev_word h node [] (s_alphabet s))
       (s_alphabet s) h (max_order s) (Some prefix) [];
     Some (rev ngram)
   }"

subsection \<open>Filling the dictionary\<close>

text \<open>One iteration over the vocabulary, and the whole loop; the vocabulary is listed in the
  iteration order of the set.\<close>

definition fill_step :: "'s scorer \<Rightarrow> string \<Rightarrow> vector_fst \<Rightarrow> vector_fst option" where
  "fill_step s word F =
     (if word \<noteq> START_TOKEN \<and> word \<noteq> UNK_TOKEN \<and> word \<noteq> END_TOKEN
      then map_option snd (add_word_to_dictionary word (s_char_map s) (is_utf8_mode s) (SPACE_ID s + 1) F)
      else Some F)"

definition fill_dictionary :: "'s lib \<Rightarrow> string list \<Rightarrow> 's scorer \<Rightarrow> 's scorer option" where
  "fill_dictionary L vocabulary s = do {
     dictionary \<leftarrow> mfold (fill_step s) vocabulary empty_fst;
     let new_dict = Minimize L (Determinize L (RmEpsilon L dictionary));
     Some (s\<lparr>s_dictionary := Some (to_const_fst new_dict)\<rparr>)
   }"

end
