(* ===== verification/Ctc_Decoder.thy ===== *)
theory Ctc_Decoder
  imports Scorer
begin

text \<open>
  \<^verbatim>\<open>native_client/ctcdecode/ctc_beam_search_decoder.{h,cpp}\<close>: the prefix beam search.

  The decoder's state owns the store of the prefix trie.  \<open>cxx\<close> collects what the compiled
  program takes from its environment: the elementary functions, the sorting algorithms of the
  standard library, and whether assertions are compiled out.  A failed assertion, a failed
  \<^verbatim>\<open>VALID_CHECK\<close> and a read outside an array or through a dangling pointer are \<open>None\<close>.
\<close>

section \<open>Definitions\<close>

record cxx =
  c_libm :: libm
  c_stl :: stl
  c_ndebug :: bool

record Output =
  confidence :: fval
  tokens :: "u32 list"
  out_timesteps :: "u32 list"

record 's decoder_state =
  abs_time_step :: int
  space_id :: int
  blank_id :: int
  beam_size :: nat
  cutoff_prob :: fval
  cutoff_top_n :: nat
  start_expanding :: bool
  ext_scorer :: "'s scorer option"
  prefixes :: "addr list"
  prefix_root :: addr
  hot_words :: "(string \<times> fval) list"
  d_heap :: heap

text \<open>A constructed state before \<^verbatim>\<open>init\<close>: no prefixes, and the root of the time steps.\<close>

definition DecoderState_new :: "'s decoder_state" where
  "DecoderState_new =
     \<lparr>abs_time_step = 0, space_id = 0, blank_id = 0, beam_size = 0, cutoff_prob = Fin 0 0, cutoff_top_n = 0,
      start_expanding = False, ext_scorer = None, prefixes = [], prefix_root = 0, hot_words = [],
      d_heap = \<lparr>pnodes = Map.empty, pnext = 0,
        tnodes = [0 \<mapsto> \<lparr>t_parent = None, t_children = [], t_data = 0\<rparr>], tnext = 1\<rparr>\<rparr>"

definition DecoderState_init ::
    "alphabet \<Rightarrow> nat \<Rightarrow> fval \<Rightarrow> nat \<Rightarrow> 's scorer option \<Rightarrow> (string \<times> fval) list \<Rightarrow> 's decoder_state \<Rightarrow> 's decoder_state" where
  "DecoderState_init alphabet bs cp ctn es hw st =
     (let (rt, h) = alloc_pnode (PathTrie_new\<lparr>score := Fin 0 0, log_prob_b_prev := Fin 0 0, timesteps := Some 0\<rparr>) (d_heap st);
          h = (case es of
                 Some s \<Rightarrow> (case s_dictionary s of Some d \<Rightarrow> the (set_dictionary d rt h) | None \<Rightarrow> h)
               | None \<Rightarrow> h)
      in st\<lparr>abs_time_step := 0, space_id := sint (GetSpaceLabel alphabet), blank_id := int (GetSize alphabet),
            beam_size := bs, cutoff_prob := cp, cutoff_top_n := ctn, start_expanding := False,
            ext_scorer := es, hot_words := hw, prefix_root := rt, prefixes := prefixes st @ [rt], d_heap := h\<rparr>)"

subsection \<open>Extending one prefix by one class\<close>

text \<open>The additional log probability of the words of an n-gram on the list of hot words.\<close>

definition hot_boost :: "(string \<times> fval) list \<Rightarrow> string list \<Rightarrow> fval" where
  "hot_boost hw ngram =
     (if hw \<noteq> [] then
        foldl (\<lambda>b word. case map_of hw word of Some v \<Rightarrow> fadd binary32 b v | None \<Rightarrow> b) (Fin 0 0) ngram
      else Fin 0 0)"

text \<open>The external scorer's contribution to \<open>log_p\<close>.\<close>

definition score_extension ::
    "cxx \<Rightarrow> 's scorer option \<Rightarrow> (string \<times> fval) list \<Rightarrow> heap \<Rightarrow> addr \<Rightarrow> addr \<Rightarrow> nat \<Rightarrow> fval \<Rightarrow> fval option" where
  "score_extension env es hw h prefix prefix_new c log_p =
     (case es of
        None \<Rightarrow> Some log_p
      | Some s \<Rightarrow>
          let prefix_to_score = (if is_utf8_mode s then prefix_new else prefix) in do {
            boundary \<leftarrow> is_scoring_boundary (c_ndebug env) s h prefix_to_score c;
            if boundary then do {
              ngram \<leftarrow> make_ngram s h prefix_to_score;
              let bos = (length ngram < max_order s);
              cond \<leftarrow> get_log_cond_prob s ngram bos False;
              let lm_score = to_float (fmul binary64 (fadd binary64 cond (hot_boost hw ngram)) (s_alpha s));
              let log_p = fadd binary32 log_p lm_score;
              Some (to_float (fadd binary64 log_p (s_beta s)))
            }
            else Some log_p
          })"

definition expand_blank :: "libm \<Rightarrow> fval \<Rightarrow> path_trie \<Rightarrow> path_trie" where
  "expand_blank m lpc n =
     (let log_p = fadd binary32 lpc (score n);
          n = (if flt (log_prob_nb_cur n) log_p then n\<lparr>previous_timesteps := None\<rparr> else n)
      in n\<lparr>log_prob_b_cur := log_sum_exp m (log_prob_b_cur n) log_p\<rparr>)"

definition expand_repeat :: "libm \<Rightarrow> fval \<Rightarrow> path_trie \<Rightarrow> path_trie" where
  "expand_repeat m lpc n =
     (let log_p = fadd binary32 lpc (log_prob_nb_prev n);
          n = (if flt (log_prob_nb_cur n) log_p then n\<lparr>previous_timesteps := None\<rparr> else n)
      in n\<lparr>log_prob_nb_cur := log_sum_exp m (log_prob_nb_cur n) log_p\<rparr>)"

text \<open>The probability of the extended path before the external scorer is asked.\<close>

definition extension_log_p :: "nat \<Rightarrow> fval \<Rightarrow> path_trie \<Rightarrow> fval" where
  "extension_log_p c lpc n =
     (if c = unat (character n) \<and> flt neg_flt_inf (log_prob_b_prev n) then fadd binary32 lpc (log_prob_b_prev n)
      else if c \<noteq> unat (character n) then fadd binary32 lpc (score n)
      else neg_flt_inf)"

definition expand_new :: "libm \<Rightarrow> int \<Rightarrow> fval \<Rightarrow> addr option \<Rightarrow> path_trie \<Rightarrow> path_trie" where
  "expand_new m time_step log_p ts n =
     (let n = (if flt (log_prob_nb_cur n) log_p
               then n\<lparr>previous_timesteps := ts, new_timestep := word_of_int time_step\<rparr> else n)
      in n\<lparr>log_prob_nb_cur := log_sum_exp m (log_prob_nb_cur n) log_p\<rparr>)"

definition expand_prefix ::
    "cxx \<Rightarrow> 's decoder_state \<Rightarrow> nat \<Rightarrow> fval \<Rightarrow> addr \<Rightarrow> heap \<Rightarrow> heap option" where
  "expand_prefix env st c lpc prefix h = do {
     n \<leftarrow> pnodes h prefix;
     if \<not> c_ndebug env \<and> timesteps n = None then None
     else if int c = blank_id st mod 2 ^ 64 then
       Some (set_pnode prefix (expand_blank (c_libm env) lpc n) h)
     else do {
       let h = (if c = unat (character n) then set_pnode prefix (expand_repeat (c_libm env) lpc n) h else h);
       (prefix_new, h) \<leftarrow> get_path_trie prefix (of_nat c) lpc True h;
       case prefix_new of
         None \<Rightarrow> Some h
       | Some b \<Rightarrow> do {
           n \<leftarrow> pnodes h prefix;
           log_p \<leftarrow> score_extension env (ext_scorer st) (hot_words st) h prefix b c (extension_log_p c lpc n);
           bn \<leftarrow> pnodes h b;
           Some (set_pnode b (expand_new (c_libm env) (abs_time_step st) log_p (timesteps n) bn) h)
         }
     }
   }"

text \<open>The loop over the prefixes, with its \<^verbatim>\<open>break\<close> and \<^verbatim>\<open>continue\<close>.\<close>

fun expand_loop ::
    "cxx \<Rightarrow> 's decoder_state \<Rightarrow> bool \<Rightarrow> fval \<Rightarrow> nat \<Rightarrow> fval \<Rightarrow> addr list \<Rightarrow> heap \<Rightarrow> heap option" where
  "expand_loop env st full_beam min_cutoff c lpc [] h = Some h"
| "expand_loop env st full_beam min_cutoff c lpc (prefix # ps) h = do {
     n \<leftarrow> pnodes h prefix;
     if full_beam \<and> flt (fadd binary32 lpc (score n)) min_cutoff then Some h
     else if feq (score n) neg_flt_inf then expand_loop env st full_beam min_cutoff c lpc ps h
     else do {
       h \<leftarrow> expand_prefix env st c lpc prefix h;
       expand_loop env st full_beam min_cutoff c lpc ps h
     }
   }"

subsection \<open>One frame\<close>

definition compare_nodes :: "heap \<Rightarrow> addr \<Rightarrow> addr \<Rightarrow> bool" where
  "compare_nodes h x y =
     (case (pnodes h x, pnodes h y) of (Some nx, Some ny) \<Rightarrow> prefix_compare nx ny | _ \<Rightarrow> False)"

definition all_live :: "heap \<Rightarrow> addr list \<Rightarrow> bool" where
  "all_live h ps = list_all (\<lambda>a. pnodes h a \<noteq> None) ps"

text \<open>The beam's threshold when there is an external scorer; the prefixes are partially sorted.\<close>

definition beam_cutoff :: "cxx \<Rightarrow> 's decoder_state \<Rightarrow> fval \<Rightarrow> (addr list \<times> fval \<times> bool) option" where
  "beam_cutoff env st prob_blank =
     (case ext_scorer st of
        None \<Rightarrow> Some (prefixes st, neg_flt_inf, False)
      | Some s \<Rightarrow>
          if \<not> all_live (d_heap st) (prefixes st) then None
          else
            let num_prefixes = min (length (prefixes st)) (beam_size st);
                ps = std_partial_sort (c_stl env) (compare_nodes (d_heap st)) num_prefixes (prefixes st)
            in if num_prefixes = 0 then None
               else do {
                 a \<leftarrow> nth_opt ps (num_prefixes - 1);
                 n \<leftarrow> pnodes (d_heap st) a;
                 let min_cutoff = to_float (fsub binary64 (fadd binary64 (score n) (log_d (c_libm env) prob_blank))
                                    (std_max (Fin 0 0) (s_beta s)));
                 Some (ps, min_cutoff, num_prefixes = beam_size st)
               })"

text \<open>The end of a frame: list the prefixes and keep the best \<open>beam_size\<close> of them.\<close>

definition prune_beam :: "cxx \<Rightarrow> 's decoder_state \<Rightarrow> heap \<Rightarrow> 's decoder_state option" where
  "prune_beam env st h = do {
     (h, ps) \<leftarrow> iterate_to_vec (c_libm env) (prefix_root st) (h, []);
     if beam_size st < length ps then do {
       let ps = std_nth_element (c_stl env) (compare_nodes h) (beam_size st) ps;
       h \<leftarrow> mfold remove (drop (beam_size st) ps) h;
       Some (st\<lparr>d_heap := h, prefixes := take (beam_size st) ps\<rparr>)
     }
     else Some (st\<lparr>d_heap := h, prefixes := ps\<rparr>)
   }"

text \<open>\<open>0.999\<close> as a \<^verbatim>\<open>double\<close>.\<close>

definition blank_threshold :: fval where
  "blank_threshold = Fin 8998192055486251 (-53)"

text \<open>The body of the loop over time once beams are expanded; \<open>prob\<close> is the array from the frame
  on.\<close>

definition expand_frame :: "cxx \<Rightarrow> fval list \<Rightarrow> fval \<Rightarrow> nat \<Rightarrow> 's decoder_state \<Rightarrow> 's decoder_state option" where
  "expand_frame env prob prob_blank class_dim st = do {
     (ps, min_cutoff, full_beam) \<leftarrow> beam_cutoff env st prob_blank;
     let st = st\<lparr>prefixes := ps\<rparr>;
     log_prob_idx \<leftarrow> get_pruned_log_probs (c_libm env) (c_stl env) prob class_dim (cutoff_prob st) (cutoff_top_n st);
     h \<leftarrow> mfold (\<lambda>(c, lpc) h. expand_loop env st full_beam min_cutoff c lpc (take (beam_size st) ps) h)
            log_prob_idx (d_heap st);
     prune_beam env st h
   }"

text \<open>One iteration of the loop over time.\<close>

definition next_frame :: "cxx \<Rightarrow> fval list \<Rightarrow> nat \<Rightarrow> 's decoder_state \<Rightarrow> 's decoder_state option" where
  "next_frame env prob class_dim st = do {
     prob_blank \<leftarrow> (if blank_id st < 0 then None else nth_opt prob (nat (blank_id st)));
     let st = (if flt prob_blank blank_threshold then st\<lparr>start_expanding := True\<rparr> else st);
     st \<leftarrow> (if \<not> start_expanding st then Some st else expand_frame env prob prob_blank class_dim st);
     Some (st\<lparr>abs_time_step := abs_time_step st + 1\<rparr>)
   }"

definition DecoderState_next :: "cxx \<Rightarrow> fval list \<Rightarrow> int \<Rightarrow> nat \<Rightarrow> 's decoder_state \<Rightarrow> 's decoder_state option" where
  "DecoderState_next env probs time_dim class_dim st =
     mfold (\<lambda>rel_time_step st. next_frame env (drop (rel_time_step * class_dim) probs) class_dim st)
       [0..<nat (time_dim mod 2 ^ 64)] st"

subsection \<open>Reading the results\<close>

text \<open>Scoring the last word of a prefix that does not end at a boundary.\<close>

definition decode_score :: "cxx \<Rightarrow> 's scorer \<Rightarrow> heap \<Rightarrow> addr \<Rightarrow> (addr \<Rightarrow> fval) \<Rightarrow> (addr \<Rightarrow> fval) option" where
  "decode_score env s h prefix scores = do {
     n \<leftarrow> pnodes h prefix;
     case (if is_utf8_mode s then Some prefix else parent n) of
       None \<Rightarrow> Some scores
     | Some prefix_boundary \<Rightarrow> do {
         boundary \<leftarrow> is_scoring_boundary (c_ndebug env) s h prefix_boundary (unat (character n));
         if \<not> boundary then do {
           ngram \<leftarrow> make_ngram s h prefix;
           let bos = (length ngram < max_order s);
           cond \<leftarrow> get_log_cond_prob s ngram bos False;
           let lm_score = to_float (fmul binary64 cond (s_alpha s));
           let lm_score = to_float (fadd binary64 lm_score (s_beta s));
           Some (scores(prefix := fadd binary32 (scores prefix) lm_score))
         }
         else Some scores
       }
   }"

definition decode_output :: "cxx \<Rightarrow> heap \<Rightarrow> (addr \<Rightarrow> fval) \<Rightarrow> addr \<Rightarrow> Output option" where
  "decode_output env h scores prefix = do {
     n \<leftarrow> pnodes h prefix;
     toks \<leftarrow> get_path_vec h prefix [];
     times \<leftarrow> get_history h (timesteps n) (Some 0);
     if \<not> c_ndebug env \<and> length toks \<noteq> length times then None
     else Some \<lparr>confidence = scores prefix, tokens = toks, out_timesteps = times\<rparr>
   }"

fun map_option_list :: "('a \<Rightarrow> 'b option) \<Rightarrow> 'a list \<Rightarrow> 'b list option" where
  "map_option_list f [] = Some []"
| "map_option_list f (x # xs) = do { y \<leftarrow> f x; ys \<leftarrow> map_option_list f xs; Some (y # ys) }"

definition prefix_scores :: "heap \<Rightarrow> addr \<Rightarrow> fval" where
  "prefix_scores h a = (case pnodes h a of Some n \<Rightarrow> score n | None \<Rightarrow> Fin 0 0)"

definition DecoderState_decode :: "cxx \<Rightarrow> 's decoder_state \<Rightarrow> nat \<Rightarrow> Output list option" where
  "DecoderState_decode env st num_results =
     (let h = d_heap st in
      if \<not> all_live h (prefixes st) then None
      else do {
        scores \<leftarrow> (case ext_scorer st of
            None \<Rightarrow> Some (prefix_scores h)
          | Some s \<Rightarrow> mfold (decode_score env s h) (take (beam_size st) (prefixes st)) (prefix_scores h));
        let num_returned = min (length (prefixes st)) num_results;
        let ps = std_partial_sort (c_stl env) (prefix_compare_external h scores) num_returned (prefixes st);
        map_option_list (decode_output env h scores) (take num_returned ps)
      })"

subsection \<open>The batch interface\<close>

definition ctc_beam_search_decoder ::
    "cxx \<Rightarrow> fval list \<Rightarrow> int \<Rightarrow> nat \<Rightarrow> alphabet \<Rightarrow> nat \<Rightarrow> fval \<Rightarrow> nat \<Rightarrow> 's scorer option \<Rightarrow> (string \<times> fval) list \<Rightarrow> nat
       \<Rightarrow> Output list option" where
  "ctc_beam_search_decoder env probs time_dim class_dim alphabet bs cp ctn es hw num_results =
     (if GetSize alphabet + 1 \<noteq> class_dim then None
      else do {
        st \<leftarrow> DecoderState_next env probs time_dim class_dim (DecoderState_init alphabet bs cp ctn es hw DecoderState_new);
        DecoderState_decode env st num_results
      })"

text \<open>The results of a batch, in the order of the sequences.  The tasks share only immutable data; that the
  thread pool runs them as if one by one is shown in \<open>Batch_Pool\<close>.\<close>

definition ctc_beam_search_decoder_batch ::
    "cxx \<Rightarrow> fval list \<Rightarrow> nat \<Rightarrow> nat \<Rightarrow> nat \<Rightarrow> int list \<Rightarrow> alphabet \<Rightarrow> nat \<Rightarrow> nat \<Rightarrow> fval \<Rightarrow> nat \<Rightarrow> 's scorer option
       \<Rightarrow> (string \<times> fval) list \<Rightarrow> nat \<Rightarrow> Output list list option" where
  "ctc_beam_search_decoder_batch env probs batch_size time_dim class_dim seq_lengths alphabet bs num_processes cp ctn es hw num_results =
     (if num_processes = 0 \<or> batch_size \<noteq> length seq_lengths then None
      else map_option_list
        (\<lambda>i. ctc_beam_search_decoder env (drop (i * time_dim * class_dim) probs) (seq_lengths ! i) class_dim alphabet
               bs cp ctn es hw num_results)
        [0..<batch_size])"

end
