(* ===== verification/Model_State.thy ===== *)
theory Model_State
  imports Ctc_Decoder
begin

text \<open>
  \<^verbatim>\<open>native_client/modelstate.{h,cc}\<close>: the state of a loaded acoustic model and the
  conversion of decoder results to text and metadata.

  \<^verbatim>\<open>compute_mfcc\<close> and \<^verbatim>\<open>infer\<close> are pure virtual functions of the class; they are fields of
  the record.  A \<^verbatim>\<open>char*\<close> result made by \<^verbatim>\<open>strdup\<close> is the text up to its first zero byte.
\<close>

record 's model_state =
  ms_alphabet :: alphabet
  ms_scorer :: "'s scorer option"
  ms_hot_words :: "(string \<times> fval) list"
  beam_width :: u32
  n_steps :: u32
  n_context :: u32
  n_features :: u32
  mfcc_feats_per_timestep :: u32
  sample_rate :: u32
  audio_win_len :: u32
  audio_win_step :: u32
  state_size :: u32
  compute_mfcc :: "fval list \<Rightarrow> fval list"
  infer :: "fval list \<Rightarrow> nat \<Rightarrow> fval list \<Rightarrow> fval list \<Rightarrow> fval list \<times> fval list \<times> fval list"

text \<open>The constructor, for given virtual functions; an empty alphabet, no scorer, no hot words.\<close>

definition ModelState_new ::
    "alphabet \<Rightarrow> (fval list \<Rightarrow> fval list) \<Rightarrow> (fval list \<Rightarrow> nat \<Rightarrow> fval list \<Rightarrow> fval list \<Rightarrow> fval list \<times> fval list \<times> fval list)
       \<Rightarrow> 's model_state" where
  "ModelState_new al mfcc infr =
     \<lparr>ms_alphabet = al, ms_scorer = None, ms_hot_words = [], beam_width = - 1, n_steps = - 1, n_context = - 1,
      n_features = - 1, mfcc_feats_per_timestep = - 1, sample_rate = - 1, audio_win_len = - 1, audio_win_step = - 1,
      state_size = - 1, compute_mfcc = mfcc, infer = infr\<rparr>"

definition BATCH_SIZE :: nat where
  "BATCH_SIZE = 1"

record token_metadata =
  tm_text :: string
  tm_timestep :: u32
  tm_start_time :: fval

record candidate_transcript =
  ct_tokens :: "token_metadata list"
  ct_confidence :: fval

text \<open>\<^verbatim>\<open>Metadata\<close>: the array of transcripts; \<^verbatim>\<open>num_transcripts\<close> and \<^verbatim>\<open>num_tokens\<close> are the lengths.\<close>

type_synonym metadata = "candidate_transcript list"

definition c_str :: "string \<Rightarrow> string" where
  "c_str s = takeWhile (\<lambda>c. c \<noteq> CHR 0x00) s"

definition ModelState_decode :: "cxx \<Rightarrow> 's model_state \<Rightarrow> 's decoder_state \<Rightarrow> string option" where
  "ModelState_decode env M state = do {
     out \<leftarrow> DecoderState_decode env state 1;
     out0 \<leftarrow> nth_opt out 0;
     s \<leftarrow> Decode (ms_alphabet M) (tokens out0);
     Some (c_str s)
   }"

text \<open>One token: its text, its time step, and the time in seconds at which it starts.\<close>

definition token_of :: "'s model_state \<Rightarrow> u32 \<Rightarrow> u32 \<Rightarrow> token_metadata option" where
  "token_of M tok ts = do {
     s \<leftarrow> DecodeSingle (ms_alphabet M) tok;
     Some \<lparr>tm_text = c_str s, tm_timestep = ts,
       tm_start_time = fmul binary32 (of_integer binary32 (uint ts))
         (fdiv binary32 (of_integer binary32 (uint (audio_win_step M))) (of_integer binary32 (uint (sample_rate M))))\<rparr>
   }"

text \<open>The loop over tokens; it reads the time step at each token's position.\<close>

definition transcript_of :: "'s model_state \<Rightarrow> Output \<Rightarrow> candidate_transcript option" where
  "transcript_of M out = do {
     toks \<leftarrow> map_option_list
       (\<lambda>j. do { ts \<leftarrow> nth_opt (out_timesteps out) j; token_of M (tokens out ! j) ts })
       [0..<length (tokens out)];
     Some \<lparr>ct_tokens = toks, ct_confidence = confidence out\<rparr>
   }"

definition decode_metadata :: "cxx \<Rightarrow> 's model_state \<Rightarrow> 's decoder_state \<Rightarrow> nat \<Rightarrow> metadata option" where
  "decode_metadata env M state num_results = do {
     out \<leftarrow> DecoderState_decode env state num_results;
     map_option_list (transcript_of M) out
   }"

end
