(* ===== verification/Streaming.thy ===== *)
theory Streaming
  imports Model_State
begin

text \<open>
  \<^verbatim>\<open>native_client/deepspeech.cc\<close>: the streaming inference interface.  Audio flows through three
  buffers; every full buffer is processed at once and shifted.

  A stream is a record; the model it points to is an argument.  The loops are partial
  functions: not returning, a shift beyond the end of a buffer and a failed assertion are
  \<open>None\<close>.  Sizes are computed as the code computes them: products of \<^verbatim>\<open>unsigned int\<close> wrap at
  32 bits, differences with a \<^verbatim>\<open>size_t\<close> at 64 bits, and an \<^verbatim>\<open>int\<close> parameter takes the low 32
  bits.
\<close>

section \<open>Streams\<close>

record 's streaming_state =
  audio_buffer :: "fval list"
  mfcc_buffer :: "fval list"
  batch_buffer :: "fval list"
  previous_state_c :: "fval list"
  previous_state_h :: "fval list"
  stream_decoder :: "'s decoder_state"

text \<open>\<^verbatim>\<open>std::rotate\<close> needs its middle within the vector.\<close>

definition shift_buffer_left :: "'a list \<Rightarrow> int \<Rightarrow> 'a list option" where
  "shift_buffer_left buf shift_amount =
     (if shift_amount < 0 \<or> int (length buf) < shift_amount then None
      else Some (take (length buf - nat shift_amount) (rotate (nat shift_amount) buf)))"

text \<open>The elements copied and the rest of the input; a negative amount would step before the
  beginning of the input.\<close>

definition copy_up_to_n :: "'a list \<Rightarrow> int \<Rightarrow> ('a list \<times> 'a list) option" where
  "copy_up_to_n src max_elems =
     (let next_copy_amount = min (int (length src)) max_elems in
      if next_copy_amount < 0 then None
      else Some (take (nat next_copy_amount) src, drop (nat next_copy_amount) src))"

text \<open>\<open>cap - size\<close> for a \<^verbatim>\<open>size_t\<close>, passed as \<^verbatim>\<open>int\<close>.\<close>

definition room_left :: "nat \<Rightarrow> nat \<Rightarrow> int" where
  "room_left cap used = sint (word_of_int ((int cap - int used) mod 2 ^ 64) :: u32)"

definition batch_capacity :: "'s model_state \<Rightarrow> nat" where
  "batch_capacity M = unat (n_steps M * mfcc_feats_per_timestep M)"

definition processBatch ::
    "cxx \<Rightarrow> 's model_state \<Rightarrow> fval list \<Rightarrow> nat \<Rightarrow> 's streaming_state \<Rightarrow> 's streaming_state option" where
  "processBatch env M buf steps st =
     (let (logits, c, h) = infer M buf steps (previous_state_c st) (previous_state_h st);
          st = st\<lparr>previous_state_c := c, previous_state_h := h\<rparr>;
          num_classes = GetSize (ms_alphabet M) + 1;
          n_frames = sint (of_nat (length logits div (BATCH_SIZE * num_classes)) :: u32)
      in do {
        d \<leftarrow> DecoderState_next env logits n_frames num_classes (stream_decoder st);
        Some (st\<lparr>stream_decoder := d\<rparr>)
      })"

text \<open>The end of each loop's body: a full buffer is processed and shifted.\<close>

definition flush_batch :: "cxx \<Rightarrow> 's model_state \<Rightarrow> 's streaming_state \<Rightarrow> 's streaming_state option" where
  "flush_batch env M st =
     (if length (batch_buffer st) = batch_capacity M then do {
        st \<leftarrow> processBatch env M (batch_buffer st) (unat (n_steps M)) st;
        Some (st\<lparr>batch_buffer := []\<rparr>)
      }
      else Some st)"

partial_function (option) processMfccWindow ::
    "cxx \<Rightarrow> 's model_state \<Rightarrow> fval list \<Rightarrow> 's streaming_state \<Rightarrow> 's streaming_state option" where
  "processMfccWindow env M buf st =
     (if buf = [] then Some st
      else do {
        (chunk, rest) \<leftarrow> copy_up_to_n buf (room_left (batch_capacity M) (length (batch_buffer st)));
        let st = st\<lparr>batch_buffer := batch_buffer st @ chunk\<rparr>;
        if \<not> c_ndebug env \<and> batch_capacity M < length (batch_buffer st) then None
        else do {
          st \<leftarrow> flush_batch env M st;
          processMfccWindow env M rest st
        }
      })"

definition flush_mfcc :: "cxx \<Rightarrow> 's model_state \<Rightarrow> 's streaming_state \<Rightarrow> 's streaming_state option" where
  "flush_mfcc env M st =
     (if length (mfcc_buffer st) = unat (mfcc_feats_per_timestep M) then do {
        st \<leftarrow> processMfccWindow env M (mfcc_buffer st) st;
        b \<leftarrow> shift_buffer_left (mfcc_buffer st) (sint (n_features M));
        Some (st\<lparr>mfcc_buffer := b\<rparr>)
      }
      else Some st)"

partial_function (option) pushMfccBuffer ::
    "cxx \<Rightarrow> 's model_state \<Rightarrow> fval list \<Rightarrow> 's streaming_state \<Rightarrow> 's streaming_state option" where
  "pushMfccBuffer env M buf st =
     (if buf = [] then Some st
      else do {
        (chunk, rest) \<leftarrow> copy_up_to_n buf (room_left (unat (mfcc_feats_per_timestep M)) (length (mfcc_buffer st)));
        let st = st\<lparr>mfcc_buffer := mfcc_buffer st @ chunk\<rparr>;
        if \<not> c_ndebug env \<and> unat (mfcc_feats_per_timestep M) < length (mfcc_buffer st) then None
        else do {
          st \<leftarrow> flush_mfcc env M st;
          pushMfccBuffer env M rest st
        }
      })"

definition processAudioWindow ::
    "cxx \<Rightarrow> 's model_state \<Rightarrow> fval list \<Rightarrow> 's streaming_state \<Rightarrow> 's streaming_state option" where
  "processAudioWindow env M buf st = pushMfccBuffer env M (compute_mfcc M buf) st"

definition addZeroMfccWindow :: "cxx \<Rightarrow> 's model_state \<Rightarrow> 's streaming_state \<Rightarrow> 's streaming_state option" where
  "addZeroMfccWindow env M st = pushMfccBuffer env M (replicate (unat (n_features M)) (Fin 0 0)) st"

text \<open>A 16-bit sample as a \<^verbatim>\<open>float\<close> in the range from -1 to 1.\<close>

definition sample_value :: "16 word \<Rightarrow> fval" where
  "sample_value x =
     (let multiplier = fdiv binary32 (Fin 1 0) (of_integer binary32 (2 ^ 15))
      in fmul binary32 (of_integer binary32 (sint x)) multiplier)"

text \<open>The inner loop of \<^verbatim>\<open>feedAudioContent\<close>: the buffer and the samples that are left.\<close>

fun fill_audio :: "nat \<Rightarrow> fval list \<Rightarrow> 16 word list \<Rightarrow> fval list \<times> 16 word list" where
  "fill_audio win_len buf [] = (buf, [])"
| "fill_audio win_len buf (x # samples) =
     (if length buf < win_len then fill_audio win_len (buf @ [sample_value x]) samples
      else (buf, x # samples))"

definition flush_audio :: "cxx \<Rightarrow> 's model_state \<Rightarrow> 's streaming_state \<Rightarrow> 's streaming_state option" where
  "flush_audio env M st =
     (if length (audio_buffer st) = unat (audio_win_len M) then do {
        st \<leftarrow> processAudioWindow env M (audio_buffer st) st;
        b \<leftarrow> shift_buffer_left (audio_buffer st) (sint (audio_win_step M));
        Some (st\<lparr>audio_buffer := b\<rparr>)
      }
      else Some st)"

partial_function (option) feedAudioContent ::
    "cxx \<Rightarrow> 's model_state \<Rightarrow> 16 word list \<Rightarrow> 's streaming_state \<Rightarrow> 's streaming_state option" where
  "feedAudioContent env M samples st =
     (if samples = [] then Some st
      else
        let (buf, samples) = fill_audio (unat (audio_win_len M)) (audio_buffer st) samples;
            st = st\<lparr>audio_buffer := buf\<rparr>
        in do {
          st \<leftarrow> flush_audio env M st;
          feedAudioContent env M samples st
        })"

definition finalizeStream :: "cxx \<Rightarrow> 's model_state \<Rightarrow> 's streaming_state \<Rightarrow> 's streaming_state option" where
  "finalizeStream env M st = do {
     st \<leftarrow> processAudioWindow env M (audio_buffer st) st;
     st \<leftarrow> mfold (\<lambda>_ st. addZeroMfccWindow env M st) [0..<unat (n_context M)] st;
     if 0 < length (batch_buffer st)
     then processBatch env M (batch_buffer st)
            (unat (of_nat (length (batch_buffer st) div unat (mfcc_feats_per_timestep M)) :: u32)) st
     else Some st
   }"

definition intermediateDecode :: "cxx \<Rightarrow> 's model_state \<Rightarrow> 's streaming_state \<Rightarrow> string option" where
  "intermediateDecode env M st = ModelState_decode env M (stream_decoder st)"

definition intermediateDecodeWithMetadata :: "cxx \<Rightarrow> 's model_state \<Rightarrow> nat \<Rightarrow> 's streaming_state \<Rightarrow> metadata option" where
  "intermediateDecodeWithMetadata env M num_results st = decode_metadata env M (stream_decoder st) num_results"

definition finishStream :: "cxx \<Rightarrow> 's model_state \<Rightarrow> 's streaming_state \<Rightarrow> string option" where
  "finishStream env M st = do { st \<leftarrow> finalizeStream env M st; ModelState_decode env M (stream_decoder st) }"

definition finishStreamWithMetadata :: "cxx \<Rightarrow> 's model_state \<Rightarrow> nat \<Rightarrow> 's streaming_state \<Rightarrow> metadata option" where
  "finishStreamWithMetadata env M num_results st = do {
     st \<leftarrow> finalizeStream env M st;
     decode_metadata env M (stream_decoder st) num_results
   }"

section \<open>The public interface\<close>

text \<open>\<open>new_model\<close> makes and initialises the model of the configured backend: the code of its
  \<^verbatim>\<open>init\<close> and the model.  A null path is \<open>None\<close>; the second result is \<open>*retval\<close>.\<close>

definition DS_CreateModel :: "(string \<Rightarrow> int \<times> 's model_state) \<Rightarrow> string option \<Rightarrow> int \<times> 's model_state option" where
  "DS_CreateModel new_model aModelPath =
     (case aModelPath of
        None \<Rightarrow> (ds_code DS_ERR_NO_MODEL, None)
      | Some path \<Rightarrow>
          if length path < 1 then (ds_code DS_ERR_NO_MODEL, None)
          else let (err, model) = new_model path in
            if err \<noteq> ds_code DS_ERR_OK then (err, None) else (ds_code DS_ERR_OK, Some model))"

definition DS_GetModelBeamWidth :: "'s model_state \<Rightarrow> u32" where
  "DS_GetModelBeamWidth M = beam_width M"

definition DS_SetModelBeamWidth :: "u32 \<Rightarrow> 's model_state \<Rightarrow> int \<times> 's model_state" where
  "DS_SetModelBeamWidth w M = (0, M\<lparr>beam_width := w\<rparr>)"

definition DS_GetModelSampleRate :: "'s model_state \<Rightarrow> int" where
  "DS_GetModelSampleRate M = sint (sample_rate M)"

text \<open>A new scorer has the default members of the class; an error leaves the model unchanged.\<close>

definition Scorer_new :: "alphabet \<Rightarrow> 's scorer" where
  "Scorer_new al = \<lparr>s_alpha = Fin 0 0, s_beta = Fin 0 0, s_dictionary = None, language_model = None,
     is_utf8_mode = True, max_order = 0, SPACE_ID = 0, s_alphabet = al, s_char_map = Map.empty\<rparr>"

definition DS_EnableExternalScorer :: "'s lib \<Rightarrow> string \<Rightarrow> 's model_state \<Rightarrow> (int \<times> 's model_state) option" where
  "DS_EnableExternalScorer L aScorerPath M = do {
     (err, scorer) \<leftarrow> Scorer_init L aScorerPath (ms_alphabet M) (Scorer_new (ms_alphabet M));
     Some (if err \<noteq> 0 then (ds_code DS_ERR_INVALID_SCORER, M)
           else (ds_code DS_ERR_OK, M\<lparr>ms_scorer := Some scorer\<rparr>))
   }"

text \<open>\<^verbatim>\<open>unordered_map::insert\<close> does not replace an existing entry.\<close>

definition DS_AddHotWord :: "string \<Rightarrow> fval \<Rightarrow> 's model_state \<Rightarrow> int \<times> 's model_state" where
  "DS_AddHotWord word boost M =
     (if ms_scorer M \<noteq> None then
        let size_before = length (ms_hot_words M);
            hw = (if map_of (ms_hot_words M) word = None then ms_hot_words M @ [(word, boost)] else ms_hot_words M);
            M = M\<lparr>ms_hot_words := hw\<rparr>;
            size_after = length (ms_hot_words M)
        in if size_before = size_after then (ds_code DS_ERR_FAIL_INSERT_HOTWORD, M) else (ds_code DS_ERR_OK, M)
      else (ds_code DS_ERR_SCORER_NOT_ENABLED, M))"

definition DS_EraseHotWord :: "string \<Rightarrow> 's model_state \<Rightarrow> int \<times> 's model_state" where
  "DS_EraseHotWord word M =
     (if ms_scorer M \<noteq> None then
        let size_before = length (ms_hot_words M);
            M = M\<lparr>ms_hot_words := filter (\<lambda>e. fst e \<noteq> word) (ms_hot_words M)\<rparr>;
            size_after = length (ms_hot_words M)
        in if size_before = size_after then (ds_code DS_ERR_FAIL_ERASE_HOTWORD, M) else (ds_code DS_ERR_OK, M)
      else (ds_code DS_ERR_SCORER_NOT_ENABLED, M))"

definition DS_ClearHotWords :: "'s model_state \<Rightarrow> int \<times> 's model_state" where
  "DS_ClearHotWords M =
     (if ms_scorer M \<noteq> None then
        let M = M\<lparr>ms_hot_words := []\<rparr>;
            size_after = length (ms_hot_words M)
        in if size_after \<noteq> 0 then (ds_code DS_ERR_FAIL_CLEAR_HOTWORD, M) else (ds_code DS_ERR_OK, M)
      else (ds_code DS_ERR_SCORER_NOT_ENABLED, M))"

definition DS_DisableExternalScorer :: "'s model_state \<Rightarrow> int \<times> 's model_state" where
  "DS_DisableExternalScorer M =
     (if ms_scorer M \<noteq> None then (ds_code DS_ERR_OK, M\<lparr>ms_scorer := None\<rparr>)
      else (ds_code DS_ERR_SCORER_NOT_ENABLED, M))"

text \<open>The scorer is shared: \<open>streams\<close> are the open streams whose decoder holds the same scorer,
  and they see the new weights too.\<close>

definition DS_SetScorerAlphaBeta ::
    "fval \<Rightarrow> fval \<Rightarrow> 's model_state \<times> 's streaming_state list \<Rightarrow> int \<times> 's model_state \<times> 's streaming_state list" where
  "DS_SetScorerAlphaBeta aAlpha aBeta s =
     (case s of (M, streams) \<Rightarrow>
        (case ms_scorer M of
           Some sc \<Rightarrow>
             let sc = reset_params aAlpha aBeta sc in
             (ds_code DS_ERR_OK, M\<lparr>ms_scorer := Some sc\<rparr>,
              map (\<lambda>st. st\<lparr>stream_decoder := (stream_decoder st)\<lparr>ext_scorer := Some sc\<rparr>\<rparr>) streams)
         | None \<Rightarrow> (ds_code DS_ERR_SCORER_NOT_ENABLED, M, streams)))"

definition DS_CreateStream :: "'s model_state \<Rightarrow> int \<times> 's streaming_state option" where
  "DS_CreateStream M =
     (let cutoff_top_n = 40; cutoff_prob = Fin 1 0 in
      (ds_code DS_ERR_OK,
       Some \<lparr>audio_buffer = [],
             mfcc_buffer = replicate (unat (n_features M * n_context M)) (Fin 0 0),
             batch_buffer = [],
             previous_state_c = replicate (unat (state_size M)) (Fin 0 0),
             previous_state_h = replicate (unat (state_size M)) (Fin 0 0),
             stream_decoder = DecoderState_init (ms_alphabet M) (unat (beam_width M)) cutoff_prob cutoff_top_n
               (ms_scorer M) (ms_hot_words M) DecoderState_new\<rparr>))"

definition DS_FeedAudioContent ::
    "cxx \<Rightarrow> 's model_state \<Rightarrow> 16 word list \<Rightarrow> 's streaming_state \<Rightarrow> 's streaming_state option" where
  "DS_FeedAudioContent env M samples st = feedAudioContent env M samples st"

definition DS_IntermediateDecode :: "cxx \<Rightarrow> 's model_state \<Rightarrow> 's streaming_state \<Rightarrow> string option" where
  "DS_IntermediateDecode env M st = intermediateDecode env M st"

definition DS_IntermediateDecodeWithMetadata :: "cxx \<Rightarrow> 's model_state \<Rightarrow> u32 \<Rightarrow> 's streaming_state \<Rightarrow> metadata option" where
  "DS_IntermediateDecodeWithMetadata env M aNumResults st = intermediateDecodeWithMetadata env M (unat aNumResults) st"

text \<open>Finishing a stream frees it: no state is returned.\<close>

definition DS_FinishStream :: "cxx \<Rightarrow> 's model_state \<Rightarrow> 's streaming_state \<Rightarrow> string option" where
  "DS_FinishStream env M st = finishStream env M st"

definition DS_FinishStreamWithMetadata :: "cxx \<Rightarrow> 's model_state \<Rightarrow> u32 \<Rightarrow> 's streaming_state \<Rightarrow> metadata option" where
  "DS_FinishStreamWithMetadata env M aNumResults st = finishStreamWithMetadata env M (unat aNumResults) st"

text \<open>The outer option is a crash, the inner one the null pointer.\<close>

definition CreateStreamAndFeedAudioContent ::
    "cxx \<Rightarrow> 's model_state \<Rightarrow> 16 word list \<Rightarrow> 's streaming_state option option" where
  "CreateStreamAndFeedAudioContent env M samples =
     (case DS_CreateStream M of
        (status, ctx) \<Rightarrow>
          if status \<noteq> ds_code DS_ERR_OK then Some None
          else do {
            st \<leftarrow> ctx;
            st \<leftarrow> DS_FeedAudioContent env M samples st;
            Some (Some st)
          })"

definition DS_SpeechToText :: "cxx \<Rightarrow> 's model_state \<Rightarrow> 16 word list \<Rightarrow> string option" where
  "DS_SpeechToText env M samples = do {
     ctx \<leftarrow> CreateStreamAndFeedAudioContent env M samples;
     st \<leftarrow> ctx;
     DS_FinishStream env M st
   }"

definition DS_SpeechToTextWithMetadata :: "cxx \<Rightarrow> 's model_state \<Rightarrow> 16 word list \<Rightarrow> u32 \<Rightarrow> metadata option" where
  "DS_SpeechToTextWithMetadata env M samples aNumResults = do {
     ctx \<leftarrow> CreateStreamAndFeedAudioContent env M samples;
     st \<leftarrow> ctx;
     DS_FinishStreamWithMetadata env M aNumResults st
   }"

end
