(* ===== verification/Sliding_Window.thy ===== *)
theory Sliding_Window
  imports Prelude
begin

text \<open>
  Buffers that are filled element by element, processed when full and then shifted: the shape of
  the three buffers of a stream.  The windows of a whole sequence are the specification; the
  locales state what a stage has to satisfy for its loop to compute them, however the
  sequence is cut into pieces.
\<close>

section \<open>The windows of a sequence\<close>

text \<open>The consecutive windows of length \<open>len\<close>, each \<open>step\<close> after the one before, and what remains
  from the start of the first incomplete one on.\<close>

function windows :: "nat \<Rightarrow> nat \<Rightarrow> 'a list \<Rightarrow> 'a list list" where
  "windows len step xs =
     (if length xs < len \<or> len = 0 \<or> step = 0 then [] else take len xs # windows len step (drop step xs))"
  by pat_completeness auto
termination by (relation "measure (\<lambda>(len, step, xs). length xs)") auto

function leftover :: "nat \<Rightarrow> nat \<Rightarrow> 'a list \<Rightarrow> 'a list" where
  "leftover len step xs =
     (if length xs < len \<or> len = 0 \<or> step = 0 then xs else leftover len step (drop step xs))"
  by pat_completeness auto
termination by (relation "measure (\<lambda>(len, step, xs). length xs)") auto

declare windows.simps [simp del] leftover.simps [simp del]

lemma windows_short [simp]: "length xs < len \<Longrightarrow> windows len step xs = []"
  by (simp add: windows.simps)

lemma leftover_short [simp]: "length xs < len \<Longrightarrow> leftover len step xs = xs"
  by (simp add: leftover.simps)

lemma windows_step: "0 < step \<Longrightarrow> 0 < len \<Longrightarrow> len \<le> length xs \<Longrightarrow>
    windows len step xs = take len xs # windows len step (drop step xs)"
  by (simp add: windows.simps [of len step xs])

lemma leftover_step: "0 < step \<Longrightarrow> 0 < len \<Longrightarrow> len \<le> length xs \<Longrightarrow>
    leftover len step xs = leftover len step (drop step xs)"
  by (simp add: leftover.simps [of len step xs])

lemma leftover_less: "0 < len \<Longrightarrow> 0 < step \<Longrightarrow> length (leftover len step xs) < len"
proof (induction len step xs rule: leftover.induct)
  case (1 len step xs)
  then show ?case by (cases "length xs < len") (simp_all add: leftover_step)
qed

lemma windows_length: "w \<in> set (windows len step xs) \<Longrightarrow> length w = len"
proof (induction len step xs rule: windows.induct)
  case (1 len step xs)
  then show ?case by (cases "length xs < len \<or> len = 0 \<or> step = 0") (auto simp: windows.simps [of len step xs])
qed

lemma windows_append:
  "0 < step \<Longrightarrow> step \<le> len \<Longrightarrow>
     windows len step (xs @ ys) = windows len step xs @ windows len step (leftover len step xs @ ys)
   \<and> leftover len step (xs @ ys) = leftover len step (leftover len step xs @ ys)"
proof (induction len step xs rule: windows.induct)
  case (1 len step xs)
  show ?case
  proof (cases "length xs < len")
    case True
    then show ?thesis by simp
  next
    case False
    have "drop step (xs @ ys) = drop step xs @ ys" "take len (xs @ ys) = take len xs" using False "1.prems" by simp_all
    then show ?thesis using False 1 by (simp add: windows_step leftover_step)
  qed
qed

text \<open>Window \<open>i\<close> starts at \<open>i * step\<close>.\<close>

lemma windows_nth:
  "i < length (windows len step xs) \<Longrightarrow> windows len step xs ! i = take len (drop (i * step) xs)"
proof (induction len step xs arbitrary: i rule: windows.induct)
  case (1 len step xs)
  show ?case
  proof (cases "length xs < len \<or> len = 0 \<or> step = 0")
    case True
    then have "windows len step xs = []" by (simp add: windows.simps)
    with "1.prems" show ?thesis by simp
  next
    case False
    then have w: "windows len step xs = take len xs # windows len step (drop step xs)" by (simp add: windows_step)
    show ?thesis
    proof (cases i)
      case 0
      then show ?thesis using w by simp
    next
      case (Suc j)
      then have "windows len step xs ! i = take len (drop (j * step) (drop step xs))" using 1 False w by simp
      then show ?thesis using Suc by (simp add: add.commute)
    qed
  qed
qed

text \<open>A window lies within the sequence, and there is one wherever it fits.\<close>

lemma windows_count:
  assumes "0 < step" "0 < len"
  shows "length (windows len step xs) = (if length xs < len then 0 else (length xs - len) div step + 1)"
proof (induction xs rule: length_induct)
  case (1 xs)
  show ?case
  proof (cases "length xs < len")
    case True
    then show ?thesis by simp
  next
    case False
    have eq: "length (windows len step xs) = Suc (length (windows len step (drop step xs)))"
      using False assms by (simp add: windows_step)
    have rest: "length (windows len step (drop step xs)) =
        (if length xs - step < len then 0 else (length xs - step - len) div step + 1)"
      using "1.IH" [rule_format, of "drop step xs"] False assms by simp
    show ?thesis
    proof (cases "length xs - step < len")
      case True
      then have "length xs - len < step" using False by linarith
      then show ?thesis using eq rest True False by simp
    next
      case more: False
      have "length xs - len = (length xs - step - len) + step" using more assms by linarith
      then have "(length xs - len) div step = (length xs - step - len) div step + 1" using assms(1) by (metis add.commute div_add_self2 less_numeral_extra(3))
      then show ?thesis using eq rest False more by simp
    qed
  qed
qed

text \<open>Adjacent windows partition what they cover.\<close>

lemma concat_windows_adjacent:
  "0 < len \<Longrightarrow> concat (windows len len xs) @ leftover len len xs = xs"
proof (induction xs rule: length_induct)
  case (1 xs)
  show ?case
  proof (cases "length xs < len")
    case True
    then show ?thesis by simp
  next
    case False
    then have "concat (windows len len (drop len xs)) @ leftover len len (drop len xs) = drop len xs"
      using 1 by simp
    then show ?thesis using False 1 by (simp add: windows_step leftover_step append.assoc)
  qed
qed

text \<open>Windows that start and end at the boundaries of equal blocks are windows of blocks.\<close>

lemma windows_blocks:
  assumes "0 < n" "0 < k"
  shows "list_all (\<lambda>b. length b = n) bs \<Longrightarrow> windows (k * n) n (concat bs) = map concat (windows k 1 bs)"
proof (induction bs rule: length_induct)
  case (1 bs)
  have len: "length (concat bs') = length bs' * n" if "list_all (\<lambda>b. length b = n) bs'" for bs' :: "'a list list"
    using that by (induction bs') simp_all
  show ?case
  proof (cases "length bs < k")
    case True
    then show ?thesis using len [OF "1.prems"] assms by simp
  next
    case False
    then obtain b bs' where bs: "bs = b # bs'" using assms(2) by (cases bs) auto
    have ok: "length b = n" "list_all (\<lambda>b. length b = n) bs'" using "1.prems" bs by simp_all
    have ok_take: "list_all (\<lambda>b. length b = n) (take k bs)"
      using "1.prems" set_take_subset [of k bs] by (auto simp: list_all_iff)
    have "length (concat (take k bs)) = k * n" using len [OF ok_take] False by simp
    moreover have "concat bs = concat (take k bs) @ concat (drop k bs)" by (simp flip: concat_append)
    ultimately have first: "take (k * n) (concat bs) = concat (take k bs)" by simp
    have "k * n \<le> length (concat bs)" using len [OF "1.prems"] False by simp
    then have "windows (k * n) n (concat bs) = concat (take k bs) # windows (k * n) n (concat bs')"
      using windows_step [of n "k * n" "concat bs"] assms first ok(1) bs by simp
    moreover have "windows k 1 bs = take k bs # windows k 1 bs'" using windows_step [of 1 k bs] assms False bs by simp
    ultimately show ?thesis using "1.IH" ok(2) bs by simp
  qed
qed

section \<open>One buffer of a state\<close>

text \<open>A buffer of a state, read by \<open>get\<close> and written by \<open>put\<close>.  What a stage emits does not touch
  its own buffer.  \<open>ok\<close> are the parameters for which the window is sensible.\<close>

locale window_stage =
  fixes get :: "'st \<Rightarrow> 'a list" and put :: "'a list \<Rightarrow> 'st \<Rightarrow> 'st"
    and emit :: "'p \<Rightarrow> 'a list \<Rightarrow> 'st \<Rightarrow> 'st option"
    and len :: "'p \<Rightarrow> nat" and step :: "'p \<Rightarrow> nat" and ok :: "'p \<Rightarrow> bool"
  assumes get_put: "get (put b s) = b"
    and put_get: "put (get s) s = s"
    and put_put: "put b (put c s) = put b s"
    and emit_put: "emit p w (put b s) = map_option (put b) (emit p w s)"
    and step_ok: "ok p \<Longrightarrow> 0 < step p \<and> step p \<le> len p"
begin

lemma emit_get:
  assumes "emit p w s = Some t"
  shows "get t = get s"
proof -
  have "emit p w s = map_option (put (get s)) (emit p w s)" using emit_put [of p w "get s" s] put_get by simp
  then have "t = put (get s) t" using assms by simp
  then show ?thesis by (metis get_put)
qed

lemma emits_put: "mfold (emit p) ws (put b s) = map_option (put b) (mfold (emit p) ws s)"
proof (induction ws arbitrary: s)
  case Nil
  show ?case by simp
next
  case (Cons w ws)
  then show ?case by (cases "emit p w s") (simp_all add: emit_put)
qed

lemma len_pos: "ok p \<Longrightarrow> 0 < len p"
  using step_ok [of p] by linarith

end

text \<open>A loop that fills the buffer as far as it can, processes it when it is full, and shifts it.\<close>

locale window_loop = window_stage get put emit len step ok
  for get :: "'st \<Rightarrow> 'a list" and put :: "'a list \<Rightarrow> 'st \<Rightarrow> 'st"
    and emit :: "'p \<Rightarrow> 'a list \<Rightarrow> 'st \<Rightarrow> 'st option"
    and len :: "'p \<Rightarrow> nat" and step :: "'p \<Rightarrow> nat" and ok :: "'p \<Rightarrow> bool" +
  fixes conv :: "'b \<Rightarrow> 'a" and loop :: "'p \<Rightarrow> 'b list \<Rightarrow> 'st \<Rightarrow> 'st option"
  assumes loop_Nil: "loop p [] s = Some s"
    and loop_fill: "ok p \<Longrightarrow> length (get s) < len p \<Longrightarrow> xs \<noteq> [] \<Longrightarrow>
      loop p xs s =
        (let k = len p - length (get s); b = get s @ map conv (take k xs) in
         if length b = len p
         then Option.bind (emit p b (put b s)) (\<lambda>t. loop p (drop k xs) (put (drop (step p) (get t)) t))
         else loop p (drop k xs) (put b s))"
begin

text \<open>The loop emits exactly the windows of the buffer followed by the input, and keeps the rest.\<close>

lemma loop_windows:
  assumes "ok p" and "length (get s) < len p"
  shows "loop p xs s =
    map_option (put (leftover (len p) (step p) (get s @ map conv xs)))
      (mfold (emit p) (windows (len p) (step p) (get s @ map conv xs)) s)"
  using assms(2)
proof (induction xs arbitrary: s rule: length_induct)
  case (1 xs)
  let ?k = "len p - length (get s)"
  let ?b = "get s @ map conv (take ?k xs)"
  show ?case
  proof (cases "length xs < ?k")
    case True
    show ?thesis
    proof (cases "xs = []")
      case True
      then show ?thesis using 1 by (simp add: loop_Nil put_get)
    next
      case False
      have all: "take ?k xs = xs" "drop ?k xs = []" "length (get s @ map conv xs) \<noteq> len p" using True by simp_all
      then have "loop p xs s = loop p [] (put (get s @ map conv xs) s)"
        using loop_fill [OF assms(1) "1.prems" False] unfolding Let_def all(1,2) by (simp only: if_False)
      then show ?thesis using True by (simp add: loop_Nil)
    qed
  next
    case False
    then have ne: "xs \<noteq> []" and lb: "length ?b = len p" using "1.prems" by auto
    have b: "get s @ map conv xs = ?b @ map conv (drop ?k xs)" by (simp flip: map_append)
    let ?rest = "drop (step p) ?b @ map conv (drop ?k xs)"
    have st: "0 < step p" "step p \<le> len p" using step_ok [OF assms(1)] by simp_all
    have win: "windows (len p) (step p) (get s @ map conv xs) = ?b # windows (len p) (step p) ?rest"
      unfolding b using windows_step [of "step p" "len p" "?b @ map conv (drop ?k xs)"] st lb len_pos [OF assms(1)] by simp
    have left: "leftover (len p) (step p) (get s @ map conv xs) = leftover (len p) (step p) ?rest"
      unfolding b using leftover_step [of "step p" "len p" "?b @ map conv (drop ?k xs)"] st lb len_pos [OF assms(1)] by simp
    show ?thesis
    proof (cases "emit p ?b s")
      case None
      then show ?thesis using loop_fill [OF assms(1) "1.prems" ne] lb win by (simp add: Let_def emit_put del: length_append length_map)
    next
      case (Some t)
      have shorter: "length (drop ?k xs) < length xs" "length (drop (step p) ?b) < len p"
        using lb st ne "1.prems" unfolding length_drop lb by (cases xs; auto)+
      have "loop p xs s = loop p (drop ?k xs) (put (drop (step p) ?b) t)"
        using loop_fill [OF assms(1) "1.prems" ne] lb Some
        by (simp add: Let_def emit_put get_put put_put del: length_append length_map)
      also have "\<dots> = map_option (put (leftover (len p) (step p) ?rest))
          (mfold (emit p) (windows (len p) (step p) ?rest) (put (drop (step p) ?b) t))"
        using "1.IH" [rule_format, of "drop ?k xs" "put (drop (step p) ?b) t"] shorter unfolding get_put by blast
      finally show ?thesis using Some
        by (simp add: win left emits_put option.map_comp comp_def put_put del: length_append length_map)
    qed
  qed
qed

lemma loop_bound: "ok p \<Longrightarrow> length (get s) < len p \<Longrightarrow> loop p xs s = Some t \<Longrightarrow> length (get t) < len p"
  using loop_windows [of p s xs] leftover_less [of "len p" "step p"] step_ok [of p] len_pos [of p] by (auto simp: get_put)

lemma loop_append:
  assumes "ok p" and "length (get s) < len p"
  shows "loop p (xs @ ys) s = Option.bind (loop p xs s) (loop p ys)"
proof -
  let ?w = "windows (len p) (step p)" and ?l = "leftover (len p) (step p)" and ?b = "get s @ map conv xs"
  have st: "0 < step p" "step p \<le> len p" using step_ok [OF assms(1)] by simp_all
  have app: "?w (?b @ map conv ys) = ?w ?b @ ?w (?l ?b @ map conv ys)" "?l (?b @ map conv ys) = ?l (?l ?b @ map conv ys)"
    using windows_append [OF st, of ?b "map conv ys"] by simp_all
  show ?thesis
  proof (cases "mfold (emit p) (?w ?b) s")
    case None
    then show ?thesis using loop_windows [OF assms, of xs] loop_windows [OF assms, of "xs @ ys"] app by (simp add: mfold_append)
  next
    case (Some t)
    then have xs: "loop p xs s = Some (put (?l ?b) t)" using loop_windows [OF assms, of xs] by simp
    have "length (get (put (?l ?b) t)) < len p" using leftover_less [OF len_pos [OF assms(1)] st(1)] by (simp add: get_put)
    then have "loop p ys (put (?l ?b) t) = map_option (put (?l (?l ?b @ map conv ys))) (mfold (emit p) (?w (?l ?b @ map conv ys)) (put (?l ?b) t))"
      using loop_windows [OF assms(1), of "put (?l ?b) t" ys] by (simp add: get_put)
    then show ?thesis using loop_windows [OF assms, of "xs @ ys"] app xs Some
      by (simp add: mfold_append emits_put option.map_comp comp_def put_put)
  qed
qed

lemma loop_concat:
  assumes "ok p"
  shows "length (get s) < len p \<Longrightarrow> mfold (\<lambda>w. loop p (f w)) ws s = loop p (concat (map f ws)) s"
proof (induction ws arbitrary: s)
  case Nil
  show ?case by (simp add: loop_Nil)
next
  case (Cons w ws)
  show ?case
  proof (cases "loop p (f w) s")
    case None
    then show ?thesis using loop_append [OF assms Cons.prems] by simp
  next
    case (Some t)
    then show ?thesis using loop_append [OF assms Cons.prems] Cons.IH loop_bound [OF assms Cons.prems Some] by simp
  qed
qed

end

end
