(* ===== verification/Dictionary_Build.thy ===== *)
theory Dictionary_Build
  imports Scorer
begin

text \<open>
  The automaton that \<^verbatim>\<open>Scorer::fill_dictionary\<close> builds, before it is simplified, accepts
  exactly the label sequences of the words of the vocabulary.
\<close>

section \<open>Acceptance\<close>

definition arcs_of :: "vector_fst \<Rightarrow> nat \<Rightarrow> arc list" where
  "arcs_of F s = (if s < length (vstates F) then snd (vstates F ! s) else [])"

definition final_of :: "vector_fst \<Rightarrow> nat \<Rightarrow> bool" where
  "final_of F s \<longleftrightarrow> s < length (vstates F) \<and> fst (vstates F ! s)"

fun accepts :: "vector_fst \<Rightarrow> nat \<Rightarrow> int list \<Rightarrow> bool" where
  "accepts F s [] = final_of F s"
| "accepts F s (c # w) = list_ex (\<lambda>a. ilabel a = c \<and> accepts F (nat (nextstate a)) w) (arcs_of F s)"

lemma accepts_cong:
  assumes agree: "\<And>s. P s \<Longrightarrow> arcs_of F' s = arcs_of F s \<and> final_of F' s = final_of F s"
    and closed: "\<And>s a. P s \<Longrightarrow> a \<in> set (arcs_of F s) \<Longrightarrow> P (nat (nextstate a))"
    and "P s"
  shows "accepts F' s w = accepts F s w"
  using \<open>P s\<close>
proof (induction w arbitrary: s)
  case Nil
  then show ?case using agree by simp
next
  case (Cons c w)
  then show ?case using agree [of s] closed [of s] by (auto simp: list_ex_iff)
qed

section \<open>Growing the automaton\<close>

text \<open>An automaton under construction: it has no state, or starts at state 0; arcs lead to
  existing later states.\<close>

definition fst_wf :: "vector_fst \<Rightarrow> bool" where
  "fst_wf F \<longleftrightarrow> (vstates F \<noteq> [] \<longrightarrow> vstart F = 0) \<and>
     (\<forall>s<length (vstates F). \<forall>a\<in>set (arcs_of F s). int s < nextstate a \<and> nextstate a < int (length (vstates F)))"

lemma add_arc_states:
  assumes "src < length (vstates F)"
  shows "arcs_of (AddArc src a (snd (AddState F))) s =
      (if s = src then arcs_of F src @ [a] else arcs_of F s)"
    and "final_of (AddArc src a (snd (AddState F))) s = final_of F s"
    and "length (vstates (AddArc src a (snd (AddState F)))) = Suc (length (vstates F))"
    and "vstart (AddArc src a (snd (AddState F))) = vstart F"
  using assms by (auto simp: AddArc_def AddState_def arcs_of_def final_of_def nth_append nth_list_update)

lemma SetFinal_states:
  assumes "dst < length (vstates F)"
  shows "arcs_of (SetFinal dst F) s = arcs_of F s" and "final_of (SetFinal dst F) s \<longleftrightarrow> final_of F s \<or> s = dst"
    and "length (vstates (SetFinal dst F)) = length (vstates F)" and "vstart (SetFinal dst F) = vstart F"
  using assms by (auto simp: SetFinal_def arcs_of_def final_of_def nth_list_update)

lemma fst_wf_SetFinal: "dst < length (vstates F) \<Longrightarrow> fst_wf F \<Longrightarrow> fst_wf (SetFinal dst F)"
  unfolding fst_wf_def by (subst SetFinal_states, assumption)+ (auto simp: SetFinal_def)

lemma fst_wf_add_arc:
  assumes wf: "fst_wf F" and src: "src < length (vstates F)"
  shows "fst_wf (AddArc src \<lparr>ilabel = l, nextstate = int (length (vstates F))\<rparr> (snd (AddState F)))" (is "fst_wf ?F")
proof -
  note st = add_arc_states [OF src]
  have "vstart ?F = 0" using wf src by (auto simp: fst_wf_def st)
  moreover have "int s < nextstate a \<and> nextstate a < int (Suc (length (vstates F)))"
    if s: "s < Suc (length (vstates F))" and a: "a \<in> set (arcs_of ?F s)" for s a
  proof (cases "s = src \<and> a = \<lparr>ilabel = l, nextstate = int (length (vstates F))\<rparr>")
    case True
    with src show ?thesis by simp
  next
    case False
    with a have a': "a \<in> set (arcs_of F s)" by (auto simp: st split: if_splits)
    then have "s < length (vstates F)" by (auto simp: arcs_of_def split: if_splits)
    with wf a' show ?thesis by (fastforce simp: fst_wf_def)
  qed
  ultimately show ?thesis unfolding fst_wf_def st(3) by blast
qed

text \<open>Adding a word from the last state, when that state has no arcs and is not final: the
  states before it stay as they were and the word is all that leads from it to a final state.\<close>

lemma add_word_chain:
  assumes "fst_wf F" "vstates F \<noteq> []" and "n = length (vstates F) - 1" and "arcs_of F n = []" "\<not> final_of F n"
    and "add_word_arcs word n F = (dst, F1)"
  shows "dst < length (vstates F1) \<and> fst_wf (SetFinal dst F1) \<and> length (vstates F) \<le> length (vstates F1) \<and> vstart F1 = vstart F
    \<and> (\<forall>s<n. arcs_of (SetFinal dst F1) s = arcs_of F s \<and> final_of (SetFinal dst F1) s = final_of F s)
    \<and> (\<forall>w. accepts (SetFinal dst F1) n w \<longleftrightarrow> w = map sint word)"
  using assms
proof (induction word arbitrary: n F)
  case Nil
  from Nil.prems(6) have eq: "dst = n" "F1 = F" by simp_all
  have len: "n < length (vstates F)" using Nil.prems(2,3) by simp
  note st = SetFinal_states [OF len]
  have "accepts (SetFinal n F) n w \<longleftrightarrow> w = []" for w
    using Nil.prems(4) by (cases w) (simp_all add: st)
  moreover have "arcs_of (SetFinal n F) s = arcs_of F s \<and> final_of (SetFinal n F) s = final_of F s" if "s < n" for s
    using that by (simp add: st)
  ultimately show ?case using len fst_wf_SetFinal [OF len Nil.prems(1)] unfolding eq by simp
next
  case (Cons c word)
  let ?a = "\<lparr>ilabel = sint c, nextstate = int (length (vstates F))\<rparr>"
  let ?F = "AddArc n ?a (snd (AddState F))"
  have n: "n < length (vstates F)" using Cons.prems(2,3) by simp
  note st = add_arc_states [OF n, of ?a]
  have wf: "fst_wf ?F" by (rule fst_wf_add_arc [OF Cons.prems(1) n])
  have step: "add_word_arcs word (length (vstates F)) ?F = (dst, F1)"
    using Cons.prems(6) by (simp add: AddState_def)
  have new: "arcs_of ?F (length (vstates F)) = []" "\<not> final_of ?F (length (vstates F))"
    unfolding st using n by (simp_all add: arcs_of_def final_of_def)
  have ne: "vstates ?F \<noteq> []" using st(3) by (metis Zero_not_Suc list.size(3))
  note IH = Cons.IH [OF wf ne _ new step]
  have "arcs_of (SetFinal dst F1) n = [?a]" using IH st(1,3) n Cons.prems(4) by simp
  moreover have "\<not> final_of (SetFinal dst F1) n" using IH st(2,3) n Cons.prems(5) by simp
  ultimately have "accepts (SetFinal dst F1) n w \<longleftrightarrow> w = map sint (c # word)" for w
    using IH st(3) by (cases w) auto
  then show ?case using IH st n by simp
qed

lemma accepts_none: "arcs_of F s = [] \<Longrightarrow> \<not> final_of F s \<Longrightarrow> \<not> accepts F s w"
  by (cases w) simp_all

text \<open>The start state gets one more branch.\<close>

lemma add_word_branch:
  assumes wf: "fst_wf F" and ne: "vstates F \<noteq> []" and add: "add_word_arcs (c # word) 0 F = (dst, F1)"
  shows "fst_wf (SetFinal dst F1) \<and> vstates (SetFinal dst F1) \<noteq> []
    \<and> (\<forall>w. accepts (SetFinal dst F1) 0 w \<longleftrightarrow> accepts F 0 w \<or> w = map sint (c # word))"
proof -
  let ?n = "length (vstates F)" and ?a = "\<lparr>ilabel = sint c, nextstate = int (length (vstates F))\<rparr>"
  let ?F = "AddArc 0 ?a (snd (AddState F))" and ?G = "SetFinal dst F1"
  have n: "0 < length (vstates F)" using ne by simp
  note st = add_arc_states [OF n, of ?a]
  have wf': "fst_wf ?F" by (rule fst_wf_add_arc [OF wf n])
  have step: "add_word_arcs word ?n ?F = (dst, F1)" using add by (simp add: AddState_def)
  have ne': "vstates ?F \<noteq> []" using st(3) by (metis Zero_not_Suc list.size(3))
  have new: "arcs_of ?F ?n = []" "\<not> final_of ?F ?n"
    unfolding st using n by (simp_all add: arcs_of_def final_of_def)
  note ch = add_word_chain [OF wf' ne' _ new step]
  have frame: "arcs_of ?G s = arcs_of F s \<and> final_of ?G s = final_of F s" if "0 < s \<and> s < ?n" for s
    using ch st that by simp
  have zero: "arcs_of ?G 0 = arcs_of F 0 @ [?a]" "final_of ?G 0 = final_of F 0" using ch st n by auto
  have old: "accepts ?G s w = accepts F s w" if "0 < s \<and> s < ?n" for s w
    by (rule accepts_cong [where P = "\<lambda>s. 0 < s \<and> s < ?n", OF frame _ that]) (use wf in \<open>force simp: fst_wf_def\<close>)+
  have targets: "0 < nat (nextstate a) \<and> nat (nextstate a) < ?n" if "a \<in> set (arcs_of F 0)" for a
    using wf n that by (force simp: fst_wf_def)
  have fresh: "accepts ?G ?n w \<longleftrightarrow> w = map sint word" for w using ch st(3) by simp
  have "accepts ?G 0 w \<longleftrightarrow> accepts F 0 w \<or> w = map sint (c # word)" for w
  proof (cases w)
    case Nil
    then show ?thesis using zero by simp
  next
    case (Cons d v)
    have "(ilabel a = d \<and> accepts ?G (nat (nextstate a)) v) = (ilabel a = d \<and> accepts F (nat (nextstate a)) v)"
      if "a \<in> set (arcs_of F 0)" for a
      using old [OF targets [OF that]] by simp
    then have "list_ex (\<lambda>a. ilabel a = d \<and> accepts ?G (nat (nextstate a)) v) (arcs_of F 0) = accepts F 0 w"
      unfolding Cons by (auto simp: list_ex_iff)
    then show ?thesis using Cons zero fresh by auto
  qed
  moreover have "dst < length (vstates F1)" using ch st(3) by simp
  then have "vstates ?G \<noteq> []" using SetFinal_states(3) [of dst F1] by force
  ultimately show ?thesis using ch st(3) by simp
qed

text \<open>What the automaton accepts from its start.\<close>

definition language :: "vector_fst \<Rightarrow> int list set" where
  "language F = {w. accepts F 0 w}"

lemma empty_language: "language empty_fst = {}" "fst_wf empty_fst"
proof -
  have "\<not> accepts empty_fst 0 w" for w by (rule accepts_none) (simp_all add: empty_fst_def arcs_of_def final_of_def)
  then show "language empty_fst = {}" by (simp add: language_def)
  show "fst_wf empty_fst" by (simp add: fst_wf_def empty_fst_def)
qed

lemma add_word_to_fst_language:
  assumes wf: "fst_wf F" and word: "word \<noteq> []"
  shows "\<exists>F'. add_word_to_fst word F = Some F' \<and> fst_wf F' \<and> language F' = insert (map sint word) (language F)"
proof -
  obtain c cs where cs: "word = c # cs" using word by (cases word) auto
  let ?F = "if vstates F = [] then (let (start, F) = AddState F in F\<lparr>vstart := int start\<rparr>) else F"
  have F: "fst_wf ?F \<and> vstates ?F \<noteq> [] \<and> vstart ?F = 0 \<and> language ?F = language F"
  proof (cases "vstates F = []")
    case True
    let ?E = "F\<lparr>vstates := [(False, [])], vstart := 0\<rparr>"
    have "\<not> accepts F 0 w" for w by (rule accepts_none) (use True in \<open>simp_all add: arcs_of_def final_of_def\<close>)
    moreover have "\<not> accepts ?E 0 w" for w by (rule accepts_none) (simp_all add: arcs_of_def final_of_def)
    moreover have "fst_wf ?E" by (simp add: fst_wf_def arcs_of_def)
    ultimately show ?thesis using True by (simp add: AddState_def language_def)
  next
    case False
    then show ?thesis using wf by (simp add: fst_wf_def)
  qed
  obtain dst F1 where add: "add_word_arcs (c # cs) 0 ?F = (dst, F1)" by fastforce
  have "add_word_to_fst word F = Some (SetFinal dst F1)"
    using F add unfolding add_word_to_fst_def cs by (simp add: Let_def split del: if_split)
  moreover have "language (SetFinal dst F1) = insert (map sint word) (language F)"
    using add_word_branch [OF _ _ add] F by (auto simp: language_def cs)
  ultimately show ?thesis using add_word_branch [OF _ _ add] F by auto
qed

section \<open>The decoder's automaton\<close>

fun const_accepts :: "const_fst \<Rightarrow> int \<Rightarrow> int list \<Rightarrow> bool" where
  "const_accepts d s [] = fst_final d s"
| "const_accepts d s (c # w) = list_ex (\<lambda>a. ilabel a = c \<and> const_accepts d (nextstate a) w) (fst_arcs d s)"

definition const_language :: "const_fst \<Rightarrow> int list set" where
  "const_language d = {w. const_accepts d (fst_start d) w}"

definition fst_language :: "vector_fst \<Rightarrow> int list set" where
  "fst_language F = const_language (to_const_fst F)"

lemma to_const_fst_states:
  "fst_final (to_const_fst F) (int s) = final_of F s" "fst_arcs (to_const_fst F) (int s) = arcs_of F s"
  by (simp_all add: to_const_fst_def final_of_def arcs_of_def)

lemma const_accepts_to_const:
  assumes wf: "fst_wf F"
  shows "const_accepts (to_const_fst F) (int s) w = accepts F s w"
proof (induction w arbitrary: s)
  case Nil
  show ?case by (simp add: to_const_fst_states)
next
  case (Cons c w)
  have "const_accepts (to_const_fst F) (nextstate a) w = accepts F (nat (nextstate a)) w" if a: "a \<in> set (arcs_of F s)" for a
  proof -
    have "s < length (vstates F)" using a by (auto simp: arcs_of_def split: if_splits)
    then have "0 \<le> nextstate a" using wf a by (fastforce simp: fst_wf_def)
    then show ?thesis using Cons [of "nat (nextstate a)"] by simp
  qed
  then show ?case by (auto simp: to_const_fst_states list_ex_iff)
qed

lemma fst_language_wf:
  assumes wf: "fst_wf F" shows "fst_language F = language F"
proof (cases "vstates F = []")
  case True
  have "fst_arcs (to_const_fst F) s = []" "\<not> fst_final (to_const_fst F) s" for s
    using True by (auto simp: to_const_fst_def)
  then have "\<not> const_accepts (to_const_fst F) s w" for s w by (cases w) simp_all
  moreover have "\<not> accepts F 0 w" for w by (rule accepts_none) (use True in \<open>simp_all add: arcs_of_def final_of_def\<close>)
  ultimately show ?thesis by (simp add: fst_language_def const_language_def language_def)
next
  case False
  then have "fst_start (to_const_fst F) = int 0" using wf by (simp add: fst_wf_def to_const_fst_def)
  then show ?thesis using const_accepts_to_const [OF wf, of 0]
    by (simp add: fst_language_def const_language_def language_def)
qed

section \<open>The whole vocabulary\<close>

text \<open>The label sequence of a word: the labels of its characters shifted by one, followed by
  the space label unless the model works on bytes.\<close>

definition dictionary_entry :: "'s scorer \<Rightarrow> string \<Rightarrow> int list option" where
  "dictionary_entry s word =
     (if word \<in> {START_TOKEN, UNK_TOKEN, END_TOKEN} then None
      else map_option (\<lambda>ls. map sint (if is_utf8_mode s then ls else ls @ [word_of_int (SPACE_ID s + 1)]))
        (word_to_labels (s_char_map s) (if is_utf8_mode s then split_into_bytes word else split_into_codepoints word)))"

definition dictionary_words :: "'s scorer \<Rightarrow> string list \<Rightarrow> int list set" where
  "dictionary_words s vocabulary = {w. \<exists>word\<in>set vocabulary. dictionary_entry s word = Some w}"

lemma word_to_labels_length: "word_to_labels m cs = Some ls \<Longrightarrow> length ls = length cs"
  by (induction cs arbitrary: ls) (auto split: Option.bind_splits)

lemma split_into_bytes_nonempty: "word \<noteq> [] \<Longrightarrow> split_into_bytes word \<noteq> []"
proof -
  have "length (split_into_bytes_loop str result) = length str + length result" for str result
    by (induction str arbitrary: result) simp_all
  from this [of word "[]"] show "word \<noteq> [] \<Longrightarrow> split_into_bytes word \<noteq> []"
    by (auto simp: split_into_bytes_def)
qed

lemma fill_step_language:
  assumes wf: "fst_wf F" and word: "is_utf8_mode s \<longrightarrow> word \<noteq> []"
  shows "\<exists>F'. fill_step s word F = Some F' \<and> fst_wf F' \<and> language F' = language F \<union> dictionary_words s [word]"
proof (cases "word \<in> {START_TOKEN, UNK_TOKEN, END_TOKEN}")
  case True
  then have "fill_step s word F = Some F" "dictionary_words s [word] = {}"
    by (auto simp: fill_step_def dictionary_words_def dictionary_entry_def)
  then show ?thesis using wf by simp
next
  case special: False
  let ?cs = "if is_utf8_mode s then split_into_bytes word else split_into_codepoints word"
  show ?thesis
  proof (cases "word_to_labels (s_char_map s) ?cs")
    case None
    then have "fill_step s word F = Some F" "dictionary_words s [word] = {}"
      using special by (simp_all add: fill_step_def dictionary_words_def dictionary_entry_def add_word_to_dictionary_def)
    then show ?thesis using wf by simp
  next
    case (Some ls)
    let ?w = "if is_utf8_mode s then ls else ls @ [word_of_int (SPACE_ID s + 1)]"
    have "?w \<noteq> []" using word word_to_labels_length [OF Some] split_into_bytes_nonempty [of word] by auto
    then obtain F' where F': "add_word_to_fst ?w F = Some F'" "fst_wf F'" "language F' = insert (map sint ?w) (language F)"
      using add_word_to_fst_language [OF wf, of ?w] by blast
    moreover have "dictionary_words s [word] = {map sint ?w}"
      using special Some by (auto simp: dictionary_words_def dictionary_entry_def)
    moreover have "fill_step s word F = Some F'"
      using special Some F'(1) by (simp add: fill_step_def add_word_to_dictionary_def)
    ultimately show ?thesis by simp
  qed
qed

lemma fill_loop_language:
  assumes "fst_wf F" and "is_utf8_mode s \<longrightarrow> [] \<notin> set vocabulary"
  shows "\<exists>F'. mfold (fill_step s) vocabulary F = Some F' \<and> fst_wf F' \<and> language F' = language F \<union> dictionary_words s vocabulary"
  using assms
proof (induction vocabulary arbitrary: F)
  case Nil
  then show ?case by (simp add: dictionary_words_def)
next
  case (Cons word vocabulary)
  obtain F1 where F1: "fill_step s word F = Some F1" "fst_wf F1" "language F1 = language F \<union> dictionary_words s [word]"
    using fill_step_language [OF Cons.prems(1), of s word] Cons.prems(2) by auto
  obtain F2 where "mfold (fill_step s) vocabulary F1 = Some F2" "fst_wf F2" "language F2 = language F1 \<union> dictionary_words s vocabulary"
    using Cons.IH [OF F1(2)] Cons.prems(2) by auto
  then show ?case using F1 by (auto simp: dictionary_words_def)
qed

text \<open>What the decoder relies on of the three OpenFst algorithms: they keep the language.\<close>

definition fst_simplifiers_ok :: "'s lib \<Rightarrow> bool" where
  "fst_simplifiers_ok L \<longleftrightarrow> (\<forall>F. fst_language (RmEpsilon L F) = fst_language F
     \<and> fst_language (Determinize L F) = fst_language F \<and> fst_language (Minimize L F) = fst_language F)"

lemma fill_dictionary_accepts:
  assumes "fst_simplifiers_ok L" and "is_utf8_mode s \<longrightarrow> [] \<notin> set vocabulary"
  shows "\<exists>d. fill_dictionary L vocabulary s = Some (s\<lparr>s_dictionary := Some d\<rparr>)
    \<and> const_language d = dictionary_words s vocabulary"
proof -
  obtain F where F: "mfold (fill_step s) vocabulary empty_fst = Some F" "fst_wf F" "language F = dictionary_words s vocabulary"
    using fill_loop_language [OF empty_language(2) assms(2)] empty_language(1) by auto
  let ?d = "to_const_fst (Minimize L (Determinize L (RmEpsilon L F)))"
  have "const_language ?d = dictionary_words s vocabulary"
    using assms(1) fst_language_wf [OF F(2)] F(3) by (simp add: fst_simplifiers_ok_def fst_language_def [symmetric])
  moreover have "fill_dictionary L vocabulary s = Some (s\<lparr>s_dictionary := Some ?d\<rparr>)"
    using F(1) by (simp add: fill_dictionary_def)
  ultimately show ?thesis by blast
qed


text \<open>The empty word is the exception: a byte-based scorer reads an uninitialised state for it.\<close>

lemma fill_dictionary_empty_word:
  assumes "is_utf8_mode s" shows "fill_dictionary L ([] # vocabulary) s = None"
  using assms by (simp add: fill_dictionary_def fill_step_def add_word_to_dictionary_def add_word_to_fst_def
      split_into_bytes_def START_TOKEN_def UNK_TOKEN_def END_TOKEN_def)

definition id_lib :: "unit lib" where
  "id_lib = \<lparr>RmEpsilon = (\<lambda>F. F), Determinize = (\<lambda>F. F), Minimize = (\<lambda>F. F),
     fst_read = (\<lambda>pos bs. None), fst_write = (\<lambda>pos d. []), double_bytes = (\<lambda>x. replicate 8 CHR 0x00),
     bytes_double = (\<lambda>bs. Fin 0 0), access_R_OK = (\<lambda>p. True), file_contents = (\<lambda>p. []),
     RecognizeBinary = (\<lambda>p. True),
     LoadVirtual = (\<lambda>p. \<lparr>lm_order = 3, begin_sentence = (), null_context = (), vocab_index = (\<lambda>w. 0),
        end_sentence = 2, base_score = (\<lambda>s w. (Fin 0 0, ())), end_of_search_offset = 0\<rparr>)\<rparr>"

definition ab_space_alphabet :: alphabet where
  "ab_space_alphabet = \<lparr>asize = 3, space_label = 2, label_to_str = [0 \<mapsto> ''a'', 1 \<mapsto> ''b'', 2 \<mapsto> '' ''],
     str_to_label = [''a'' \<mapsto> 0, ''b'' \<mapsto> 1, '' '' \<mapsto> 2]\<rparr>"

definition ab_scorer :: "unit scorer" where
  "ab_scorer = \<lparr>s_alpha = Fin 0 0, s_beta = Fin 0 0, s_dictionary = None, language_model = None,
     is_utf8_mode = False, max_order = 3, SPACE_ID = 2, s_alphabet = ab_space_alphabet,
     s_char_map = [''a'' \<mapsto> 1, ''b'' \<mapsto> 2, '' '' \<mapsto> 3]\<rparr>"


end
