(* ===== verification/Trie_Invariant.thy ===== *)
theory Trie_Invariant
  imports Path_Trie
begin

text \<open>
  The structural invariant of the prefix trie, stated on the skeleton of the store (parent
  pointer, label and child list of each node) so that updates of scores and time steps leave
  it alone by construction.  A set of detached addresses covers the states inside
  \<^verbatim>\<open>PathTrie::remove\<close>, where a node is unlinked from its parent before it is freed.
\<close>

section \<open>Skeletons\<close>

record skel =
  sk_parent :: "addr option"
  sk_char :: u32
  sk_children :: "(u32 \<times> addr) list"

definition skel_of :: "path_trie \<Rightarrow> skel" where
  "skel_of n = \<lparr>sk_parent = parent n, sk_char = character n, sk_children = children n\<rparr>"

definition skeleton :: "heap \<Rightarrow> addr \<rightharpoonup> skel" where
  "skeleton h = (\<lambda>a. map_option skel_of (pnodes h a))"

definition skel_wf :: "addr set \<Rightarrow> addr \<Rightarrow> addr \<Rightarrow> (addr \<rightharpoonup> skel) \<Rightarrow> bool" where
  "skel_wf S r N f \<longleftrightarrow>
     (\<exists>s. f r = Some s \<and> r \<notin> S \<and> sk_parent s = None \<and> sk_char s = ROOT) \<and>
     (\<forall>a\<in>dom f. a < N) \<and>
     (\<forall>a s. f a = Some s \<longrightarrow> a \<notin> S \<longrightarrow> a \<noteq> r \<longrightarrow>
        sk_char s \<noteq> ROOT \<and>
        (\<exists>p ps. sk_parent s = Some p \<and> p \<notin> S \<and> p < a \<and> f p = Some ps \<and> (sk_char s, a) \<in> set (sk_children ps))) \<and>
     (\<forall>a s. f a = Some s \<longrightarrow> a \<notin> S \<longrightarrow>
        distinct (map fst (sk_children s)) \<and>
        (\<forall>c b. (c, b) \<in> set (sk_children s) \<longrightarrow>
           b \<notin> S \<and> (\<exists>bs. f b = Some bs \<and> sk_parent bs = Some a \<and> sk_char bs = c)))"

text \<open>A well-formed trie: the skeleton is well formed with nothing detached, and a node with
  a dictionary holds a pointer to it.\<close>

definition dict_ok :: "heap \<Rightarrow> bool" where
  "dict_ok h \<longleftrightarrow> (\<forall>a n. pnodes h a = Some n \<longrightarrow> has_dictionary n \<longrightarrow> dictionary n \<noteq> None)"

definition trie_wf :: "addr \<Rightarrow> heap \<Rightarrow> bool" where
  "trie_wf r h \<longleftrightarrow> skel_wf {} r (pnext h) (skeleton h) \<and> dict_ok h"

lemma skeleton_Some [heap_simps]:
  "skeleton h a = Some s \<longleftrightarrow> (\<exists>n. pnodes h a = Some n \<and> s = skel_of n)"
  by (auto simp: skeleton_def)

lemma skeleton_None [heap_simps]: "skeleton h a = None \<longleftrightarrow> pnodes h a = None"
  by (simp add: skeleton_def)

lemma skel_of_sel [simp]:
  "sk_parent (skel_of n) = parent n" "sk_char (skel_of n) = character n" "sk_children (skel_of n) = children n"
  by (simp_all add: skel_of_def)

lemma skeleton_set_pnode [heap_simps]: "skeleton (set_pnode a n h) = (skeleton h)(a \<mapsto> skel_of n)"
  by (auto simp: skeleton_def set_pnode_def)

lemma set_pnode_sel [heap_simps]:
  "pnodes (set_pnode a n h) = (pnodes h)(a \<mapsto> n)" "pnext (set_pnode a n h) = pnext h"
  "tnodes (set_pnode a n h) = tnodes h" "tnext (set_pnode a n h) = tnext h"
  by (simp_all add: set_pnode_def)

lemma skeleton_set_same [heap_simps]:
  "pnodes h a = Some n \<Longrightarrow> skel_of n' = skel_of n \<Longrightarrow> skeleton (set_pnode a n' h) = skeleton h"
  by (auto simp: skeleton_def set_pnode_def)

lemma skel_wfD:
  assumes "skel_wf S r N f"
  shows skel_wf_root: "\<exists>s. f r = Some s \<and> sk_parent s = None \<and> sk_char s = ROOT"
    and skel_wf_root_attached: "r \<notin> S"
    and skel_wf_bound: "f a = Some s \<Longrightarrow> a < N"
    and skel_wf_parent: "f a = Some s \<Longrightarrow> a \<notin> S \<Longrightarrow> a \<noteq> r \<Longrightarrow>
      sk_char s \<noteq> ROOT \<and> (\<exists>p ps. sk_parent s = Some p \<and> p \<notin> S \<and> p < a \<and> f p = Some ps \<and> (sk_char s, a) \<in> set (sk_children ps))"
    and skel_wf_distinct: "f a = Some s \<Longrightarrow> a \<notin> S \<Longrightarrow> distinct (map fst (sk_children s))"
    and skel_wf_child: "f a = Some s \<Longrightarrow> a \<notin> S \<Longrightarrow> (c, b) \<in> set (sk_children s) \<Longrightarrow>
      b \<notin> S \<and> (\<exists>bs. f b = Some bs \<and> sk_parent bs = Some a \<and> sk_char bs = c)"
  using assms unfolding skel_wf_def by blast+

lemma skel_wf_child_gt:
  assumes "skel_wf S r N f" and "f a = Some s" "a \<notin> S" "(c, b) \<in> set (sk_children s)"
  shows "b \<noteq> r" "a < b"
proof -
  obtain bs where b: "b \<notin> S" "f b = Some bs" "sk_parent bs = Some a"
    using skel_wf_child [OF assms] by blast
  show "b \<noteq> r" using skel_wf_root [OF assms(1)] b by auto
  with skel_wf_parent [OF assms(1) b(2,1)] b(3) show "a < b" by auto
qed

section \<open>Parent-linked stores\<close>

text \<open>What the trie and the tree of time steps have in common: following parent pointers
  always reaches smaller addresses.\<close>

locale parent_linked =
  fixes inv :: "'h \<Rightarrow> bool" and par :: "'h \<Rightarrow> addr \<Rightarrow> addr option"
  assumes par_less: "inv h \<Longrightarrow> par h a = Some p \<Longrightarrow> p < a"
begin

lemma up_induct:
  assumes "inv h" and "\<And>a. (\<And>p. par h a = Some p \<Longrightarrow> P p) \<Longrightarrow> P a"
  shows "P a"
proof (induction a rule: less_induct)
  case (less a)
  show ?case by (rule assms(2)) (blast intro: less par_less [OF assms(1)])
qed

lemma acyclic_par: "inv h \<Longrightarrow> acyclic {(a, p). par h a = Some p}"
proof (rule acyclic_subset)
  show "acyclic ({(a, p). p < a} :: (addr \<times> addr) set)"
    by (rule acyclicI_order [where f = "\<lambda>a. a"]) auto
  show "{(a, p). par h a = Some p} \<subseteq> {(a, p). p < a}" if "inv h"
    using par_less [OF that] by auto
qed

end

section \<open>The three changes of shape\<close>

text \<open>Linking a fresh leaf.\<close>

lemma skel_wf_add:
  assumes wf: "skel_wf {} r N f" and a: "f a = Some s" and c: "c \<notin> fst ` set (sk_children s)" "c \<noteq> ROOT"
  shows "skel_wf {} r (N + 1)
    (f(a \<mapsto> s\<lparr>sk_children := sk_children s @ [(c, N)]\<rparr>, N \<mapsto> \<lparr>sk_parent = Some a, sk_char = c, sk_children = []\<rparr>))"
    (is "skel_wf {} r (N + 1) ?g")
proof -
  have fresh: "f N = None" using skel_wf_bound [OF wf] by (metis less_irrefl not_None_eq)
  have aN: "a < N" using skel_wf_bound [OF wf a] .
  have keep: "\<exists>t. ?g b = Some t \<and> sk_parent t = sk_parent bs \<and> sk_char t = sk_char bs \<and> set (sk_children bs) \<subseteq> set (sk_children t)"
    if "f b = Some bs" for b bs
    using that fresh a by auto
  have "\<exists>s. ?g r = Some s \<and> r \<notin> {} \<and> sk_parent s = None \<and> sk_char s = ROOT"
    using skel_wf_root [OF wf] keep by (metis empty_iff)
  moreover have "\<forall>b\<in>dom ?g. b < N + 1"
    using skel_wf_bound [OF wf] aN by (auto simp: less_Suc_eq split: if_splits)
  moreover have "sk_char t \<noteq> ROOT \<and> (\<exists>p ps. sk_parent t = Some p \<and> p \<notin> {} \<and> p < b \<and> ?g p = Some ps \<and> (sk_char t, b) \<in> set (sk_children ps))"
    if b: "?g b = Some t" "b \<noteq> r" for b t
  proof (cases "b = N")
    case True
    with b c aN show ?thesis by auto
  next
    case False
    with b(1) obtain bs where bs: "f b = Some bs" "sk_parent t = sk_parent bs" "sk_char t = sk_char bs"
      using a by (auto split: if_splits)
    obtain p ps where p: "sk_char bs \<noteq> ROOT" "sk_parent bs = Some p" "p < b" "f p = Some ps"
      "(sk_char bs, b) \<in> set (sk_children ps)"
      using skel_wf_parent [OF wf bs(1) _ b(2)] by blast
    from keep [OF p(4)] obtain qs where "?g p = Some qs" "set (sk_children ps) \<subseteq> set (sk_children qs)" by blast
    with p bs(2,3) show ?thesis by auto
  qed
  moreover have "distinct (map fst (sk_children t)) \<and>
      (\<forall>d e. (d, e) \<in> set (sk_children t) \<longrightarrow> e \<notin> {} \<and> (\<exists>bs. ?g e = Some bs \<and> sk_parent bs = Some b \<and> sk_char bs = d))"
    if b: "?g b = Some t" for b t
  proof (cases "b = N")
    case True
    with b have "sk_children t = []" by auto
    then show ?thesis by simp
  next
    case False
    have child: "\<exists>es. ?g e = Some es \<and> sk_parent es = Some b \<and> sk_char es = d"
      if "f b = Some bs" "(d, e) \<in> set (sk_children bs)" for bs d e
      using skel_wf_child [OF wf that(1) _ that(2)] keep by (metis empty_iff)
    show ?thesis
    proof (cases "b = a")
      case True
      with b False have t: "t = s\<lparr>sk_children := sk_children s @ [(c, N)]\<rparr>" by auto
      have "\<exists>bs. ?g e = Some bs \<and> sk_parent bs = Some b \<and> sk_char bs = d"
        if "(d, e) \<in> set (sk_children t)" for d e
        using that t True child [of s d e] a by auto
      then show ?thesis using c t skel_wf_distinct [OF wf a] by auto
    next
      case neq: False
      with b False have "f b = Some t" by auto
      then show ?thesis using child skel_wf_distinct [OF wf] by blast
    qed
  qed
  ultimately show ?thesis unfolding skel_wf_def by blast
qed

text \<open>Unlinking a leaf from its parent, and freeing an unlinked node.\<close>

lemma erase_child_set:
  "distinct (map fst cs) \<Longrightarrow> set (erase_child ch cs) = {c \<in> set cs. fst c \<noteq> ch}"
  by (induction cs) (auto intro: rev_image_eqI)

lemma erase_child_distinct: "distinct (map fst cs) \<Longrightarrow> distinct (map fst (erase_child ch cs))"
  by (induction cs) (auto simp: erase_child_set)

lemma child_unique:
  assumes "distinct (map fst cs)" and "(c, a) \<in> set cs" and "(c, b) \<in> set cs"
  shows "a = b"
  using assms by (metis eq_key_imp_eq_value)

lemma skel_wf_detach:
  assumes wf: "skel_wf S r N f" and a: "f a = Some s" "a \<notin> S" "a \<noteq> r" "sk_children s = []"
    and p: "sk_parent s = Some p" "f p = Some ps"
  shows "skel_wf (insert a S) r N (f(p \<mapsto> ps\<lparr>sk_children := erase_child (sk_char s) (sk_children ps)\<rparr>))"
    (is "skel_wf ?S r N ?g")
proof -
  have pS: "p \<notin> S" "p < a" "(sk_char s, a) \<in> set (sk_children ps)"
    using skel_wf_parent [OF wf a(1,2,3)] p by auto
  have dp: "distinct (map fst (sk_children ps))" using skel_wf_distinct [OF wf p(2) pS(1)] .
  have keep: "\<exists>t. ?g b = Some t \<and> sk_parent t = sk_parent bs \<and> sk_char t = sk_char bs" if "f b = Some bs" for b bs
    using that p(2) by auto
  have "\<exists>s. ?g r = Some s \<and> r \<notin> ?S \<and> sk_parent s = None \<and> sk_char s = ROOT"
    using skel_wf_root [OF wf] skel_wf_root_attached [OF wf] a(3) keep by (metis insert_iff)
  moreover have "\<forall>b\<in>dom ?g. b < N"
    using skel_wf_bound [OF wf] p(2) by auto
  moreover have "sk_char t \<noteq> ROOT \<and> (\<exists>q qs. sk_parent t = Some q \<and> q \<notin> ?S \<and> q < b \<and> ?g q = Some qs \<and> (sk_char t, b) \<in> set (sk_children qs))"
    if b: "?g b = Some t" "b \<notin> ?S" "b \<noteq> r" for b t
  proof -
    obtain bs where bs: "f b = Some bs" "sk_parent t = sk_parent bs" "sk_char t = sk_char bs"
      using b(1) p(2) by (auto split: if_splits)
    obtain q qs where q: "sk_char bs \<noteq> ROOT" "sk_parent bs = Some q" "q \<notin> S" "q < b" "f q = Some qs"
      "(sk_char bs, b) \<in> set (sk_children qs)"
      using skel_wf_parent [OF wf bs(1) _ b(3)] b(2) by blast
    have "q \<noteq> a" using q(5,6) a(1,4) by auto
    moreover have "q = p \<Longrightarrow> sk_char bs \<noteq> sk_char s"
      using child_unique [OF dp pS(3)] q(5,6) p(2) b(2) by auto
    ultimately show ?thesis using q bs p(2) dp by (auto simp: erase_child_set)
  qed
  moreover have "distinct (map fst (sk_children t)) \<and>
      (\<forall>d e. (d, e) \<in> set (sk_children t) \<longrightarrow> e \<notin> ?S \<and> (\<exists>bs. ?g e = Some bs \<and> sk_parent bs = Some b \<and> sk_char bs = d))"
    if b: "?g b = Some t" "b \<notin> ?S" for b t
  proof -
    have bS: "b \<notin> S" using b(2) by simp
    obtain bs where bs: "f b = Some bs"
      "sk_children t = (if b = p then erase_child (sk_char s) (sk_children bs) else sk_children bs)"
      using b(1) p(2) by (auto split: if_splits)
    have "e \<notin> ?S \<and> (\<exists>es. ?g e = Some es \<and> sk_parent es = Some b \<and> sk_char es = d)"
      if e: "(d, e) \<in> set (sk_children t)" for d e
    proof -
      have e': "(d, e) \<in> set (sk_children bs)" "b = p \<Longrightarrow> d \<noteq> sk_char s"
        using e bs dp p(2) by (auto simp: erase_child_set split: if_splits)
      obtain es where es: "e \<notin> S" "f e = Some es" "sk_parent es = Some b" "sk_char es = d"
        using skel_wf_child [OF wf bs(1) bS e'(1)] by blast
      have "e \<noteq> a" using es a(1) p(1) e'(2) by auto
      with es keep [OF es(2)] show ?thesis by auto
    qed
    moreover have "distinct (map fst (sk_children t))"
      using skel_wf_distinct [OF wf bs(1) bS] bs(2) by (simp add: erase_child_distinct)
    ultimately show ?thesis by blast
  qed
  ultimately show ?thesis unfolding skel_wf_def by blast
qed

lemma skel_wf_free:
  assumes wf: "skel_wf (insert a S) r N f"
  shows "skel_wf S r N (f(a := None))" (is "skel_wf S r N ?g")
proof -
  have ra: "r \<noteq> a" "r \<notin> S" using skel_wf_root_attached [OF wf] by auto
  have "\<exists>s. ?g r = Some s \<and> r \<notin> S \<and> sk_parent s = None \<and> sk_char s = ROOT"
    using skel_wf_root [OF wf] ra by auto
  moreover have "\<forall>b\<in>dom ?g. b < N" using skel_wf_bound [OF wf] by auto
  moreover have "sk_char t \<noteq> ROOT \<and> (\<exists>p ps. sk_parent t = Some p \<and> p \<notin> S \<and> p < b \<and> ?g p = Some ps \<and> (sk_char t, b) \<in> set (sk_children ps))"
    if "?g b = Some t" "b \<notin> S" "b \<noteq> r" for b t
    using skel_wf_parent [OF wf, of b t] that by (auto split: if_splits)
  moreover have "distinct (map fst (sk_children t)) \<and>
      (\<forall>d e. (d, e) \<in> set (sk_children t) \<longrightarrow> e \<notin> S \<and> (\<exists>bs. ?g e = Some bs \<and> sk_parent bs = Some b \<and> sk_char bs = d))"
    if "?g b = Some t" "b \<notin> S" for b t
    using skel_wf_distinct [OF wf, of b t] skel_wf_child [OF wf, of b t] that by (fastforce split: if_splits)
  ultimately show ?thesis unfolding skel_wf_def by blast
qed

end
