(* ===== verification/Trie_Ops.thy ===== *)
theory Trie_Ops
  imports Trie_Invariant
begin

text \<open>
  The operations of the prefix trie on well-formed stores: every node has a path, paths
  identify nodes, \<^verbatim>\<open>get_path_trie\<close> extends a path by one label, \<^verbatim>\<open>iterate_to_vec\<close> lists the
  existing nodes, and \<^verbatim>\<open>remove\<close> frees only what it may.
\<close>

section \<open>Paths\<close>

inductive has_path :: "(addr \<rightharpoonup> skel) \<Rightarrow> addr \<Rightarrow> u32 list \<Rightarrow> bool" for f where
  top: "f a = Some s \<Longrightarrow> sk_parent s = None \<Longrightarrow>
    has_path f a (if sk_char s \<noteq> ROOT then [sk_char s] else [])"
| up: "f a = Some s \<Longrightarrow> sk_parent s = Some p \<Longrightarrow> has_path f p xs \<Longrightarrow>
    has_path f a (xs @ (if sk_char s \<noteq> ROOT then [sk_char s] else []))"

inductive_cases has_path_cases: "has_path f a xs"

lemma has_path_live: "has_path f a xs \<Longrightarrow> \<exists>s. f a = Some s"
  by (auto elim: has_path_cases)

lemma has_path_unique: "has_path f a xs \<Longrightarrow> has_path f a ys \<Longrightarrow> xs = ys"
proof (induction arbitrary: ys rule: has_path.induct)
  case (top a s)
  from top.prems top.hyps show ?case by (cases rule: has_path_cases) auto
next
  case (up a s p xs)
  from up.prems show ?case
  proof (cases rule: has_path.cases)
    case (top s')
    with up.hyps show ?thesis by simp
  next
    case (up s' p' xs')
    with up.hyps have "s' = s" "p' = p" by auto
    with up.IH [of xs'] up show ?thesis by simp
  qed
qed

text \<open>\<^verbatim>\<open>get_path_vec\<close> appends exactly the path of the node.\<close>

lemma has_path_get_path_vec:
  "has_path (skeleton h) a xs \<Longrightarrow> get_path_vec h a out = Some (out @ xs)"
proof (induction arbitrary: out rule: has_path.induct)
  case (top a s)
  then show ?case by (subst get_path_vec.simps) (auto simp: heap_simps)
next
  case (up a s p xs)
  then show ?case by (subst get_path_vec.simps) (auto simp: heap_simps)
qed

lemma has_path_shape_cong:
  assumes "has_path f a xs"
    and "\<And>b s. f b = Some s \<Longrightarrow> \<exists>t. g b = Some t \<and> sk_parent t = sk_parent s \<and> sk_char t = sk_char s"
  shows "has_path g a xs"
  using assms(1)
proof (induction rule: has_path.induct)
  case (top a s)
  with assms(2) [of a s] show ?case by (metis has_path.top)
next
  case (up a s p xs)
  with assms(2) [of a s] show ?case by (metis has_path.up)
qed

lemma has_path_total:
  assumes wf: "skel_wf S r N f" and "f a = Some s" "a \<notin> S"
  shows "\<exists>xs. has_path f a xs"
  using assms(2,3)
proof (induction a arbitrary: s rule: less_induct)
  case (less a)
  show ?case
  proof (cases "a = r")
    case True
    then show ?thesis using skel_wf_root [OF wf] by (blast intro: has_path.top)
  next
    case False
    then obtain p ps where "sk_parent s = Some p" "p \<notin> S" "p < a" "f p = Some ps"
      using skel_wf_parent [OF wf less.prems] by blast
    with less.IH [of p ps] show ?thesis using less.prems(1) by (blast intro: has_path.up)
  qed
qed

lemma has_path_root:
  assumes "skel_wf S r N f" shows "has_path f r []"
proof -
  obtain s where "f r = Some s" "sk_parent s = None" "sk_char s = ROOT"
    using skel_wf_root [OF assms] by blast
  with has_path.top [of f r s] show ?thesis by simp
qed

lemma has_path_child:
  assumes wf: "skel_wf S r N f" and a: "f a = Some s" "a \<notin> S" "a \<noteq> r" and path: "has_path f a xs"
  obtains p ps ys where "sk_parent s = Some p" "p \<notin> S" "f p = Some ps" "has_path f p ys"
    "xs = ys @ [sk_char s]" "(sk_char s, a) \<in> set (sk_children ps)"
proof -
  obtain p ps where p: "sk_char s \<noteq> ROOT" "sk_parent s = Some p" "p \<notin> S" "f p = Some ps"
    "(sk_char s, a) \<in> set (sk_children ps)"
    using skel_wf_parent [OF wf a] by blast
  from path show thesis
    by (cases rule: has_path_cases) (use that a p in auto)
qed

lemma has_path_inj:
  assumes wf: "skel_wf S r N f" and "has_path f a xs" "has_path f b xs" "a \<notin> S" "b \<notin> S"
  shows "a = b"
  using assms(2-)
proof (induction xs arbitrary: a b rule: rev_induct)
  case Nil
  have "x = r" if x: "has_path f x []" "x \<notin> S" for x
  proof (rule ccontr)
    assume "x \<noteq> r"
    obtain s where "f x = Some s" using has_path_live [OF x(1)] by blast
    from has_path_child [OF wf this x(2) \<open>x \<noteq> r\<close> x(1)] show False by blast
  qed
  with Nil show ?case by blast
next
  case (snoc c xs)
  have step: "\<exists>p ps. p \<notin> S \<and> f p = Some ps \<and> has_path f p xs \<and> (c, x) \<in> set (sk_children ps)"
    if x: "has_path f x (xs @ [c])" "x \<notin> S" for x
  proof -
    have "x \<noteq> r" using has_path_unique [OF has_path_root [OF wf]] x(1) by auto
    obtain s where "f x = Some s" using has_path_live [OF x(1)] by blast
    from has_path_child [OF wf this x(2) \<open>x \<noteq> r\<close> x(1)] show ?thesis by (metis append1_eq_conv)
  qed
  obtain p ps q qs where p: "p \<notin> S" "f p = Some ps" "has_path f p xs" "(c, a) \<in> set (sk_children ps)"
    and q: "q \<notin> S" "f q = Some qs" "has_path f q xs" "(c, b) \<in> set (sk_children qs)"
    using step snoc.prems by meson
  have "p = q" using snoc.IH p q by blast
  with p q skel_wf_distinct [OF wf p(2,1)] show ?case by (auto dest: child_unique)
qed

text \<open>
  In a well-formed trie \<^verbatim>\<open>get_path_vec\<close> returns for every live node, it returns the
  empty sequence for the root, and two live nodes with the same label sequence are the same
  node.
\<close>

lemma get_path_vec_identifies_nodes:
  assumes "trie_wf r h"
  shows "get_path_vec h r [] = Some []
    \<and> (\<forall>a n. pnodes h a = Some n \<longrightarrow> (\<exists>xs. get_path_vec h a [] = Some xs))
    \<and> (\<forall>a b na nb. pnodes h a = Some na \<longrightarrow> pnodes h b = Some nb \<longrightarrow>
         get_path_vec h a [] = get_path_vec h b [] \<longrightarrow> a = b)"
proof -
  have wf: "skel_wf {} r (pnext h) (skeleton h)" using assms by (simp add: trie_wf_def)
  have total: "\<exists>xs. has_path (skeleton h) a xs \<and> get_path_vec h a [] = Some xs" if "pnodes h a = Some n" for a n
    using has_path_total [OF wf, of a "skel_of n"] has_path_get_path_vec [of h a _ "[]"] that by (auto simp: heap_simps)
  have "get_path_vec h r [] = Some []"
    using has_path_get_path_vec [OF has_path_root [OF wf], of "[]"] by simp
  moreover have "a = b" if "pnodes h a = Some na" "pnodes h b = Some nb" "get_path_vec h a [] = get_path_vec h b []" for a b na nb
    using total [OF that(1)] total [OF that(2)] that(3) has_path_inj [OF wf] by auto
  ultimately show ?thesis using total by blast
qed

text \<open>The trie of the initial decoder state: one root and the root of the time steps.\<close>

definition root_heap :: heap where
  "root_heap = \<lparr>pnodes = [0 \<mapsto> PathTrie_new\<lparr>score := Fin 0 0, log_prob_b_prev := Fin 0 0, timesteps := Some 0\<rparr>],
     pnext = 1, tnodes = [0 \<mapsto> \<lparr>t_parent = None, t_children = [], t_data = 0\<rparr>], tnext = 1\<rparr>"

lemma root_heap_wf: "trie_wf 0 root_heap"
  by (auto simp: trie_wf_def skel_wf_def dict_ok_def root_heap_def PathTrie_new_def skeleton_def skel_of_def split: if_splits)

lemma get_path_vec_identifies_nodes_witness:
  "trie_wf 0 root_heap \<and> get_path_vec root_heap 0 [] = Some []"
  using get_path_vec_identifies_nodes [OF root_heap_wf] root_heap_wf by blast

section \<open>Extending a prefix\<close>

lemma find_child_Some: "find (\<lambda>child. fst child = c) cs = Some (d, b) \<Longrightarrow> d = c \<and> (c, b) \<in> set cs"
  by (induction cs) (auto split: if_splits)

lemma find_child_None: "find (\<lambda>child. fst child = c) cs = None \<Longrightarrow> c \<notin> fst ` set cs"
  by (auto simp: find_None_iff)

text \<open>The three outcomes: an existing child, a fresh child, a refusal by the dictionary.\<close>

definition revived :: "path_trie \<Rightarrow> path_trie" where
  "revived cn = (if pt_exists cn then cn else
     cn\<lparr>pt_exists := True, log_prob_b_prev := neg_flt_inf, log_prob_nb_prev := neg_flt_inf,
        log_prob_b_cur := neg_flt_inf, log_prob_nb_cur := neg_flt_inf\<rparr>)"

lemma revived_sel [simp]:
  "parent (revived cn) = parent cn" "character (revived cn) = character cn" "children (revived cn) = children cn"
  "pt_exists (revived cn)" "timesteps (revived cn) = timesteps cn"
  "previous_timesteps (revived cn) = previous_timesteps cn" "has_dictionary (revived cn) = has_dictionary cn"
  "dictionary (revived cn) = dictionary cn"
  by (simp_all add: revived_def)

lemma set_pnode_same: "pnodes h a = Some n \<Longrightarrow> set_pnode a n h = h"
  by (cases h) (auto simp: set_pnode_def fun_eq_iff)

lemma get_path_trie_outcome:
  assumes wf: "trie_wf r h" and n: "pnodes h a = Some n"
  obtains
    (child) b cn where "(c, b) \<in> set (children n)" "pnodes h b = Some cn"
      "get_path_trie a c lp reset h = Some (Some b, set_pnode b (revived cn) h)"
  | (fresh) node where "c \<notin> fst ` set (children n)" "parent node = Some a" "character node = c" "children node = []"
      "pt_exists node" "timesteps node = None" "previous_timesteps node = None" "has_dictionary node \<longrightarrow> dictionary node \<noteq> None"
      "get_path_trie a c lp reset h = Some (Some (pnext h),
         set_pnode a (n\<lparr>children := children n @ [(c, pnext h)]\<rparr>) (snd (alloc_pnode node h)))"
  | (refused) st where "c \<notin> fst ` set (children n)"
      "get_path_trie a c lp reset h = Some (None, set_pnode a (n\<lparr>dictionary_state := st\<rparr>) h)"
proof (cases "find (\<lambda>child. fst child = c) (children n)")
  case (Some e)
  then obtain b where b: "e = (c, b)" "(c, b) \<in> set (children n)"
    by (cases e) (auto dest: find_child_Some)
  have "skeleton h a = Some (skel_of n)" using n by (simp add: skeleton_def)
  then obtain cn where cn: "pnodes h b = Some cn"
    using skel_wf_child [of "{}" r "pnext h" "skeleton h" a "skel_of n" c b] wf b(2)
    by (auto simp: trie_wf_def heap_simps)
  have "get_path_trie a c lp reset h = Some (Some b, set_pnode b (revived cn) h)"
    using Some b n cn by (simp add: get_path_trie_def revived_def set_pnode_same)
  with b cn show thesis by (rule_tac child)
next
  case None
  then have c: "c \<notin> fst ` set (children n)" by (rule find_child_None)
  show thesis
  proof (cases "has_dictionary n")
    case False
    let ?node = "PathTrie_new\<lparr>character := c, parent := Some a, log_prob_c := lp\<rparr>"
    show thesis
      by (rule fresh [of ?node])
        (use None c n False in \<open>simp_all add: get_path_trie_def PathTrie_new_def alloc_pnode_def\<close>)
  next
    case True
    then obtain d where d: "dictionary n = Some d"
      using wf n by (auto simp: trie_wf_def dict_ok_def)
    show thesis
    proof (cases "matcher_Find d (dictionary_state n) (sint (c + 1))")
      case find: None
      let ?st = "if fst_final d (dictionary_state n) \<and> reset then fst_start d else dictionary_state n"
      have "get_path_trie a c lp reset h = Some (None, set_pnode a (n\<lparr>dictionary_state := ?st\<rparr>) h)"
        by (cases "fst_final d (dictionary_state n)"; cases reset)
          (simp_all add: get_path_trie_def None n True d find set_pnode_same [OF n])
      with c show thesis by (rule refused)
    next
      case find: (Some ns)
      let ?node = "PathTrie_new\<lparr>character := c, parent := Some a, dictionary := dictionary n, has_dictionary := True,
        log_prob_c := lp, dictionary_state := (if fst_final d ns \<and> reset then fst_start d else ns)\<rparr>"
      have "get_path_trie a c lp reset h = Some (Some (pnext h),
         set_pnode a (n\<lparr>children := children n @ [(c, pnext h)]\<rparr>) (snd (alloc_pnode ?node h)))"
        by (simp add: get_path_trie_def None n True d find alloc_pnode_def)
      moreover have "dictionary ?node \<noteq> None" by (simp add: d)
      ultimately show thesis
        by (rule_tac fresh [OF c]) (simp_all add: PathTrie_new_def)
    qed
  qed
qed

lemma trie_wf_set_same:
  assumes "trie_wf r h" and "pnodes h a = Some n" and "skel_of n' = skel_of n"
    and "has_dictionary n' \<longrightarrow> dictionary n' \<noteq> None"
  shows "trie_wf r (set_pnode a n' h)"
  using assms by (auto simp: trie_wf_def dict_ok_def skeleton_set_same set_pnode_sel)

lemma fresh_skeleton:
  assumes "pnodes h a = Some n" and "a \<noteq> pnext h" and "parent node = Some a" "character node = c" "children node = []"
  shows "skeleton (set_pnode a (n\<lparr>children := children n @ [(c, pnext h)]\<rparr>) (snd (alloc_pnode node h))) =
    (skeleton h)(a \<mapsto> (skel_of n)\<lparr>sk_children := sk_children (skel_of n) @ [(c, pnext h)]\<rparr>,
       pnext h \<mapsto> \<lparr>sk_parent = Some a, sk_char = c, sk_children = []\<rparr>)"
  using assms by (auto simp: fun_eq_iff skeleton_def set_pnode_def alloc_pnode_def skel_of_def)

lemma trie_wf_fresh:
  assumes wf: "trie_wf r h" and n: "pnodes h a = Some n" and c: "c \<notin> fst ` set (children n)" "c \<noteq> ROOT"
    and node: "parent node = Some a" "character node = c" "children node = []" "has_dictionary node \<longrightarrow> dictionary node \<noteq> None"
  shows "trie_wf r (set_pnode a (n\<lparr>children := children n @ [(c, pnext h)]\<rparr>) (snd (alloc_pnode node h)))"
proof -
  have sk: "skeleton h a = Some (skel_of n)" using n by (simp add: skeleton_def)
  have swf: "skel_wf {} r (pnext h) (skeleton h)" using wf by (simp add: trie_wf_def)
  have "a \<noteq> pnext h" using skel_wf_bound [OF swf sk] by simp
  note sk' = fresh_skeleton [OF n this node(1-3)]
  have "skel_wf {} r (pnext h + 1) (skeleton (set_pnode a (n\<lparr>children := children n @ [(c, pnext h)]\<rparr>) (snd (alloc_pnode node h))))"
    unfolding sk' using skel_wf_add [OF swf sk] c by simp
  moreover have "dict_ok (set_pnode a (n\<lparr>children := children n @ [(c, pnext h)]\<rparr>) (snd (alloc_pnode node h)))"
    using wf n node(4) by (auto simp: trie_wf_def dict_ok_def set_pnode_def alloc_pnode_def)
  ultimately show ?thesis by (simp add: trie_wf_def set_pnode_def alloc_pnode_def)
qed

text \<open>What every caller of \<^verbatim>\<open>get_path_trie\<close> relies on.\<close>

definition path_ext :: "heap \<Rightarrow> heap \<Rightarrow> bool" where
  "path_ext h h' \<longleftrightarrow> (\<forall>b xs. has_path (skeleton h) b xs \<longrightarrow> has_path (skeleton h') b xs)"

lemma path_ext_refl [simp]: "path_ext h h"
  by (simp add: path_ext_def)

lemma path_ext_trans: "path_ext h h' \<Longrightarrow> path_ext h' h'' \<Longrightarrow> path_ext h h''"
  by (simp add: path_ext_def)

lemma path_ext_same: "skeleton h' = skeleton h \<Longrightarrow> path_ext h h'"
  by (simp add: path_ext_def)

lemma get_path_trie_spec:
  assumes wf: "trie_wf r h" and n: "pnodes h a = Some n" and c: "c \<noteq> ROOT" and path: "has_path (skeleton h) a xs"
  shows "\<exists>res h'. get_path_trie a c lp reset h = Some (res, h') \<and> trie_wf r h' \<and> path_ext h h'
    \<and> tnodes h' = tnodes h \<and> tnext h' = tnext h
    \<and> (\<forall>b. res = Some b \<longrightarrow> has_path (skeleton h') b (xs @ [c]) \<and> (\<exists>bn. pnodes h' b = Some bn \<and> pt_exists bn))"
  using wf n
proof (cases rule: get_path_trie_outcome [where c = c and lp = lp and reset = reset])
  case (child b cn)
  let ?h = "set_pnode b (revived cn) h"
  have sk: "skeleton ?h = skeleton h" using child(2) by (intro skeleton_set_same) (simp_all add: skel_of_def)
  have "trie_wf r ?h" using wf child(2)
    by (intro trie_wf_set_same) (auto simp: skel_of_def trie_wf_def dict_ok_def)
  moreover obtain bs where "skeleton h b = Some bs" "sk_parent bs = Some a" "sk_char bs = c"
    using skel_wf_child [of "{}" r "pnext h" "skeleton h" a "skel_of n" c b] wf n child(1)
    by (auto simp: trie_wf_def heap_simps)
  then have "has_path (skeleton h) b (xs @ [c])" using has_path.up [OF _ _ path, of b bs] c by simp
  ultimately show ?thesis using child(3) sk by (simp add: path_ext_same set_pnode_sel)
next
  case (fresh node)
  let ?h = "set_pnode a (n\<lparr>children := children n @ [(c, pnext h)]\<rparr>) (snd (alloc_pnode node h))"
  have swf: "skel_wf {} r (pnext h) (skeleton h)" using wf by (simp add: trie_wf_def)
  have bound: "b < pnext h" if "skeleton h b = Some s" for b s using skel_wf_bound [OF swf that] .
  have "a \<noteq> pnext h" using bound [of a "skel_of n"] n by (simp add: skeleton_def)
  note sk = fresh_skeleton [OF n this fresh(2-4)]
  have ext: "has_path (skeleton ?h) b ys" if "has_path (skeleton h) b ys" for b ys
  proof (rule has_path_shape_cong [OF that])
    fix b s assume b: "skeleton h b = Some s"
    then have "b \<noteq> pnext h" using bound by blast
    then show "\<exists>t. skeleton ?h b = Some t \<and> sk_parent t = sk_parent s \<and> sk_char t = sk_char s"
      using b n unfolding sk by (auto simp: heap_simps)
  qed
  have "has_path (skeleton ?h) (pnext h) (xs @ [c])"
    using has_path.up [of "skeleton ?h" "pnext h" _ a xs] ext [OF path] c sk by simp
  moreover have "pnodes ?h (pnext h) = Some node" using \<open>a \<noteq> pnext h\<close> by (simp add: set_pnode_def alloc_pnode_def)
  moreover have "trie_wf r ?h" using trie_wf_fresh [OF wf n fresh(1) c fresh(2,3,4,8)] .
  ultimately show ?thesis using fresh(5,9) ext
    by (simp add: path_ext_def set_pnode_def alloc_pnode_def)
next
  case (refused st)
  have "skel_of (n\<lparr>dictionary_state := st\<rparr>) = skel_of n" by (simp add: skel_of_def)
  with refused(2) trie_wf_set_same [OF wf n, of "n\<lparr>dictionary_state := st\<rparr>"] wf n show ?thesis
    by (simp add: path_ext_same skeleton_set_same [OF n] set_pnode_sel trie_wf_def dict_ok_def)
qed

text \<open>
  C24: \<^verbatim>\<open>get_path_trie\<close> on a live node of a well-formed trie always returns and keeps the
  trie well formed; the paths of all live nodes stay what they were; and the node it returns,
  found or new, exists and spells the prefix followed by the new label.
\<close>

theorem get_path_trie_extends:
  assumes "trie_wf r h" and "pnodes h a = Some n" and "c \<noteq> ROOT"
  shows "\<exists>res h'. get_path_trie a c lp reset h = Some (res, h') \<and> trie_wf r h'
    \<and> (\<forall>b bn. pnodes h b = Some bn \<longrightarrow> get_path_vec h' b [] = get_path_vec h b [])
    \<and> (\<forall>b. res = Some b \<longrightarrow> (\<exists>xs. get_path_vec h a [] = Some xs \<and> get_path_vec h' b [] = Some (xs @ [c]))
        \<and> (\<exists>bn. pnodes h' b = Some bn \<and> pt_exists bn))"
proof -
  have wf: "skel_wf {} r (pnext h) (skeleton h)" using assms(1) by (simp add: trie_wf_def)
  have total: "\<exists>xs. has_path (skeleton h) b xs" if "pnodes h b = Some bn" for b bn
    using has_path_total [OF wf, of b "skel_of bn"] that by (simp add: skeleton_def)
  obtain xs where xs: "has_path (skeleton h) a xs" using total [OF assms(2)] by blast
  obtain res h' where g: "get_path_trie a c lp reset h = Some (res, h')" "trie_wf r h'" "path_ext h h'"
    "\<forall>b. res = Some b \<longrightarrow> has_path (skeleton h') b (xs @ [c]) \<and> (\<exists>bn. pnodes h' b = Some bn \<and> pt_exists bn)"
    using get_path_trie_spec [OF assms xs, of lp reset] by blast
  have "get_path_vec h' b [] = get_path_vec h b []" if "pnodes h b = Some bn" for b bn
  proof -
    obtain ys where ys: "has_path (skeleton h) b ys" using total \<open>pnodes h b = Some bn\<close> by blast
    then have "has_path (skeleton h') b ys" using g(3) by (simp add: path_ext_def)
    with ys show ?thesis by (simp add: has_path_get_path_vec [where out = "[]"])
  qed
  moreover have "get_path_vec h a [] = Some xs" using has_path_get_path_vec [OF xs, of "[]"] by simp
  moreover have "get_path_vec h' b [] = Some (xs @ [c])" if "res = Some b" for b
    using g(4) that has_path_get_path_vec [of h' b "xs @ [c]" "[]"] by simp
  ultimately show ?thesis using g(1,2,4) by blast
qed

theorem get_path_trie_extends_witness:
  "\<exists>res h'. get_path_trie 0 7 (Fin (-1) 0) True root_heap = Some (res, h') \<and> trie_wf 0 h'
    \<and> (\<forall>b bn. pnodes root_heap b = Some bn \<longrightarrow> get_path_vec h' b [] = get_path_vec root_heap b [])
    \<and> (\<forall>b. res = Some b \<longrightarrow> (\<exists>xs. get_path_vec root_heap 0 [] = Some xs \<and> get_path_vec h' b [] = Some (xs @ [7]))
        \<and> (\<exists>bn. pnodes h' b = Some bn \<and> pt_exists bn))"
  by (rule get_path_trie_extends [OF root_heap_wf]) (simp_all add: root_heap_def ROOT_def)

end
