(* ===== verification/Timestep_Tree.thy ===== *)
theory Timestep_Tree
  imports Trie_Ops
begin

text \<open>
  The tree that records at which time step each label of a prefix was emitted, its invariant,
  and how the trie points into it: a prefix of length \<open>k\<close> points at a node of depth \<open>k\<close>.
\<close>

section \<open>The tree\<close>

definition ts_wf :: "heap \<Rightarrow> bool" where
  "ts_wf h \<longleftrightarrow>
     (\<exists>n. tnodes h 0 = Some n \<and> t_parent n = None) \<and>
     (\<forall>a\<in>dom (tnodes h). a < tnext h) \<and>
     (\<forall>a n. tnodes h a = Some n \<longrightarrow> a \<noteq> 0 \<longrightarrow> (\<exists>p. t_parent n = Some p \<and> p < a \<and> tnodes h p \<noteq> None)) \<and>
     (\<forall>a n c. tnodes h a = Some n \<longrightarrow> c \<in> set (t_children n) \<longrightarrow> (\<exists>cn. tnodes h c = Some cn \<and> t_parent cn = Some a))"

inductive ts_depth :: "heap \<Rightarrow> addr \<Rightarrow> nat \<Rightarrow> bool" for h where
  ts_depth_root: "ts_depth h 0 0"
| ts_depth_up: "tnodes h a = Some n \<Longrightarrow> a \<noteq> 0 \<Longrightarrow> t_parent n = Some p \<Longrightarrow> ts_depth h p k \<Longrightarrow> ts_depth h a (Suc k)"

interpretation trie_links: parent_linked "\<lambda>h. \<exists>r. trie_wf r h" "\<lambda>h a. Option.bind (pnodes h a) parent"
proof
  fix h a p
  assume "\<exists>r. trie_wf r h" and p: "Option.bind (pnodes h a) parent = Some p"
  then obtain r where wf: "skel_wf {} r (pnext h) (skeleton h)" by (auto simp: trie_wf_def)
  obtain n where n: "pnodes h a = Some n" "parent n = Some p" using p by (auto split: Option.bind_splits)
  then have sk: "skeleton h a = Some (skel_of n)" by (simp add: skeleton_def)
  then have "a \<noteq> r" using skel_wf_root [OF wf] n(2) by auto
  with skel_wf_parent [OF wf sk] n(2) show "p < a" by auto
qed

interpretation ts_links: parent_linked ts_wf "\<lambda>h a. Option.bind (tnodes h a) t_parent"
proof
  fix h a p
  assume wf: "ts_wf h" and p: "Option.bind (tnodes h a) t_parent = Some p"
  then obtain n where n: "tnodes h a = Some n" "t_parent n = Some p" by (auto split: Option.bind_splits)
  then show "p < a" using wf unfolding ts_wf_def by (cases "a = 0") fastforce+
qed

lemma ts_depth_live: "ts_wf h \<Longrightarrow> ts_depth h a k \<Longrightarrow> tnodes h a \<noteq> None"
  by (erule ts_depth.cases) (auto simp: ts_wf_def)

lemma ts_depth_unique: "ts_depth h a k \<Longrightarrow> ts_depth h a l \<Longrightarrow> k = l"
proof (induction arbitrary: l rule: ts_depth.induct)
  case ts_depth_root
  then show ?case by (auto elim: ts_depth.cases)
next
  case (ts_depth_up a n p k)
  from ts_depth_up.prems ts_depth_up.hyps show ?case
    by (cases rule: ts_depth.cases) (auto dest: ts_depth_up.IH)
qed

text \<open>\<^verbatim>\<open>get_history\<close> returns one time step per level.\<close>

lemma ts_depth_get_history:
  "ts_depth h a k \<Longrightarrow> \<exists>xs. get_history_helper h (Some a) (Some 0) out = Some (out @ xs) \<and> length xs = k"
proof (induction arbitrary: out rule: ts_depth.induct)
  case ts_depth_root
  show ?case by (subst get_history_helper.simps) simp
next
  case (ts_depth_up a n p k)
  from ts_depth_up.IH [of out] obtain xs where
    "get_history_helper h (Some p) (Some 0) out = Some (out @ xs)" "length xs = k" by blast
  with ts_depth_up.hyps show ?case by (subst get_history_helper.simps) simp
qed

text \<open>A null pointer has no history: the recursion dereferences it.\<close>

lemma get_history_null: "get_history h None (Some 0) = None"
  unfolding get_history_def by (subst get_history_helper.simps) simp

subsection \<open>Adding a time step\<close>

lemma add_child_spec:
  assumes wf: "ts_wf h" and n: "tnodes h a = Some n"
  shows "\<exists>h'. add_child a d h = Some (tnext h, h') \<and> ts_wf h'
    \<and> pnodes h' = pnodes h \<and> pnext h' = pnext h
    \<and> (\<forall>b k. ts_depth h b k \<longrightarrow> ts_depth h' b k) \<and> (\<forall>k. ts_depth h a k \<longrightarrow> ts_depth h' (tnext h) (Suc k))"
proof -
  let ?h = "h\<lparr>tnodes := (tnodes h)(a \<mapsto> n\<lparr>t_children := t_children n @ [tnext h]\<rparr>,
      tnext h \<mapsto> \<lparr>t_parent = Some a, t_children = [], t_data = d\<rparr>), tnext := tnext h + 1\<rparr>"
  have fresh: "tnodes h (tnext h) = None" and bound: "\<And>b m. tnodes h b = Some m \<Longrightarrow> b < tnext h"
    using wf by (auto simp: ts_wf_def)
  have aN: "a < tnext h" using bound [OF n] .
  have keep: "\<exists>m'. tnodes ?h b = Some m' \<and> t_parent m' = t_parent m" if "tnodes h b = Some m" for b m
    using that n fresh by auto
  have depth: "ts_depth ?h b k" if "ts_depth h b k" for b k
    using that
  proof (induction rule: ts_depth.induct)
    case ts_depth_root
    show ?case by (rule ts_depth.ts_depth_root)
  next
    case (ts_depth_up b m p k)
    from keep [OF ts_depth_up.hyps(1)] ts_depth_up show ?case by (metis ts_depth.ts_depth_up)
  qed
  have new: "ts_depth ?h (tnext h) (Suc k)" if "ts_depth h a k" for k
    by (rule ts_depth.ts_depth_up [OF _ _ _ depth [OF that]]) (use aN in auto)
  have "\<exists>m. tnodes ?h 0 = Some m \<and> t_parent m = None"
    using wf keep unfolding ts_wf_def by metis
  moreover have "\<forall>b\<in>dom (tnodes ?h). b < tnext ?h"
    using bound aN by (auto simp: less_Suc_eq split: if_splits)
  moreover have "\<exists>p. t_parent m = Some p \<and> p < b \<and> tnodes ?h p \<noteq> None" if m: "tnodes ?h b = Some m" "b \<noteq> 0" for b m
  proof (cases "b = tnext h")
    case True
    with m aN n show ?thesis by auto
  next
    case False
    then obtain m0 where m0: "tnodes h b = Some m0" "t_parent m = t_parent m0" using m n by (auto split: if_splits)
    then obtain p where "t_parent m0 = Some p" "p < b" "tnodes h p \<noteq> None" using wf m(2) unfolding ts_wf_def by blast
    with m0 show ?thesis by auto
  qed
  moreover have "\<exists>cn. tnodes ?h c = Some cn \<and> t_parent cn = Some b" if m: "tnodes ?h b = Some m" "c \<in> set (t_children m)" for b m c
  proof (cases "b = tnext h")
    case True
    with m have "t_children m = []" by auto
    with m(2) show ?thesis by simp
  next
    case False
    show ?thesis
    proof (cases "b = a \<and> c = tnext h")
      case True
      then show ?thesis by auto
    next
      case other: False
      with m False n obtain m0 where "tnodes h b = Some m0" "c \<in> set (t_children m0)"
        by (auto split: if_splits)
      then obtain cn where "tnodes h c = Some cn" "t_parent cn = Some b" using wf unfolding ts_wf_def by blast
      with keep show ?thesis by metis
    qed
  qed
  ultimately have "ts_wf ?h" unfolding ts_wf_def by blast
  moreover have "add_child a d h = Some (tnext h, ?h)" by (simp add: add_child_def n Let_def)
  ultimately show ?thesis using depth new by (intro exI [of _ ?h]) simp
qed

section \<open>Pointers from the trie\<close>

definition ts_ok :: "heap \<Rightarrow> nat \<Rightarrow> path_trie \<Rightarrow> bool" where
  "ts_ok h k n \<longleftrightarrow> (\<forall>t. timesteps n = Some t \<longrightarrow> ts_depth h t k)
     \<and> (\<forall>t. previous_timesteps n = Some t \<longrightarrow> (\<exists>j. k = Suc j \<and> ts_depth h t j))"

definition ts_link :: "heap \<Rightarrow> bool" where
  "ts_link h \<longleftrightarrow> (\<forall>a n xs. pnodes h a = Some n \<longrightarrow> has_path (skeleton h) a xs \<longrightarrow> ts_ok h (length xs) n)"

lemma ts_depth_cong: "tnodes h' = tnodes h \<Longrightarrow> ts_depth h' = ts_depth h"
proof -
  assume eq: "tnodes h' = tnodes h"
  have "ts_depth h' a k \<Longrightarrow> tnodes h' = tnodes h \<Longrightarrow> ts_depth h a k" for a k and h h' :: heap
    by (induction rule: ts_depth.induct) (auto intro: ts_depth.intros)
  from this [of h' _ _ h] this [of h _ _ h'] eq show ?thesis by (intro ext) metis
qed

lemma ts_wf_cong: "tnodes h' = tnodes h \<Longrightarrow> tnext h' = tnext h \<Longrightarrow> ts_wf h' = ts_wf h"
  by (simp add: ts_wf_def)

lemma ts_ok_cong: "tnodes h' = tnodes h \<Longrightarrow> ts_ok h' k n = ts_ok h k n"
  by (simp add: ts_ok_def ts_depth_cong [of h' h])

text \<open>The whole invariant of the store.\<close>

definition store_ok :: "addr \<Rightarrow> heap \<Rightarrow> bool" where
  "store_ok r h \<longleftrightarrow> trie_wf r h \<and> ts_wf h \<and> ts_link h"

lemma store_okD:
  assumes "store_ok r h"
  shows "trie_wf r h" "ts_wf h" "ts_link h" "skel_wf {} r (pnext h) (skeleton h)" "dict_ok h"
  using assms by (simp_all add: store_ok_def trie_wf_def)

lemma root_heap_ok: "store_ok 0 root_heap"
proof -
  have wf: "ts_wf root_heap" by (auto simp: ts_wf_def root_heap_def split: if_splits)
  have "xs = []" if "has_path (skeleton root_heap) 0 xs" for xs
    using has_path_unique [OF that has_path_root] root_heap_wf by (auto simp: trie_wf_def)
  moreover have "a = 0 \<and> timesteps n = Some 0 \<and> previous_timesteps n = None" if "pnodes root_heap a = Some n" for a n
    using that by (auto simp: root_heap_def PathTrie_new_def split: if_splits)
  ultimately have "ts_link root_heap"
    unfolding ts_link_def ts_ok_def by (fastforce intro: ts_depth.ts_depth_root)
  with wf show ?thesis using root_heap_wf by (simp add: store_ok_def)
qed

text \<open>Replacing a node by one of the same shape keeps the invariant when its pointers fit.\<close>

lemma store_ok_set_same:
  assumes ok: "store_ok r h" and n: "pnodes h a = Some n" and same: "skel_of n' = skel_of n"
    and d: "has_dictionary n' \<longrightarrow> dictionary n' \<noteq> None"
    and t: "\<And>xs. has_path (skeleton h) a xs \<Longrightarrow> ts_ok h (length xs) n'"
  shows "store_ok r (set_pnode a n' h)"
proof -
  have sk: "skeleton (set_pnode a n' h) = skeleton h" using skeleton_set_same [OF n same] .
  have tn: "tnodes (set_pnode a n' h) = tnodes h" by (simp add: set_pnode_def)
  have "ts_ok h (length xs) m" if "pnodes (set_pnode a n' h) b = Some m" "has_path (skeleton h) b xs" for b m xs
  proof (cases "b = a")
    case True
    with that have "m = n'" by (simp add: set_pnode_sel)
    with True t that(2) show ?thesis by blast
  next
    case False
    with that(1) have "pnodes h b = Some m" by (simp add: set_pnode_sel)
    with store_okD(3) [OF ok] that(2) show ?thesis unfolding ts_link_def by blast
  qed
  then have "ts_link (set_pnode a n' h)"
    unfolding ts_link_def sk ts_ok_cong [OF tn] by blast
  moreover have "ts_wf (set_pnode a n' h)"
    using store_okD(2) [OF ok] ts_wf_cong [of "set_pnode a n' h" h] by (simp add: set_pnode_sel)
  ultimately show ?thesis
    using trie_wf_set_same [OF store_okD(1) [OF ok] n same d] by (simp add: store_ok_def)
qed

subsection \<open>Closing a time step for one node\<close>

definition closed_node :: "libm \<Rightarrow> path_trie \<Rightarrow> path_trie \<Rightarrow> bool" where
  "closed_node m n n' \<longleftrightarrow>
     log_prob_b_prev n' = log_prob_b_cur n \<and> log_prob_nb_prev n' = log_prob_nb_cur n \<and>
     log_prob_b_cur n' = neg_flt_inf \<and> log_prob_nb_cur n' = neg_flt_inf \<and>
     score n' = log_sum_exp m (log_prob_b_cur n) (log_prob_nb_cur n) \<and>
     pt_exists n' = pt_exists n \<and> previous_timesteps n' = None \<and>
     (previous_timesteps n = None \<longrightarrow> timesteps n' = timesteps n) \<and>
     (previous_timesteps n \<noteq> None \<longrightarrow> timesteps n' \<noteq> None)"

lemma find_timestep_child_total:
  assumes "\<And>c. c \<in> set cs \<Longrightarrow> tnodes h c \<noteq> None"
  shows "\<exists>r. find_timestep_child h cs d = Some r \<and> (\<forall>c. r = Some c \<longrightarrow> c \<in> set cs)"
  using assms
proof (induction cs)
  case Nil
  then show ?case by simp
next
  case (Cons c cs)
  obtain n where "tnodes h c = Some n" using Cons.prems [of c] by auto
  moreover obtain r where "find_timestep_child h cs d = Some r" "\<forall>c. r = Some c \<longrightarrow> c \<in> set cs"
    using Cons.IH Cons.prems by auto
  ultimately show ?case by auto
qed

text \<open>Finding or adding the child of a time step: the child is one level deeper.\<close>

lemma timestep_child_spec:
  assumes wf: "ts_wf h" and d: "ts_depth h pt j" and ptn: "tnodes h pt = Some ptn"
  shows "\<exists>c h'. Option.bind (find_timestep_child h (t_children ptn) ns)
      (\<lambda>found. case found of Some c \<Rightarrow> Some (Some c, h)
        | None \<Rightarrow> Option.bind (add_child pt ns h) (\<lambda>(c, h). Some (Some c, h))) = Some (Some c, h')
    \<and> ts_wf h' \<and> pnodes h' = pnodes h \<and> pnext h' = pnext h \<and> ts_depth h' c (Suc j)
    \<and> (\<forall>b k. ts_depth h b k \<longrightarrow> ts_depth h' b k)"
proof -
  have live: "\<exists>cn. tnodes h c = Some cn \<and> t_parent cn = Some pt" if "c \<in> set (t_children ptn)" for c
    using wf ptn that unfolding ts_wf_def by blast
  then obtain r where r: "find_timestep_child h (t_children ptn) ns = Some r" "\<forall>c. r = Some c \<longrightarrow> c \<in> set (t_children ptn)"
    using find_timestep_child_total [of "t_children ptn" h ns] by fastforce
  show ?thesis
  proof (cases r)
    case None
    with r add_child_spec [OF wf ptn, of ns] d show ?thesis by fastforce
  next
    case (Some c)
    then obtain cn where cn: "tnodes h c = Some cn" "t_parent cn = Some pt" using r(2) live by blast
    then have "c \<noteq> 0" using wf unfolding ts_wf_def by fastforce
    from ts_depth.ts_depth_up [OF cn(1) this cn(2) d] Some r(1) wf show ?thesis by auto
  qed
qed

end
