(* ===== verification/Trie_Iterate.thy ===== *)
theory Trie_Iterate
  imports Timestep_Tree
begin

text \<open>
  \<^verbatim>\<open>PathTrie::iterate_to_vec\<close>: at the end of a time step it closes every existing node and
  lists it, children before parents.
\<close>

section \<open>One node\<close>

lemma store_ok_ts_ext:
  assumes ok: "store_ok r h" and eq: "pnodes h' = pnodes h" "pnext h' = pnext h" and wf: "ts_wf h'"
    and mono: "\<And>b k. ts_depth h b k \<Longrightarrow> ts_depth h' b k"
  shows "store_ok r h'"
proof -
  have sk: "skeleton h' = skeleton h" by (simp add: skeleton_def eq)
  have mono': "ts_ok h k n \<Longrightarrow> ts_ok h' k n" for k n unfolding ts_ok_def using mono by metis
  have "ts_link h'"
    using store_okD(3) [OF ok] mono' unfolding ts_link_def sk eq by blast
  moreover have "trie_wf r h'" using store_okD(1) [OF ok] by (simp add: trie_wf_def dict_ok_def sk eq)
  ultimately show ?thesis using wf by (simp add: store_ok_def)
qed

definition closing :: "libm \<Rightarrow> path_trie \<Rightarrow> addr option \<Rightarrow> path_trie" where
  "closing m n ts = n\<lparr>log_prob_b_prev := log_prob_b_cur n, log_prob_nb_prev := log_prob_nb_cur n,
     log_prob_b_cur := neg_flt_inf, log_prob_nb_cur := neg_flt_inf,
     score := log_sum_exp m (log_prob_b_cur n) (log_prob_nb_cur n), timesteps := ts, previous_timesteps := None\<rparr>"

lemma closing_shape: "skel_of (closing m n ts) = skel_of n"
  "has_dictionary (closing m n ts) = has_dictionary n" "dictionary (closing m n ts) = dictionary n"
  by (simp_all add: closing_def skel_of_def)

lemma closing_closed:
  "(previous_timesteps n = None \<longrightarrow> ts = timesteps n) \<Longrightarrow> (previous_timesteps n \<noteq> None \<longrightarrow> ts \<noteq> None) \<Longrightarrow>
     closed_node m n (closing m n ts)"
  by (simp add: closed_node_def closing_def)

lemma store_ok_closing:
  assumes ok: "store_ok r h" and n: "pnodes h a = Some n"
    and ts: "\<And>xs t. has_path (skeleton h) a xs \<Longrightarrow> ts = Some t \<Longrightarrow> ts_depth h t (length xs)"
  shows "store_ok r (set_pnode a (closing m n ts) h)"
proof (rule store_ok_set_same [OF ok n])
  show "ts_ok h (length xs) (closing m n ts)" if "has_path (skeleton h) a xs" for xs
    using ts [OF that] by (simp add: ts_ok_def closing_def)
  show "has_dictionary (closing m n ts) \<longrightarrow> dictionary (closing m n ts) \<noteq> None"
    using store_okD(5) [OF ok] n by (auto simp: dict_ok_def closing_shape)
qed (simp add: closing_shape)

lemma iterate_update_spec:
  assumes ok: "store_ok r h" and n: "pnodes h a = Some n"
  shows "\<exists>h' n'. iterate_update m a h = Some h' \<and> store_ok r h' \<and> skeleton h' = skeleton h \<and> pnext h' = pnext h
    \<and> pnodes h' = (pnodes h)(a \<mapsto> n') \<and> closed_node m n n'"
proof -
  obtain xs where xs: "has_path (skeleton h) a xs"
    using has_path_total [OF store_okD(4) [OF ok], of a "skel_of n"] n by (auto simp: skeleton_def)
  have link: "ts_ok h (length xs) n" using store_okD(3) [OF ok] n xs unfolding ts_link_def by blast
  have same: "has_path (skeleton h) a ys \<Longrightarrow> ys = xs" for ys using has_path_unique [OF xs] by blast
  show ?thesis
  proof (cases "previous_timesteps n")
    case None
    let ?n = "closing m n (timesteps n)"
    have "store_ok r (set_pnode a ?n h)"
      by (rule store_ok_closing [OF ok n]) (use link same in \<open>auto simp: ts_ok_def\<close>)
    moreover have "iterate_update m a h = Some (set_pnode a ?n h)"
      by (simp add: iterate_update_def n None closing_def Let_def)
    moreover have "closed_node m n ?n" using None by (simp add: closing_closed)
    ultimately show ?thesis
      using skeleton_set_same [OF n closing_shape(1)] by (auto simp: set_pnode_sel)
  next
    case (Some pt)
    then obtain j where j: "length xs = Suc j" "ts_depth h pt j" using link by (auto simp: ts_ok_def)
    obtain ptn where ptn: "tnodes h pt = Some ptn" using ts_depth_live [OF store_okD(2) [OF ok] j(2)] by auto
    obtain c h1 where c: "Option.bind (find_timestep_child h (t_children ptn) (new_timestep n))
        (\<lambda>found. case found of Some c \<Rightarrow> Some (Some c, h)
          | None \<Rightarrow> Option.bind (add_child pt (new_timestep n) h) (\<lambda>(c, h). Some (Some c, h))) = Some (Some c, h1)"
      "ts_wf h1" "pnodes h1 = pnodes h" "pnext h1 = pnext h" "ts_depth h1 c (Suc j)" "\<And>b k. ts_depth h b k \<Longrightarrow> ts_depth h1 b k"
      using timestep_child_spec [OF store_okD(2) [OF ok] j(2) ptn, of "new_timestep n"] by blast
    have ok1: "store_ok r h1" by (rule store_ok_ts_ext [OF ok c(3,4,2,6)])
    have n1: "pnodes h1 a = Some n" and sk1: "skeleton h1 = skeleton h" using n c(3) by (simp_all add: skeleton_def)
    let ?n = "closing m n (Some c)"
    have "store_ok r (set_pnode a ?n h1)"
      by (rule store_ok_closing [OF ok1 n1]) (use c(5) j(1) same sk1 in auto)
    moreover have "iterate_update m a h = Some (set_pnode a ?n h1)"
      using c(1) by (simp add: iterate_update_def n Some ptn closing_def Let_def split: Option.bind_splits)
    moreover have "closed_node m n ?n" using Some by (simp add: closing_closed)
    moreover have "skeleton (set_pnode a ?n h1) = skeleton h"
      using skeleton_set_same [OF n1 closing_shape(1)] sk1 by simp
    ultimately show ?thesis using c(3,4) by (auto simp: set_pnode_sel)
  qed
qed

section \<open>Subtrees\<close>

definition sub :: "(addr \<rightharpoonup> skel) \<Rightarrow> addr \<Rightarrow> addr set" where
  "sub f a = {b. (b, a) \<in> {(b, p). \<exists>s. f b = Some s \<and> sk_parent s = Some p}\<^sup>*}"

lemma sub_refl [simp]: "a \<in> sub f a"
  by (simp add: sub_def)

lemma sub_step: "f b = Some s \<Longrightarrow> sk_parent s = Some p \<Longrightarrow> p \<in> sub f a \<Longrightarrow> b \<in> sub f a"
  by (auto simp: sub_def intro: converse_rtrancl_into_rtrancl)

lemma sub_trans: "b \<in> sub f a \<Longrightarrow> c \<in> sub f b \<Longrightarrow> c \<in> sub f a"
  by (auto simp: sub_def)

lemma skel_parent_less:
  assumes "skel_wf {} r N f" and "f b = Some s" "sk_parent s = Some p"
  shows "p < b"
proof -
  have "b \<noteq> r" using skel_wf_root [OF assms(1)] assms(2,3) by auto
  with skel_wf_parent [OF assms(1,2)] assms(3) show ?thesis by auto
qed

lemma sub_ge: 
  assumes "skel_wf {} r N f" and "b \<in> sub f a"
  shows "a \<le> b"
  using assms(2) unfolding sub_def mem_Collect_eq
proof (induction rule: converse_rtrancl_induct)
  case base
  show ?case by simp
next
  case (step b p)
  then obtain s where "f b = Some s" "sk_parent s = Some p" by blast
  with skel_parent_less [OF assms(1)] step.IH show ?case by fastforce
qed

text \<open>A node of the subtree is its top or lies below one of the top's children.\<close>

lemma sub_cases:
  assumes wf: "skel_wf {} r N f" and a: "f a = Some s" and b: "b \<in> sub f a"
  shows "b = a \<or> (\<exists>c d. (c, d) \<in> set (sk_children s) \<and> b \<in> sub f d)"
  using b unfolding sub_def mem_Collect_eq
proof (induction rule: converse_rtrancl_induct)
  case base
  show ?case by simp
next
  case (step b p)
  then obtain t where t: "f b = Some t" "sk_parent t = Some p" by blast
  show ?case
  proof (cases "p = a")
    case True
    have "b \<noteq> r" using skel_wf_root [OF wf] t by auto
    with skel_wf_parent [OF wf t(1)] t(2) True a have "(sk_char t, b) \<in> set (sk_children s)" by auto
    then show ?thesis by auto
  next
    case False
    with step.IH obtain c d where "(c, d) \<in> set (sk_children s)" "(p, d) \<in> {(b, p). \<exists>s. f b = Some s \<and> sk_parent s = Some p}\<^sup>*"
      by auto
    with step.hyps(1) show ?thesis by (meson converse_rtrancl_into_rtrancl)
  qed
qed

lemma sub_child:
  assumes "skel_wf {} r N f" and "f a = Some s" "(c, d) \<in> set (sk_children s)" "b \<in> sub f d"
  shows "b \<in> sub f a"
proof -
  obtain ds where "f d = Some ds" "sk_parent ds = Some a" using skel_wf_child [OF assms(1,2) _ assms(3)] by auto
  then have "d \<in> sub f a" by (rule sub_step) simp
  then show ?thesis using assms(4) by (rule sub_trans)
qed

text \<open>Two nodes with a common descendant lie on one line.\<close>

lemma sub_linear: "b \<in> sub f c \<Longrightarrow> b \<in> sub f d \<Longrightarrow> c \<in> sub f d \<or> d \<in> sub f c"
  unfolding sub_def mem_Collect_eq
proof (induction rule: converse_rtrancl_induct)
  case base
  then show ?case by simp
next
  case (step b p)
  show ?case
  proof (cases "b = d")
    case True
    with step.hyps show ?thesis by (meson converse_rtrancl_into_rtrancl)
  next
    case False
    with step.prems obtain q where "(b, q) \<in> {(b, p). \<exists>s. f b = Some s \<and> sk_parent s = Some p}"
      "(q, d) \<in> {(b, p). \<exists>s. f b = Some s \<and> sk_parent s = Some p}\<^sup>*"
      by (meson converse_rtranclE)
    with step show ?thesis by auto
  qed
qed

lemma sub_siblings_disjoint:
  assumes wf: "skel_wf {} r N f" and a: "f a = Some s"
    and cd: "(c, d) \<in> set (sk_children s)" "(c', d') \<in> set (sk_children s)" "d \<noteq> d'"
  shows "sub f d \<inter> sub f d' = {}"
proof (rule ccontr)
  assume "sub f d \<inter> sub f d' \<noteq> {}"
  then have line: "d \<in> sub f d' \<or> d' \<in> sub f d" using sub_linear by blast
  have parent: "\<exists>es. f e = Some es \<and> sk_parent es = Some a \<and> a < e" if "(x, e) \<in> set (sk_children s)" for x e
    using skel_wf_child [OF wf a _ that] skel_wf_child_gt [OF wf a _ that] by blast
  have "e \<notin> sub f e'" if e: "(x, e) \<in> set (sk_children s)" "(x', e') \<in> set (sk_children s)" "e \<noteq> e'" for x e x' e'
  proof
    assume sub: "e \<in> sub f e'"
    obtain es where es: "f e = Some es" "sk_parent es = Some a" using parent [OF e(1)] by blast
    from sub e(3) have "a \<in> sub f e'"
      unfolding sub_def using es by (auto elim: converse_rtranclE)
    then have "e' \<le> a" by (rule sub_ge [OF wf])
    with parent [OF e(2)] show False by auto
  qed
  with line cd show False by metis
qed

lemma sub_root:
  assumes wf: "skel_wf {} r N f" and a: "f a = Some s"
  shows "a \<in> sub f r"
  using a
proof (induction a arbitrary: s rule: less_induct)
  case (less a)
  show ?case
  proof (cases "a = r")
    case True
    then show ?thesis by simp
  next
    case False
    then obtain p ps where "sk_parent s = Some p" "p < a" "f p = Some ps"
      using skel_wf_parent [OF wf less.prems] by auto
    with less.IH less.prems show ?thesis by (blast intro: sub_step)
  qed
qed

section \<open>The sweep\<close>

definition existing :: "heap \<Rightarrow> addr set" where
  "existing h = {b. \<exists>n. pnodes h b = Some n \<and> pt_exists n}"

text \<open>\<open>h'\<close> is \<open>h\<close> with exactly the existing nodes of \<open>A\<close> closed, listed in \<open>vs\<close>.\<close>

definition swept :: "libm \<Rightarrow> addr \<Rightarrow> heap \<Rightarrow> heap \<Rightarrow> addr set \<Rightarrow> addr list \<Rightarrow> bool" where
  "swept m r h h' A vs \<longleftrightarrow>
     store_ok r h' \<and> skeleton h' = skeleton h \<and> pnext h' = pnext h \<and>
     distinct vs \<and> set vs = A \<inter> existing h \<and>
     (\<forall>b. b \<notin> set vs \<longrightarrow> pnodes h' b = pnodes h b) \<and>
     (\<forall>b\<in>set vs. \<exists>n n'. pnodes h b = Some n \<and> pnodes h' b = Some n' \<and> closed_node m n n')"

lemma swept_refl: "store_ok r h \<Longrightarrow> swept m r h h {} []"
  by (simp add: swept_def)

lemma swept_existing: 
  assumes "swept m r h h' A vs" shows "existing h' = existing h"
proof -
  have "b \<in> existing h' \<longleftrightarrow> b \<in> existing h" for b
  proof (cases "b \<in> set vs")
    case True
    then obtain n n' where "pnodes h b = Some n" "pnodes h' b = Some n'" "pt_exists n' = pt_exists n"
      using assms unfolding swept_def closed_node_def by blast
    then show ?thesis by (simp add: existing_def)
  next
    case False
    then have "pnodes h' b = pnodes h b" using assms unfolding swept_def by blast
    then show ?thesis by (simp add: existing_def)
  qed
  then show ?thesis by blast
qed

lemma swept_comp:
  assumes s1: "swept m r h h1 A vs" and s2: "swept m r h1 h2 B ws" and disj: "A \<inter> B = {}"
  shows "swept m r h h2 (A \<union> B) (vs @ ws)"
proof -
  have ex: "existing h1 = existing h" using swept_existing [OF s1] .
  have sets: "set vs = A \<inter> existing h" "set ws = B \<inter> existing h" using s1 s2 ex by (simp_all add: swept_def)
  have "pnodes h2 b = pnodes h b" if "b \<notin> set (vs @ ws)" for b
    using s1 s2 that by (simp add: swept_def)
  moreover have "\<exists>n n'. pnodes h b = Some n \<and> pnodes h2 b = Some n' \<and> closed_node m n n'" if b: "b \<in> set (vs @ ws)" for b
  proof (cases "b \<in> set vs")
    case True
    then have "b \<notin> set ws" using sets disj by blast
    then have "pnodes h2 b = pnodes h1 b" using s2 by (simp add: swept_def)
    moreover have "\<exists>n n'. pnodes h b = Some n \<and> pnodes h1 b = Some n' \<and> closed_node m n n'"
      using True s1 unfolding swept_def by blast
    ultimately show ?thesis by simp
  next
    case False
    then have "pnodes h1 b = pnodes h b" using s1 by (simp add: swept_def)
    moreover have "b \<in> set ws" using False b by simp
    then have "\<exists>n n'. pnodes h1 b = Some n \<and> pnodes h2 b = Some n' \<and> closed_node m n n'"
      using s2 unfolding swept_def by blast
    ultimately show ?thesis by simp
  qed
  moreover have "distinct (vs @ ws)" "set (vs @ ws) = (A \<union> B) \<inter> existing h"
    using sets disj s1 s2 by (auto simp: swept_def)
  moreover have "store_ok r h2" "skeleton h2 = skeleton h" "pnext h2 = pnext h"
    using s1 s2 by (simp_all add: swept_def)
  ultimately show ?thesis unfolding swept_def by blast
qed

lemma distinct_children:
  assumes wf: "skel_wf {} r N f" and a: "f a = Some s"
  shows "distinct (map snd (sk_children s))"
proof -
  have "distinct (sk_children s)" using skel_wf_distinct [OF wf a] by (simp add: distinct_map)
  moreover have "inj_on snd (set (sk_children s))"
  proof (rule inj_onI)
    fix x y assume x: "x \<in> set (sk_children s)" and y: "y \<in> set (sk_children s)" and eq: "snd x = snd y"
    have "\<exists>bs. f (snd e) = Some bs \<and> sk_char bs = fst e" if "e \<in> set (sk_children s)" for e
      using skel_wf_child [OF wf a, of "fst e" "snd e"] that by auto
    from this [OF x] this [OF y] eq show "x = y" by (auto simp: prod_eq_iff)
  qed
  ultimately show ?thesis by (simp add: distinct_map)
qed

lemma iterate_children_spec:
  assumes IH: "\<And>d h out. d \<in> set (map snd cs) \<Longrightarrow> store_ok r h \<Longrightarrow> skeleton h = f \<Longrightarrow> pnext h = N \<Longrightarrow>
      \<exists>h' vs. iterate_to_vec m d (h, out) = Some (h', out @ vs) \<and> swept m r h h' (sub f d) vs"
    and disj: "\<And>d e. d \<in> set (map snd cs) \<Longrightarrow> e \<in> set (map snd cs) \<Longrightarrow> d \<noteq> e \<Longrightarrow> sub f d \<inter> sub f e = {}"
    and dist: "distinct (map snd cs)" and ok: "store_ok r h" "skeleton h = f" "pnext h = N"
  shows "\<exists>h' vs. mfold (\<lambda>child s. iterate_to_vec m (snd child) s) cs (h, out) = Some (h', out @ vs)
    \<and> swept m r h h' (\<Union>d\<in>set (map snd cs). sub f d) vs"
  using assms
proof (induction cs arbitrary: h out)
  case Nil
  then show ?case using swept_refl [of r h m] by simp
next
  case (Cons c cs)
  obtain h1 vs where s1: "iterate_to_vec m (snd c) (h, out) = Some (h1, out @ vs)" "swept m r h h1 (sub f (snd c)) vs"
    using Cons.prems(1) [of "snd c" h out] Cons.prems(4,5,6) by auto
  have ok1: "store_ok r h1" "skeleton h1 = f" "pnext h1 = N" using s1(2) Cons.prems(5,6) by (simp_all add: swept_def)
  have "\<exists>h' ws. mfold (\<lambda>child s. iterate_to_vec m (snd child) s) cs (h1, out @ vs) = Some (h', (out @ vs) @ ws)
    \<and> swept m r h1 h' (\<Union>d\<in>set (map snd cs). sub f d) ws"
    using Cons.prems(3) by (intro Cons.IH ok1 Cons.prems(1,2)) simp_all
  then obtain h2 ws where s2: "mfold (\<lambda>child s. iterate_to_vec m (snd child) s) cs (h1, out @ vs) = Some (h2, out @ vs @ ws)"
    "swept m r h1 h2 (\<Union>d\<in>set (map snd cs). sub f d) ws" by auto
  have "sub f (snd c) \<inter> (\<Union>d\<in>set (map snd cs). sub f d) = {}"
    using Cons.prems(2) [of "snd c"] Cons.prems(3) by fastforce
  from swept_comp [OF s1(2) s2(2) this] s1(1) s2(1) show ?case by auto
qed

lemma swept_one:
  assumes ok: "store_ok r h" and n: "pnodes h a = Some n" and ex: "pt_exists n"
  shows "\<exists>h'. iterate_update m a h = Some h' \<and> swept m r h h' {a} [a]"
proof -
  obtain h' n' where h': "iterate_update m a h = Some h'" "store_ok r h'" "skeleton h' = skeleton h" "pnext h' = pnext h"
    "pnodes h' = (pnodes h)(a \<mapsto> n')" "closed_node m n n'"
    using iterate_update_spec [OF ok n] by blast
  have "a \<in> existing h" using n ex by (simp add: existing_def)
  with h' n show ?thesis by (auto simp: swept_def)
qed

lemma swept_skip:
  assumes "store_ok r h" and "a \<notin> existing h" shows "swept m r h h {a} []"
  using assms by (simp add: swept_def)

lemma sub_unfold:
  assumes wf: "skel_wf {} r N f" and a: "f a = Some s"
  shows "sub f a = (\<Union>d\<in>set (map snd (sk_children s)). sub f d) \<union> {a}" and "a \<notin> (\<Union>d\<in>set (map snd (sk_children s)). sub f d)"
proof -
  let ?below = "\<Union>d\<in>set (map snd (sk_children s)). sub f d"
  show "sub f a = ?below \<union> {a}"
  proof
    show "sub f a \<subseteq> ?below \<union> {a}" using sub_cases [OF wf a] by fastforce
    show "?below \<union> {a} \<subseteq> sub f a" using sub_child [OF wf a] by auto
  qed
  show "a \<notin> ?below"
  proof
    assume "a \<in> ?below"
    then obtain c d where d: "(c, d) \<in> set (sk_children s)" "a \<in> sub f d" by auto
    then have "d \<le> a" "a < d" using sub_ge [OF wf d(2)] skel_wf_child_gt [OF wf a _ d(1)] by auto
    then show False by simp
  qed
qed

lemma iterate_to_vec_node:
  assumes n: "pnodes h a = Some n"
    and kids: "mfold (\<lambda>child s. iterate_to_vec m (snd child) s) (children n) (h, out) = Some (h1, out @ vs)"
    and sw: "swept m r h h1 A vs" and a: "a \<notin> A"
  shows "\<exists>h' ws. iterate_to_vec m a (h, out) = Some (h', out @ ws) \<and> swept m r h h' (A \<union> {a}) ws"
proof -
  have "a \<notin> set vs" using sw a by (simp add: swept_def)
  then have n1: "pnodes h1 a = Some n" using sw n by (simp add: swept_def)
  have ok1: "store_ok r h1" using sw by (simp add: swept_def)
  show ?thesis
  proof (cases "pt_exists n")
    case True
    obtain h2 where h2: "iterate_update m a h1 = Some h2" "swept m r h1 h2 {a} [a]"
      using swept_one [OF ok1 n1 True] by blast
    have "swept m r h h2 (A \<union> {a}) (vs @ [a])" by (rule swept_comp [OF sw h2(2)]) (use a in simp)
    moreover have "iterate_to_vec m a (h, out) = Some (h2, out @ vs @ [a])"
      by (subst iterate_to_vec.simps) (simp add: n kids n1 True h2(1))
    ultimately show ?thesis by blast
  next
    case False
    then have "a \<notin> existing h1" using n1 by (simp add: existing_def)
    then have "swept m r h h1 (A \<union> {a}) (vs @ [])" by (intro swept_comp [OF sw swept_skip [OF ok1]]) (use a in simp_all)
    moreover have "iterate_to_vec m a (h, out) = Some (h1, out @ vs)"
      by (subst iterate_to_vec.simps) (simp add: n kids n1 False)
    ultimately show ?thesis by auto
  qed
qed

lemma iterate_to_vec_spec:
  assumes "store_ok r h" and "skeleton h = f" and "pnext h = N" and "f a = Some s"
  shows "\<exists>h' vs. iterate_to_vec m a (h, out) = Some (h', out @ vs) \<and> swept m r h h' (sub f a) vs"
  using assms
proof (induction "N - a" arbitrary: a s h out rule: less_induct)
  case less
  have wf: "skel_wf {} r N f" using store_okD(4) [OF less.prems(1)] less.prems(2,3) by simp
  obtain n where n: "pnodes h a = Some n" "s = skel_of n" using less.prems(2,4) by (auto simp: skeleton_def)
  have kids: "sk_children s = children n" by (simp add: n(2) skel_of_def)
  have cd: "\<exists>ds. f d = Some ds \<and> a < d \<and> d < N" if d: "d \<in> set (map snd (children n))" for d
  proof -
    obtain x where x: "(x, d) \<in> set (sk_children s)" using d kids by auto
    obtain ds where ds: "f d = Some ds" using skel_wf_child [OF wf less.prems(4) _ x] by auto
    moreover have "a < d" using skel_wf_child_gt [OF wf less.prems(4) _ x] by simp
    moreover have "d < N" using skel_wf_bound [OF wf ds] .
    ultimately show ?thesis by blast
  qed
  have "\<exists>h' vs. mfold (\<lambda>child s. iterate_to_vec m (snd child) s) (children n) (h, out) = Some (h', out @ vs)
    \<and> swept m r h h' (\<Union>d\<in>set (map snd (children n)). sub f d) vs"
  proof (rule iterate_children_spec [where N = N])
    fix d h1 out1 assume d: "d \<in> set (map snd (children n))" and h1: "store_ok r h1" "skeleton h1 = f" "pnext h1 = N"
    obtain ds where ds: "f d = Some ds" "a < d" "d < N" using cd [OF d] by blast
    show "\<exists>h' vs. iterate_to_vec m d (h1, out1) = Some (h', out1 @ vs) \<and> swept m r h1 h' (sub f d) vs"
      by (rule less.hyps [OF _ h1 ds(1)]) (use ds in simp)
  next
    fix d e assume "d \<in> set (map snd (children n))" "e \<in> set (map snd (children n))" "d \<noteq> e"
    then show "sub f d \<inter> sub f e = {}" using sub_siblings_disjoint [OF wf less.prems(4)] kids by fastforce
  qed (use less.prems distinct_children [OF wf less.prems(4)] kids in simp_all)
  then obtain h1 vs where h1: "mfold (\<lambda>child s. iterate_to_vec m (snd child) s) (children n) (h, out) = Some (h1, out @ vs)"
    "swept m r h h1 (\<Union>d\<in>set (map snd (sk_children s)). sub f d) vs" unfolding kids by blast
  from iterate_to_vec_node [OF n(1) h1 sub_unfold(2) [OF wf less.prems(4)]]
  show ?case unfolding sub_unfold(1) [OF wf less.prems(4)] .
qed

lemma existing_sub_root:
  assumes "store_ok r h" shows "existing h \<subseteq> sub (skeleton h) r"
proof
  fix b assume "b \<in> existing h"
  then obtain n where "skeleton h b = Some (skel_of n)" by (auto simp: existing_def skeleton_def)
  then show "b \<in> sub (skeleton h) r" using sub_root [OF store_okD(4) [OF assms]] by blast
qed

lemma iterate_to_vec_root:
  assumes ok: "store_ok r h"
  shows "\<exists>h' vs. iterate_to_vec m r (h, []) = Some (h', vs) \<and> swept m r h h' (existing h) vs"
proof -
  obtain s where s: "skeleton h r = Some s" using skel_wf_root [OF store_okD(4) [OF ok]] by blast
  obtain h' vs where "iterate_to_vec m r (h, []) = Some (h', vs)" "swept m r h h' (sub (skeleton h) r) vs"
    using iterate_to_vec_spec [OF ok refl refl s, of m "[]"] by auto
  moreover have "sub (skeleton h) r \<inter> existing h = existing h" using existing_sub_root [OF ok] by blast
  ultimately show ?thesis by (auto simp: swept_def)
qed

text \<open>
  C25: on a store that satisfies the invariant, \<^verbatim>\<open>iterate_to_vec\<close> from the root always returns;
  it lists every existing prefix exactly once and nothing else, moves the current
  probabilities of each listed node to the previous ones and recomputes its score, and leaves
  the shape of the trie and every other node as they were.
\<close>

theorem iterate_to_vec_lists_existing:
  assumes "store_ok r h"
  shows "\<exists>h' vs. iterate_to_vec m r (h, []) = Some (h', vs) \<and> store_ok r h' \<and> skeleton h' = skeleton h
    \<and> distinct vs \<and> set vs = existing h
    \<and> (\<forall>b. b \<notin> existing h \<longrightarrow> pnodes h' b = pnodes h b)
    \<and> (\<forall>b\<in>existing h. \<exists>n n'. pnodes h b = Some n \<and> pnodes h' b = Some n' \<and> closed_node m n n')"
proof -
  obtain h' vs where "iterate_to_vec m r (h, []) = Some (h', vs)" "swept m r h h' (existing h) vs"
    using iterate_to_vec_root [OF assms, of m] by blast
  then show ?thesis unfolding swept_def by auto
qed

theorem iterate_to_vec_lists_existing_witness:
  "\<exists>h' vs. iterate_to_vec \<lparr>logf = (\<lambda>x. x), expf = (\<lambda>x. x), log_d = (\<lambda>x. x)\<rparr> 0 (root_heap, []) = Some (h', vs)
    \<and> store_ok 0 h' \<and> skeleton h' = skeleton root_heap
    \<and> distinct vs \<and> set vs = existing root_heap
    \<and> (\<forall>b. b \<notin> existing root_heap \<longrightarrow> pnodes h' b = pnodes root_heap b)
    \<and> (\<forall>b\<in>existing root_heap. \<exists>n n'. pnodes root_heap b = Some n \<and> pnodes h' b = Some n'
         \<and> closed_node \<lparr>logf = (\<lambda>x. x), expf = (\<lambda>x. x), log_d = (\<lambda>x. x)\<rparr> n n')"
  by (rule iterate_to_vec_lists_existing [OF root_heap_ok])

end
