(* ===== verification/Trie_Grow.thy ===== *)
theory Trie_Grow
  imports Trie_Iterate
begin

text \<open>
  What one call of \<^verbatim>\<open>PathTrie::get_path_trie\<close> and one update of a node's probabilities do to
  the whole store: the invariant holds afterwards, every prefix keeps its path, no prefix stops
  existing, and the tree of time steps is untouched.
\<close>

definition labels_in :: "u32 set \<Rightarrow> heap \<Rightarrow> bool" where
  "labels_in L h \<longleftrightarrow> (\<forall>a n. pnodes h a = Some n \<longrightarrow> character n = ROOT \<or> character n \<in> L)"

definition grown :: "u32 set \<Rightarrow> heap \<Rightarrow> heap \<Rightarrow> bool" where
  "grown L h h' \<longleftrightarrow> path_ext h h' \<and> tnodes h' = tnodes h \<and> tnext h' = tnext h \<and> existing h \<subseteq> existing h'
     \<and> (labels_in L h \<longrightarrow> labels_in L h')"

lemma grown_refl [simp]: "grown L h h"
  by (simp add: grown_def)

lemma grown_trans: "grown L h h1 \<Longrightarrow> grown L h1 h2 \<Longrightarrow> grown L h h2"
  by (auto simp: grown_def intro: path_ext_trans)

lemma store_ok_path:
  assumes "store_ok r h" and "pnodes h a = Some n" obtains xs where "has_path (skeleton h) a xs"
  using has_path_total [OF store_okD(4) [OF assms(1)], of a "skel_of n"] assms(2) by (auto simp: skeleton_def)

text \<open>The pointers of the old nodes fit after a change that keeps paths, time steps, and the
  two pointers of every old node, when the new nodes have none.\<close>

lemma ts_link_ext:
  assumes ok: "store_ok r h" and ext: "path_ext h h'" and tn: "tnodes h' = tnodes h"
    and old: "\<And>b n'. pnodes h' b = Some n' \<Longrightarrow> (timesteps n' = None \<and> previous_timesteps n' = None) \<or>
      (\<exists>n. pnodes h b = Some n \<and> timesteps n' = timesteps n \<and> previous_timesteps n' = previous_timesteps n)"
  shows "ts_link h'"
  unfolding ts_link_def
proof (intro allI impI)
  fix b n' xs assume b: "pnodes h' b = Some n'" and xs: "has_path (skeleton h') b xs"
  from old [OF b] show "ts_ok h' (length xs) n'"
  proof
    assume "timesteps n' = None \<and> previous_timesteps n' = None"
    then show ?thesis by (simp add: ts_ok_def)
  next
    assume "\<exists>n. pnodes h b = Some n \<and> timesteps n' = timesteps n \<and> previous_timesteps n' = previous_timesteps n"
    then obtain n where n: "pnodes h b = Some n" "timesteps n' = timesteps n" "previous_timesteps n' = previous_timesteps n"
      by blast
    obtain ys where ys: "has_path (skeleton h) b ys" using store_ok_path [OF ok n(1)] .
    then have "ys = xs" using ext has_path_unique [OF xs] unfolding path_ext_def by blast
    then have "ts_ok h (length xs) n" using store_okD(3) [OF ok] n(1) ys unfolding ts_link_def by blast
    then show ?thesis unfolding ts_ok_cong [OF tn] using n(2,3) by (simp add: ts_ok_def)
  qed
qed

lemma store_ok_ext:
  assumes ok: "store_ok r h" and wf: "trie_wf r h'" and ext: "path_ext h h'" and tn: "tnodes h' = tnodes h" "tnext h' = tnext h"
    and old: "\<And>b n'. pnodes h' b = Some n' \<Longrightarrow> (timesteps n' = None \<and> previous_timesteps n' = None) \<or>
      (\<exists>n. pnodes h b = Some n \<and> timesteps n' = timesteps n \<and> previous_timesteps n' = previous_timesteps n)"
  shows "store_ok r h'"
  using wf ts_link_ext [OF ok ext tn(1) old] ts_wf_cong [OF tn] store_okD(2) [OF ok] by (simp add: store_ok_def)

section \<open>One call of get_path_trie\<close>

text \<open>Everything but the children and the state of the dictionary.\<close>

definition same_scores :: "path_trie \<Rightarrow> path_trie \<Rightarrow> bool" where
  "same_scores n n' \<longleftrightarrow> character n' = character n \<and> parent n' = parent n \<and> timesteps n' = timesteps n \<and>
     previous_timesteps n' = previous_timesteps n \<and> new_timestep n' = new_timestep n \<and>
     score n' = score n \<and> log_prob_b_prev n' = log_prob_b_prev n \<and> log_prob_nb_prev n' = log_prob_nb_prev n \<and>
     log_prob_b_cur n' = log_prob_b_cur n \<and> log_prob_nb_cur n' = log_prob_nb_cur n \<and> pt_exists n' = pt_exists n"

lemma same_scores_refl [simp]: "same_scores n n"
  by (simp add: same_scores_def)

text \<open>The nodes after a call: an old node keeps its time steps and label and does not stop
  existing; a new node has no time steps and the given label.\<close>

lemma get_path_trie_nodes:
  assumes wf: "trie_wf r h" and n: "pnodes h a = Some n"
  shows "\<exists>res h'. get_path_trie a c lp reset h = Some (res, h')
    \<and> (\<forall>b n0. pnodes h b = Some n0 \<longrightarrow> (\<exists>n'. pnodes h' b = Some n' \<and> timesteps n' = timesteps n0
         \<and> previous_timesteps n' = previous_timesteps n0 \<and> character n' = character n0 \<and> (pt_exists n0 \<longrightarrow> pt_exists n')))
    \<and> (\<forall>b n'. pnodes h' b = Some n' \<longrightarrow> pnodes h b \<noteq> None
         \<or> (timesteps n' = None \<and> previous_timesteps n' = None \<and> character n' = c))
    \<and> (\<exists>n'. pnodes h' a = Some n' \<and> same_scores n n') \<and> res \<noteq> Some a"
  using wf n
proof (cases rule: get_path_trie_outcome [where c = c and lp = lp and reset = reset])
  case (child b cn)
  have swf: "skel_wf {} r (pnext h) (skeleton h)" using wf by (simp add: trie_wf_def)
  have "skeleton h a = Some (skel_of n)" using n by (simp add: skeleton_def)
  then have "a < b" using skel_wf_child_gt(2) [OF swf _ _, of a "skel_of n" c b] child(1) by simp
  then have "a \<noteq> b" by simp
  with child n show ?thesis by (simp add: set_pnode_sel)
next
  case (fresh node)
  have swf: "skel_wf {} r (pnext h) (skeleton h)" using wf by (simp add: trie_wf_def)
  have bound: "b < pnext h" if "pnodes h b = Some m" for b m
    using skel_wf_bound [OF swf, of b "skel_of m"] that by (simp add: skeleton_def)
  have ne: "b \<noteq> pnext h" if "pnodes h b = Some m" for b m using bound [OF that] by simp
  let ?h = "set_pnode a (n\<lparr>children := children n @ [(c, pnext h)]\<rparr>) (snd (alloc_pnode node h))"
  have nodes: "pnodes ?h = (pnodes h)(pnext h \<mapsto> node, a \<mapsto> n\<lparr>children := children n @ [(c, pnext h)]\<rparr>)"
    by (simp add: set_pnode_def alloc_pnode_def)
  have "\<exists>n'. pnodes ?h b = Some n' \<and> timesteps n' = timesteps n0 \<and> previous_timesteps n' = previous_timesteps n0
      \<and> character n' = character n0 \<and> (pt_exists n0 \<longrightarrow> pt_exists n')" if "pnodes h b = Some n0" for b n0
    unfolding nodes using that n ne [OF that] by (cases "b = a") simp_all
  moreover have "pnodes h b \<noteq> None \<or> (timesteps n' = None \<and> previous_timesteps n' = None \<and> character n' = c)"
    if "pnodes ?h b = Some n'" for b n'
    using that n fresh(3,6,7) unfolding nodes by (auto split: if_splits)
  moreover have "\<exists>n'. pnodes ?h a = Some n' \<and> same_scores n n'" unfolding nodes by (simp add: same_scores_def)
  ultimately show ?thesis using fresh(9) ne [OF n] by auto
next
  case (refused st)
  with n show ?thesis by (simp add: set_pnode_sel same_scores_def)
qed

lemma get_path_trie_ok:
  assumes ok: "store_ok r h" and n: "pnodes h a = Some n" and c: "c \<noteq> ROOT" "c \<in> L" and path: "has_path (skeleton h) a xs"
  shows "\<exists>res h' n'. get_path_trie a c lp reset h = Some (res, h') \<and> store_ok r h' \<and> grown L h h'
    \<and> pnodes h' a = Some n' \<and> same_scores n n'
    \<and> (\<forall>b. res = Some b \<longrightarrow> b \<noteq> a \<and> has_path (skeleton h') b (xs @ [c]) \<and> b \<in> existing h')"
proof -
  obtain res h' where g: "get_path_trie a c lp reset h = Some (res, h')" "trie_wf r h'" "path_ext h h'"
    "tnodes h' = tnodes h" "tnext h' = tnext h"
    "\<And>b. res = Some b \<Longrightarrow> has_path (skeleton h') b (xs @ [c]) \<and> (\<exists>bn. pnodes h' b = Some bn \<and> pt_exists bn)"
    using get_path_trie_spec [OF store_okD(1) [OF ok] n c(1) path, of lp reset] by blast
  obtain n' where old: "\<And>b n0. pnodes h b = Some n0 \<Longrightarrow> \<exists>n'. pnodes h' b = Some n' \<and> timesteps n' = timesteps n0
        \<and> previous_timesteps n' = previous_timesteps n0 \<and> character n' = character n0 \<and> (pt_exists n0 \<longrightarrow> pt_exists n')"
    and new: "\<And>b n'. pnodes h' b = Some n' \<Longrightarrow> pnodes h b \<noteq> None
        \<or> (timesteps n' = None \<and> previous_timesteps n' = None \<and> character n' = c)"
    and self: "pnodes h' a = Some n'" "same_scores n n'" "res \<noteq> Some a"
    using get_path_trie_nodes [OF store_okD(1) [OF ok] n, of c lp reset] g(1) by fastforce
  have origin: "(timesteps n' = None \<and> previous_timesteps n' = None \<and> character n' = c) \<or>
      (\<exists>n. pnodes h b = Some n \<and> timesteps n' = timesteps n \<and> previous_timesteps n' = previous_timesteps n \<and> character n' = character n)"
    if "pnodes h' b = Some n'" for b n'
    using new [OF that] old [of b] that by fastforce
  have "store_ok r h'" by (rule store_ok_ext [OF ok g(2-5)]) (use origin in blast)
  moreover have "existing h \<subseteq> existing h'" unfolding existing_def using old by blast
  moreover have "labels_in L h \<longrightarrow> labels_in L h'" unfolding labels_in_def using origin c(2) by metis
  moreover have "\<And>b. res = Some b \<Longrightarrow> b \<in> existing h'" using g(6) by (auto simp: existing_def)
  ultimately show ?thesis using g(1,3,4,5,6) self unfolding grown_def by blast
qed

section \<open>One update of a node's probabilities\<close>

text \<open>The beam search only ever changes the current probabilities, the pending time step and
  the pointer to the previous time steps of a node.\<close>

lemma update_ok:
  assumes ok: "store_ok r h" and n: "pnodes h a = Some n" and sk: "skel_of n' = skel_of n"
    and keep: "pt_exists n' = pt_exists n" "has_dictionary n' = has_dictionary n" "dictionary n' = dictionary n" "timesteps n' = timesteps n"
    and pt: "\<And>xs t. has_path (skeleton h) a xs \<Longrightarrow> previous_timesteps n' = Some t \<Longrightarrow> previous_timesteps n' \<noteq> previous_timesteps n \<Longrightarrow>
        \<exists>j. length xs = Suc j \<and> ts_depth h t j"
  shows "store_ok r (set_pnode a n' h)" "grown L h (set_pnode a n' h)"
proof -
  show "store_ok r (set_pnode a n' h)"
  proof (rule store_ok_set_same [OF ok n sk])
    show "has_dictionary n' \<longrightarrow> dictionary n' \<noteq> None" using store_okD(5) [OF ok] n keep by (auto simp: dict_ok_def)
    fix xs assume xs: "has_path (skeleton h) a xs"
    have "ts_ok h (length xs) n" using store_okD(3) [OF ok] n xs unfolding ts_link_def by blast
    then show "ts_ok h (length xs) n'" using keep(4) pt [OF xs] unfolding ts_ok_def by metis
  qed
  have "character n' = character n" using sk by (simp add: skel_of_def)
  then have "labels_in L h \<longrightarrow> labels_in L (set_pnode a n' h)" using n by (auto simp: labels_in_def set_pnode_sel)
  moreover have "existing h \<subseteq> existing (set_pnode a n' h)" using n keep(1) by (auto simp: existing_def set_pnode_sel)
  ultimately show "grown L h (set_pnode a n' h)"
    using skeleton_set_same [OF n sk] by (simp add: grown_def path_ext_same set_pnode_sel)
qed

end
