(* ===== verification/Ngram_Spec.thy ===== *)
theory Ngram_Spec
  imports Dictionary_Build Trie_Grow
begin

text \<open>
  \<^verbatim>\<open>Scorer::make_ngram\<close> against a specification on label sequences: the last
  \<^verbatim>\<open>max_order_\<close> units of a prefix, where a unit is a word between space labels or, for a
  byte-based model, the labels of one code point.
\<close>

section \<open>Units of a label sequence\<close>

definition before_unit :: "(u32 \<Rightarrow> bool) \<Rightarrow> u32 list \<Rightarrow> u32 list" where
  "before_unit brk xs = rev (dropWhile (\<lambda>c. \<not> brk c) (rev xs))"

definition last_unit :: "(u32 \<Rightarrow> bool) \<Rightarrow> bool \<Rightarrow> u32 list \<Rightarrow> u32 list" where
  "last_unit brk incl xs =
     (if incl \<and> before_unit brk xs \<noteq> [] then [last (before_unit brk xs)] else [])
     @ rev (takeWhile (\<lambda>c. \<not> brk c) (rev xs))"

fun last_units :: "(u32 \<Rightarrow> bool) \<Rightarrow> bool \<Rightarrow> nat \<Rightarrow> u32 list \<Rightarrow> u32 list list" where
  "last_units brk incl 0 xs = []"
| "last_units brk incl (Suc k) xs =
     (if xs = [] then [] else last_units brk incl k (butlast (before_unit brk xs)) @ [last_unit brk incl xs])"

lemma unit_snoc:
  "before_unit brk (xs @ [c]) = (if brk c then xs @ [c] else before_unit brk xs)"
  "last_unit brk incl (xs @ [c]) = (if brk c then (if incl then [c] else []) else last_unit brk incl xs @ [c])"
  "before_unit brk [] = []" "last_unit brk incl [] = []"
  by (auto simp: before_unit_def last_unit_def)

lemma before_unit_prefix: "\<exists>ys. xs = before_unit brk xs @ ys"
  by (rule exI [of _ "rev (takeWhile (\<lambda>c. \<not> brk c) (rev xs))"])
    (metis before_unit_def rev_append rev_rev_ident takeWhile_dropWhile_id)

lemma before_unit_subset: "set (before_unit brk xs) \<subseteq> set xs"
  using before_unit_prefix [of xs brk] by (metis Un_upper1 set_append)

lemma last_unit_subset: "set (last_unit brk incl xs) \<subseteq> set xs"
proof -
  have "set (rev (takeWhile (\<lambda>c. \<not> brk c) (rev xs))) \<subseteq> set xs" by (auto dest: set_takeWhileD)
  then show ?thesis using before_unit_subset [of brk xs] last_in_set [of "before_unit brk xs"]
    by (auto simp: last_unit_def)
qed

lemma last_units_length: "length (last_units brk incl k xs) \<le> k"
  by (induction k arbitrary: xs) auto

lemma Decode_total:
  assumes "set xs \<subseteq> dom (label_to_str al)" shows "\<exists>w. Decode al xs = Some w"
proof -
  have "\<exists>w. mfold (\<lambda>ind word. do { s \<leftarrow> DecodeSingle al ind; Some (word @ s) }) xs acc = Some w" for acc
    using assms
  proof (induction xs arbitrary: acc)
    case Nil
    then show ?case by simp
  next
    case (Cons x xs)
    then obtain s where "label_to_str al x = Some s" by auto
    with Cons show ?case by (simp add: DecodeSingle_def)
  qed
  then show ?thesis by (simp add: Decode_def)
qed

section \<open>Walking back over one unit\<close>

text \<open>The two inductions on a path: at the root it is empty, elsewhere it ends with the label of
  the node.\<close>

lemma has_path_node_cases:
  assumes wf: "skel_wf {} r N (skeleton h)" and path: "has_path (skeleton h) a xs"
  obtains (rt) n where "pnodes h a = Some n" "parent n = None" "character n = ROOT" "xs = []"
  | (node) n p ys where "pnodes h a = Some n" "parent n = Some p" "character n \<noteq> ROOT" "has_path (skeleton h) p ys"
      "xs = ys @ [character n]"
proof -
  obtain n where n: "pnodes h a = Some n" using has_path_live [OF path] by (auto simp: skeleton_Some)
  show thesis
  proof (cases "a = r")
    case True
    have "xs = []" using has_path_unique [OF path] has_path_root [OF wf] True by blast
    then show ?thesis using rt n skel_wf_root [OF wf] True by (auto simp: skeleton_def)
  next
    case False
    have sk: "skeleton h a = Some (skel_of n)" using n by (simp add: skeleton_def)
    obtain p ps ys where "sk_parent (skel_of n) = Some p" "has_path (skeleton h) p ys" "xs = ys @ [sk_char (skel_of n)]"
      by (rule has_path_child [OF wf sk _ False path]) simp_all
    moreover have "character n \<noteq> ROOT" using skel_wf_parent [OF wf sk _ False] by simp
    ultimately show ?thesis using node n by simp
  qed
qed

lemma get_prev_word_spec:
  assumes wf: "skel_wf {} r N (skeleton h)"
  shows "has_path (skeleton h) a xs \<Longrightarrow> \<exists>stop. get_prev_word h a out al = Some (stop, out @ last_unit (\<lambda>c. c = GetSpaceLabel al) False xs)
    \<and> has_path (skeleton h) stop (before_unit (\<lambda>c. c = GetSpaceLabel al) xs)"
proof (induction xs arbitrary: a rule: rev_induct)
  case Nil
  from wf Nil show ?case
    by (cases rule: has_path_node_cases) (auto simp: get_prev_word.simps unit_snoc Nil)
next
  case (snoc c xs)
  from wf snoc.prems show ?case
  proof (cases rule: has_path_node_cases)
    case (node n p ys)
    then have path: "has_path (skeleton h) p xs" and c: "character n = c" by simp_all
    show ?thesis
    proof (cases "c = GetSpaceLabel al")
      case True
      then show ?thesis using node(1) c snoc.prems by (subst get_prev_word.simps) (simp add: unit_snoc)
    next
      case False
      obtain stop where "get_prev_word h p out al = Some (stop, out @ last_unit (\<lambda>c. c = GetSpaceLabel al) False xs)"
        "has_path (skeleton h) stop (before_unit (\<lambda>c. c = GetSpaceLabel al) xs)"
        using snoc.IH [OF path] by blast
      then show ?thesis using node(1,2,3) c False by (subst get_prev_word.simps) (simp add: unit_snoc)
    qed
  qed simp
qed

definition boundary_label :: "alphabet \<Rightarrow> u32 \<Rightarrow> bool" where
  "boundary_label al c \<longleftrightarrow> (case label_to_str al c of Some s \<Rightarrow> byte_is_codepoint_boundary (first_byte_of s) | None \<Rightarrow> False)"

lemma get_prev_grapheme_spec:
  assumes wf: "skel_wf {} r N (skeleton h)"
  shows "has_path (skeleton h) a xs \<Longrightarrow> set xs \<subseteq> dom (label_to_str al) \<Longrightarrow>
    \<exists>stop. get_prev_grapheme h a out al = Some (stop, out @ last_unit (boundary_label al) True xs)
    \<and> has_path (skeleton h) stop (before_unit (boundary_label al) xs)"
proof (induction xs arbitrary: a rule: rev_induct)
  case Nil
  from wf Nil(1) show ?case
    by (cases rule: has_path_node_cases) (auto simp: get_prev_grapheme.simps unit_snoc Nil)
next
  case (snoc c xs)
  from wf snoc.prems(1) show ?case
  proof (cases rule: has_path_node_cases)
    case (node n p ys)
    then have path: "has_path (skeleton h) p xs" and c: "character n = c" by simp_all
    obtain s where s: "label_to_str al c = Some s" using snoc.prems(2) by auto
    show ?thesis
    proof (cases "boundary_label al c")
      case True
      then show ?thesis using node(1,3) c s snoc.prems(1)
        by (subst get_prev_grapheme.simps) (simp add: unit_snoc boundary_label_def DecodeSingle_def)
    next
      case False
      obtain stop where "get_prev_grapheme h p out al = Some (stop, out @ last_unit (boundary_label al) True xs)"
        "has_path (skeleton h) stop (before_unit (boundary_label al) xs)"
        using snoc.IH [OF path] snoc.prems(2) by auto
      then show ?thesis using node(1,2,3) c s False
        by (subst get_prev_grapheme.simps) (simp add: unit_snoc boundary_label_def DecodeSingle_def)
    qed
  qed simp
qed

section \<open>The loop over units\<close>

locale unit_walk =
  fixes walk :: "alphabet \<Rightarrow> heap \<Rightarrow> addr \<Rightarrow> (addr \<times> u32 list) option"
    and brk :: "alphabet \<Rightarrow> u32 \<Rightarrow> bool" and incl :: bool
  assumes walk_back: "skel_wf {} r N (skeleton h) \<Longrightarrow> has_path (skeleton h) a xs \<Longrightarrow> set xs \<subseteq> dom (label_to_str al) \<Longrightarrow>
    \<exists>stop. walk al h a = Some (stop, last_unit (brk al) incl xs) \<and> has_path (skeleton h) stop (before_unit (brk al) xs)"
begin

lemma loop_units:
  assumes wf: "skel_wf {} r N (skeleton h)"
  shows "has_path (skeleton h) a xs \<Longrightarrow> set xs \<subseteq> dom (label_to_str al) \<Longrightarrow>
    \<exists>ws. make_ngram_loop (walk al h) al h k (Some a) acc = Some (acc @ rev ws)
      \<and> list_all2 (\<lambda>ls w. Decode al ls = Some w) (last_units (brk al) incl k xs) ws"
proof (induction k arbitrary: a xs acc)
  case 0
  then show ?case by simp
next
  case (Suc k)
  from wf Suc.prems(1) show ?case
  proof (cases rule: has_path_node_cases)
    case (rt n)
    then show ?thesis by simp
  next
    case (node n p ys)
    obtain stop where stop: "walk al h a = Some (stop, last_unit (brk al) incl xs)" "has_path (skeleton h) stop (before_unit (brk al) xs)"
      using walk_back [OF wf Suc.prems] by blast
    have "set (last_unit (brk al) incl xs) \<subseteq> dom (label_to_str al)" using last_unit_subset Suc.prems(2) by blast
    then obtain w where w: "Decode al (last_unit (brk al) incl xs) = Some w" using Decode_total by blast
    have sub: "set (butlast (before_unit (brk al) xs)) \<subseteq> dom (label_to_str al)"
      using before_unit_subset [of "brk al" xs] Suc.prems(2) by (meson in_set_butlastD subset_iff)
    have "\<exists>nn ws. pnodes h stop = Some nn \<and> make_ngram_loop (walk al h) al h k (parent nn) (acc @ [w]) = Some (acc @ w # rev ws)
      \<and> list_all2 (\<lambda>ls w. Decode al ls = Some w) (last_units (brk al) incl k (butlast (before_unit (brk al) xs))) ws"
      using wf stop(2)
    proof (cases rule: has_path_node_cases)
      case (rt nn)
      then show ?thesis by (cases k) auto
    next
      case (node nn q zs)
      then have "has_path (skeleton h) q (butlast (before_unit (brk al) xs))" by simp
      from Suc.IH [OF this sub, of "acc @ [w]"] node(1,2) show ?thesis by auto
    qed
    then obtain nn ws where "pnodes h stop = Some nn"
      "make_ngram_loop (walk al h) al h k (parent nn) (acc @ [w]) = Some (acc @ w # rev ws)"
      "list_all2 (\<lambda>ls w. Decode al ls = Some w) (last_units (brk al) incl k (butlast (before_unit (brk al) xs))) ws" by blast
    with node stop(1) w show ?thesis
      by (intro exI [of _ "ws @ [w]"]) (simp add: list_all2_appendI)
  qed
qed

end

interpretation word_walk: unit_walk "\<lambda>al h a. get_prev_word h a [] al" "\<lambda>al c. c = GetSpaceLabel al" False
proof
  show "\<exists>stop. get_prev_word h a [] al = Some (stop, last_unit (\<lambda>c. c = GetSpaceLabel al) False xs)
      \<and> has_path (skeleton h) stop (before_unit (\<lambda>c. c = GetSpaceLabel al) xs)"
    if "skel_wf {} r N (skeleton h)" "has_path (skeleton h) a xs" for r N h a xs al
    using get_prev_word_spec [OF that, of "[]" al] by simp
qed

interpretation grapheme_walk: unit_walk "\<lambda>al h a. get_prev_grapheme h a [] al" boundary_label True
proof
  show "\<exists>stop. get_prev_grapheme h a [] al = Some (stop, last_unit (boundary_label al) True xs)
      \<and> has_path (skeleton h) stop (before_unit (boundary_label al) xs)"
    if "skel_wf {} r N (skeleton h)" "has_path (skeleton h) a xs" "set xs \<subseteq> dom (label_to_str al)" for r N h a xs al
    using get_prev_grapheme_spec [OF that, of "[]"] by simp
qed

text \<open>The units of the mode of a scorer.\<close>

definition scored_units :: "'s scorer \<Rightarrow> u32 list \<Rightarrow> u32 list list" where
  "scored_units s xs =
     (if is_utf8_mode s then last_units (boundary_label (s_alphabet s)) True (max_order s) xs
      else last_units (\<lambda>c. c = GetSpaceLabel (s_alphabet s)) False (max_order s) xs)"

lemma make_ngram_units:
  assumes wf: "skel_wf {} r N (skeleton h)" and path: "has_path (skeleton h) a xs" and sub: "set xs \<subseteq> dom (label_to_str (s_alphabet s))"
  shows "\<exists>ws. make_ngram s h a = Some ws \<and> list_all2 (\<lambda>ls w. Decode (s_alphabet s) ls = Some w) (scored_units s xs) ws"
  using grapheme_walk.loop_units [OF wf path sub, of "max_order s" "[]"]
    word_walk.loop_units [OF wf path sub, of "max_order s" "[]"]
  by (auto simp: make_ngram_def scored_units_def)

lemma get_path_vec_path:
  assumes wf: "trie_wf r h" and xs: "get_path_vec h a [] = Some xs" shows "has_path (skeleton h) a xs"
proof -
  obtain n where "pnodes h a = Some n" using xs by (subst (asm) get_path_vec.simps) (auto split: Option.bind_splits)
  then obtain ys where "has_path (skeleton h) a ys"
    using has_path_total [of "{}" r "pnext h" "skeleton h" a "skel_of n"] wf by (auto simp: trie_wf_def skeleton_def)
  with has_path_get_path_vec [of h a ys "[]"] xs show ?thesis by simp
qed

text \<open>
  C29: for a prefix whose labels are all in the scorer's alphabet, \<^verbatim>\<open>make_ngram\<close> always returns,
  and its result is the decoded text of the last \<^verbatim>\<open>max_order_\<close> units of the prefix, oldest
  first: words between space labels, or code points for a byte-based model.
\<close>

theorem make_ngram_last_units:
  assumes "trie_wf r h" and "get_path_vec h a [] = Some xs" and "set xs \<subseteq> dom (label_to_str (s_alphabet s))"
  shows "\<exists>ws. make_ngram s h a = Some ws \<and> length ws \<le> max_order s
    \<and> list_all2 (\<lambda>ls w. Decode (s_alphabet s) ls = Some w) (scored_units s xs) ws"
proof -
  have wf: "skel_wf {} r (pnext h) (skeleton h)" using assms(1) by (simp add: trie_wf_def)
  obtain ws where ws: "make_ngram s h a = Some ws" "list_all2 (\<lambda>ls w. Decode (s_alphabet s) ls = Some w) (scored_units s xs) ws"
    using make_ngram_units [OF wf get_path_vec_path [OF assms(1,2)] assms(3)] by blast
  have "length (scored_units s xs) \<le> max_order s" by (simp add: scored_units_def last_units_length)
  then show ?thesis using ws list_all2_lengthD [OF ws(2)] by auto
qed

text \<open>The prefix ``a b'' in a trie without a dictionary.\<close>

definition put_label :: "u32 \<Rightarrow> addr \<times> heap \<Rightarrow> (addr \<times> heap) option" where
  "put_label c s = (case get_path_trie (fst s) c (Fin 0 0) True (snd s) of Some (Some b, h) \<Rightarrow> Some (b, h) | _ \<Rightarrow> None)"

lemma put_label_path:
  assumes wf: "trie_wf 0 (snd s)" and path: "has_path (skeleton (snd s)) (fst s) xs" and c: "c \<noteq> ROOT" and put: "put_label c s = Some t"
  shows "trie_wf 0 (snd t) \<and> has_path (skeleton (snd t)) (fst t) (xs @ [c])"
proof -
  obtain n where n: "pnodes (snd s) (fst s) = Some n" using has_path_live [OF path] by (auto simp: skeleton_Some)
  from get_path_trie_spec [OF wf n c path, of "Fin 0 0" True] put
  show ?thesis by (auto simp: put_label_def split: option.splits)
qed

lemma mfold_put_label:
  "mfold put_label ls s = Some t \<Longrightarrow> trie_wf 0 (snd s) \<Longrightarrow> has_path (skeleton (snd s)) (fst s) xs \<Longrightarrow> ROOT \<notin> set ls \<Longrightarrow>
     trie_wf 0 (snd t) \<and> has_path (skeleton (snd t)) (fst t) (xs @ ls)"
proof (induction ls arbitrary: s xs)
  case Nil
  then show ?case by simp
next
  case (Cons c ls)
  then obtain s1 where s1: "put_label c s = Some s1" "mfold put_label ls s1 = Some t" by (auto split: Option.bind_splits)
  have "trie_wf 0 (snd s1) \<and> has_path (skeleton (snd s1)) (fst s1) (xs @ [c])"
    using put_label_path [OF Cons.prems(2,3) _ s1(1)] Cons.prems(4) by auto
  then show ?case using Cons.IH [OF s1(2)] Cons.prems(4) by fastforce
qed

definition put_labels :: "u32 list \<Rightarrow> (addr \<times> heap) option" where
  "put_labels ls = mfold put_label ls (0, root_heap)"

lemma put_labels_path:
  assumes "put_labels ls = Some (a, h)" and "ROOT \<notin> set ls"
  shows "trie_wf 0 h" "get_path_vec h a [] = Some ls"
proof -
  have "has_path (skeleton root_heap) 0 []" by (rule has_path_root [OF store_okD(4) [OF root_heap_ok]])
  then have "trie_wf 0 h \<and> has_path (skeleton h) a ([] @ ls)"
    using mfold_put_label [of ls "(0, root_heap)" "(a, h)" "[]"] assms root_heap_wf by (simp add: put_labels_def)
  then show "trie_wf 0 h" "get_path_vec h a [] = Some ls" using has_path_get_path_vec [of h a ls "[]"] by auto
qed

definition a_b_heap :: heap where
  "a_b_heap = (case put_labels [0, 2, 1] of Some (a, h) \<Rightarrow> h | None \<Rightarrow> root_heap)"

lemma a_b_heap_ok: "trie_wf 0 a_b_heap" "get_path_vec a_b_heap 3 [] = Some [0, 2, 1]"
proof -
  have "\<exists>h. put_labels [0, 2, 1] = Some (3, h)"
    by (simp add: put_labels_def put_label_def get_path_trie_def root_heap_def PathTrie_new_def alloc_pnode_def set_pnode_def)
  then obtain h where h: "put_labels [0, 2, 1] = Some (3, h)" by blast
  have "ROOT \<notin> set [0, 2, 1]" by (simp add: ROOT_def)
  with put_labels_path [OF h] h show "trie_wf 0 a_b_heap" "get_path_vec a_b_heap 3 [] = Some [0, 2, 1]"
    by (simp_all add: a_b_heap_def)
qed

theorem make_ngram_last_units_witness:
  "make_ngram ab_scorer a_b_heap 3 = Some [''a'', ''b'']"
proof -
  have "set [0, 2, 1 :: u32] \<subseteq> dom (label_to_str (s_alphabet ab_scorer))"
    by (simp add: ab_scorer_def ab_space_alphabet_def)
  from make_ngram_last_units [OF a_b_heap_ok this] obtain ws where ws: "make_ngram ab_scorer a_b_heap 3 = Some ws"
    "list_all2 (\<lambda>ls w. Decode (s_alphabet ab_scorer) ls = Some w) (scored_units ab_scorer [0, 2, 1]) ws" by blast
  moreover have "scored_units ab_scorer [0, 2, 1] = [[0], [1]]" by code_simp
  moreover have "Decode (s_alphabet ab_scorer) [0] = Some ''a''" "Decode (s_alphabet ab_scorer) [1] = Some ''b''" by code_simp+
  ultimately show ?thesis by (auto simp: list_all2_Cons1)
qed

end
