(* ===== verification/Trie_Remove.thy ===== *)
theory Trie_Remove
  imports Trie_Grow
begin

text \<open>
  \<^verbatim>\<open>PathTrie::remove\<close>: the pruned prefix is marked as not existing and, when it has no
  children, freed, together with every ancestor that becomes a childless non-existing node.
  The cascade frees only such nodes and stops before the root as long as another prefix
  exists; when none does it runs into the root and dereferences its null parent.
\<close>

section \<open>What a removal changes\<close>

text \<open>The contents of a node apart from its list of children.\<close>

definition contents :: "path_trie \<Rightarrow> path_trie" where
  "contents n = n\<lparr>children := []\<rparr>"

lemma contents_sel:
  assumes "contents n' = contents n"
  shows "parent n' = parent n" "character n' = character n" "pt_exists n' = pt_exists n"
    "score n' = score n" "timesteps n' = timesteps n" "previous_timesteps n' = previous_timesteps n"
    "has_dictionary n' = has_dictionary n" "dictionary n' = dictionary n"
  using assms by (cases n, cases n', simp add: contents_def)+

definition removed :: "addr \<Rightarrow> heap \<Rightarrow> heap \<Rightarrow> bool" where
  "removed a h h' \<longleftrightarrow> tnodes h' = tnodes h \<and> tnext h' = tnext h \<and> pnext h' = pnext h \<and>
     (\<forall>b n'. pnodes h' b = Some n' \<longrightarrow>
        (\<exists>n. pnodes h b = Some n \<and> contents n' = contents (if b = a then n\<lparr>pt_exists := False\<rparr> else n))) \<and>
     (\<forall>b\<in>existing h. b \<noteq> a \<longrightarrow> pnodes h' b \<noteq> None)"

lemma removed_back:
  assumes "removed a h h'" and "pnodes h' b = Some n'"
  shows "\<exists>n. pnodes h b = Some n \<and> contents n' = contents (if b = a then n\<lparr>pt_exists := False\<rparr> else n)"
  using assms unfolding removed_def by blast

lemma removed_back_other:
  assumes "removed a h h'" and "pnodes h' b = Some n'" and "b \<noteq> a"
  shows "\<exists>n. pnodes h b = Some n \<and> contents n' = contents n"
  using removed_back [OF assms(1,2)] assms(3) by simp

lemma removed_live:
  assumes "removed a h h'" and "b \<in> existing h" "b \<noteq> a" shows "\<exists>n'. pnodes h' b = Some n'"
  using assms unfolding removed_def by blast

lemma removed_existing:
  assumes "removed a h h'" shows "existing h' = existing h - {a}"
proof -
  have "b \<in> existing h' \<longleftrightarrow> b \<in> existing h \<and> b \<noteq> a" for b
  proof
    assume "b \<in> existing h'"
    then obtain n' where n': "pnodes h' b = Some n'" "pt_exists n'" by (auto simp: existing_def)
    then obtain n where n: "pnodes h b = Some n" "contents n' = contents (if b = a then n\<lparr>pt_exists := False\<rparr> else n)"
      using removed_back [OF assms] by blast
    from contents_sel(3) [OF n(2)] n'(2) n(1) show "b \<in> existing h \<and> b \<noteq> a"
      by (auto simp: existing_def split: if_splits)
  next
    assume b: "b \<in> existing h \<and> b \<noteq> a"
    then obtain n where n: "pnodes h b = Some n" "pt_exists n" by (auto simp: existing_def)
    obtain n' where n': "pnodes h' b = Some n'" using removed_live [OF assms] b by blast
    then have "contents n' = contents n" using removed_back_other [OF assms n'] b n(1) by simp
    from contents_sel(3) [OF this] n n' show "b \<in> existing h'" by (simp add: existing_def)
  qed
  then show ?thesis by blast
qed

text \<open>An attached node other than the root makes the root a parent.\<close>

lemma root_has_child:
  assumes wf: "skel_wf S r N f" and "f b = Some s" "b \<notin> S" "b \<noteq> r" and r: "f r = Some rs"
  shows "sk_children rs \<noteq> []"
  using assms(2-4)
proof (induction b arbitrary: s rule: less_induct)
  case (less b)
  then obtain p ps where p: "p \<notin> S" "p < b" "f p = Some ps" "(sk_char s, b) \<in> set (sk_children ps)"
    using skel_wf_parent [OF wf] by blast
  show ?case
  proof (cases "p = r")
    case True
    with p r show ?thesis by auto
  next
    case False
    with less.IH p show ?thesis by blast
  qed
qed

section \<open>The cascade\<close>

lemma marked_skeleton: "pnodes h a = Some n \<Longrightarrow> skeleton (set_pnode a (n\<lparr>pt_exists := b\<rparr>) h) = skeleton h"
  by (rule skeleton_set_same) (simp_all add: skel_of_def)

text \<open>The state of the store when the recursive call is made: \<open>a\<close> is marked and no longer
  listed by its parent.\<close>

definition unhooked :: "addr \<Rightarrow> path_trie \<Rightarrow> addr \<Rightarrow> path_trie \<Rightarrow> heap \<Rightarrow> heap" where
  "unhooked a n p pn h = set_pnode p (pn\<lparr>children := erase_child (character n) (children pn)\<rparr>)
     (set_pnode a (n\<lparr>pt_exists := False\<rparr>) h)"

lemma remove_unfold:
  assumes n: "pnodes h a = Some n" and p: "parent n = Some p" "pnodes h p = Some pn" "p \<noteq> a" and leaf: "children n = []"
  shows "remove a h = do {
     h \<leftarrow> (if erase_child (character n) (children pn) = [] \<and> \<not> pt_exists pn then remove p (unhooked a n p pn h)
           else Some (unhooked a n p pn h));
     Some (h\<lparr>pnodes := (pnodes h)(a := None)\<rparr>) }"
  using assms by (subst remove.simps) (simp add: Let_def set_pnode_sel unhooked_def)

lemma unhooked_removed:
  assumes n: "pnodes h a = Some n" and p: "pnodes h p = Some pn" "p \<noteq> a"
  shows "removed a h (unhooked a n p pn h)"
proof -
  have eqs: "pnodes (unhooked a n p pn h) =
      (pnodes h)(a \<mapsto> n\<lparr>pt_exists := False\<rparr>, p \<mapsto> pn\<lparr>children := erase_child (character n) (children pn)\<rparr>)"
    "tnodes (unhooked a n p pn h) = tnodes h" "tnext (unhooked a n p pn h) = tnext h" "pnext (unhooked a n p pn h) = pnext h"
    by (simp_all add: unhooked_def set_pnode_sel)
  show ?thesis unfolding removed_def eqs using n p by (auto simp: contents_def existing_def split: if_splits)
qed

lemma unhooked_skel:
  assumes wf: "skel_wf S r N (skeleton h)" and n: "pnodes h a = Some n" "a \<notin> S" "a \<noteq> r" and leaf: "children n = []"
    and p: "parent n = Some p" "pnodes h p = Some pn" "p \<noteq> a"
  shows "skel_wf (insert a S) r N (skeleton (unhooked a n p pn h))"
proof -
  have "skeleton (unhooked a n p pn h) =
      (skeleton h)(p \<mapsto> (skel_of pn)\<lparr>sk_children := erase_child (sk_char (skel_of n)) (sk_children (skel_of pn))\<rparr>)"
    using marked_skeleton [OF n(1)] by (simp add: unhooked_def skeleton_set_pnode skel_of_def)
  moreover have "skel_wf (insert a S) r N ((skeleton h)(p \<mapsto> (skel_of pn)\<lparr>sk_children :=
      erase_child (sk_char (skel_of n)) (sk_children (skel_of pn))\<rparr>))"
    by (rule skel_wf_detach [OF wf _ n(2,3)]) (use n(1) p leaf in \<open>simp_all add: skeleton_def\<close>)
  ultimately show ?thesis by simp
qed

text \<open>Freeing a node that has been marked and unhooked.\<close>

lemma removed_free:
  assumes "removed a h h'" shows "removed a h (h'\<lparr>pnodes := (pnodes h')(a := None)\<rparr>)"
  unfolding removed_def
  using removed_back_other [OF assms] removed_live [OF assms] assms [unfolded removed_def] by simp

lemma removed_ancestor:
  assumes h1: "removed a h h1" and h2: "removed p h1 h2" and p: "pnodes h1 p = Some pn" "\<not> pt_exists pn" "p \<noteq> a"
  shows "removed a h h2"
proof -
  have orig: "\<exists>n1. pnodes h1 b = Some n1 \<and> contents n' = contents n1" if b: "pnodes h2 b = Some n'" for b n'
  proof -
    obtain n1 where n1: "pnodes h1 b = Some n1" "contents n' = contents (if b = p then n1\<lparr>pt_exists := False\<rparr> else n1)"
      using removed_back [OF h2 b] by blast
    moreover have "b = p \<Longrightarrow> n1\<lparr>pt_exists := False\<rparr> = n1" using p n1(1) by simp
    ultimately show ?thesis by (cases "b = p") auto
  qed
  have "\<exists>n. pnodes h b = Some n \<and> contents n' = contents (if b = a then n\<lparr>pt_exists := False\<rparr> else n)"
    if "pnodes h2 b = Some n'" for b n'
    using orig [OF that] removed_back [OF h1] by metis
  moreover have "pnodes h2 b \<noteq> None" if b: "b \<in> existing h" "b \<noteq> a" for b
  proof -
    have "b \<in> existing h1" using removed_existing [OF h1] b by blast
    moreover have "b \<noteq> p" using p calculation by (auto simp: existing_def)
    ultimately show ?thesis using removed_live [OF h2] by blast
  qed
  ultimately show ?thesis using h1 h2 unfolding removed_def by simp
qed

lemma remove_spec:
  assumes "skel_wf S r N (skeleton h)" and "pnodes h a = Some n" "a \<notin> S" and "e \<in> existing h" "e \<notin> S" "e \<noteq> a"
  shows "\<exists>h'. remove a h = Some h' \<and> removed a h h' \<and> skel_wf S r N (skeleton h')"
  using assms
proof (induction a arbitrary: S h n rule: less_induct)
  case (less a)
  note wf = less.prems(1) and n = less.prems(2)
  show ?case
  proof (cases "children n = []")
    case False
    then have "remove a h = Some (set_pnode a (n\<lparr>pt_exists := False\<rparr>) h)"
      using n by (subst remove.simps) (simp add: Let_def)
    moreover have "removed a h (set_pnode a (n\<lparr>pt_exists := False\<rparr>) h)"
      using n by (auto simp: removed_def set_pnode_sel existing_def)
    ultimately show ?thesis using wf marked_skeleton [OF n] by simp
  next
    case leaf: True
    obtain en where en: "pnodes h e = Some en" "pt_exists en" using less.prems(4) by (auto simp: existing_def)
    have ar: "a \<noteq> r"
      using root_has_child [OF wf, of e "skel_of en" "skel_of n"] en less.prems leaf n by (auto simp: skeleton_def)
    obtain p pn where p: "parent n = Some p" "p \<notin> S" "p < a" "pnodes h p = Some pn"
      using skel_wf_parent [OF wf _ less.prems(3) ar, of "skel_of n"] n by (auto simp: skeleton_def)
    have pa: "p \<noteq> a" using p(3) by simp
    let ?h = "unhooked a n p pn h"
    have rem: "removed a h ?h" by (rule unhooked_removed [OF n p(4) pa])
    have uwf: "skel_wf (insert a S) r N (skeleton ?h)" by (rule unhooked_skel [OF wf n less.prems(3) ar leaf p(1,4) pa])
    have "\<exists>h1. (if erase_child (character n) (children pn) = [] \<and> \<not> pt_exists pn then remove p ?h else Some ?h) = Some h1
      \<and> removed a h h1 \<and> skel_wf (insert a S) r N (skeleton h1)"
    proof (cases "erase_child (character n) (children pn) = [] \<and> \<not> pt_exists pn")
      case False
      with rem uwf show ?thesis by auto
    next
      case True
      let ?pn = "pn\<lparr>children := erase_child (character n) (children pn)\<rparr>"
      have pn: "pnodes ?h p = Some ?pn" by (simp add: unhooked_def set_pnode_sel)
      have e: "e \<in> existing ?h" using removed_existing [OF rem] less.prems(4,6) by blast
      have "e \<noteq> p" using en p(4) True by auto
      then obtain h1 where "remove p ?h = Some h1" "removed p ?h h1" "skel_wf (insert a S) r N (skeleton h1)"
        using less.IH [OF p(3) uwf pn _ e] p(2) pa less.prems(5,6) by blast
      with removed_ancestor [OF rem _ pn _ pa] True show ?thesis by auto
    qed
    then obtain h1 where h1: "(if erase_child (character n) (children pn) = [] \<and> \<not> pt_exists pn then remove p ?h else Some ?h) = Some h1"
      "removed a h h1" "skel_wf (insert a S) r N (skeleton h1)" by blast
    let ?h1 = "h1\<lparr>pnodes := (pnodes h1)(a := None)\<rparr>"
    have "skeleton ?h1 = (skeleton h1)(a := None)" by (auto simp: skeleton_def)
    then have "skel_wf S r N (skeleton ?h1)" using skel_wf_free [OF h1(3)] by simp
    moreover have "remove a h = Some ?h1" using remove_unfold [OF n p(1,4) pa leaf] h1(1) by simp
    ultimately show ?thesis using removed_free [OF h1(2)] by blast
  qed
qed

section \<open>Removal and the invariant\<close>

lemma removed_shape:
  assumes "removed a h h'" and "skeleton h' b = Some s'"
  shows "\<exists>s. skeleton h b = Some s \<and> sk_parent s = sk_parent s' \<and> sk_char s = sk_char s'"
proof -
  obtain n' where n': "pnodes h' b = Some n'" "s' = skel_of n'" using assms(2) by (auto simp: skeleton_Some)
  obtain n where n: "pnodes h b = Some n" "contents n' = contents (if b = a then n\<lparr>pt_exists := False\<rparr> else n)"
    using removed_back [OF assms(1) n'(1)] by blast
  from contents_sel(1,2) [OF n(2)] have "parent n' = parent n" "character n' = character n" by (simp_all split: if_splits)
  with n(1) n'(2) show ?thesis by (simp add: skeleton_def)
qed

lemma removed_path: "removed a h h' \<Longrightarrow> has_path (skeleton h') b xs \<Longrightarrow> has_path (skeleton h) b xs"
  using has_path_shape_cong removed_shape by metis

lemma removed_store_ok:
  assumes ok: "store_ok r h" and rem: "removed a h h'" and wf: "skel_wf {} r (pnext h) (skeleton h')"
  shows "store_ok r h'"
proof -
  have tn: "tnodes h' = tnodes h" "tnext h' = tnext h" "pnext h' = pnext h" using rem unfolding removed_def by auto
  have node: "\<exists>n. pnodes h b = Some n \<and> timesteps n' = timesteps n \<and> previous_timesteps n' = previous_timesteps n
      \<and> has_dictionary n' = has_dictionary n \<and> dictionary n' = dictionary n" if b: "pnodes h' b = Some n'" for b n'
  proof -
    obtain n where n: "pnodes h b = Some n" "contents n' = contents (if b = a then n\<lparr>pt_exists := False\<rparr> else n)"
      using removed_back [OF rem b] by blast
    from contents_sel(5-8) [OF n(2)] n(1) show ?thesis by (simp split: if_splits)
  qed
  have "ts_ok h' (length xs) n'" if b: "pnodes h' b = Some n'" "has_path (skeleton h') b xs" for b n' xs
  proof -
    obtain n where n: "pnodes h b = Some n" "timesteps n' = timesteps n" "previous_timesteps n' = previous_timesteps n"
      using node [OF b(1)] by blast
    have "ts_ok h (length xs) n"
      using store_okD(3) [OF ok] n(1) removed_path [OF rem b(2)] unfolding ts_link_def by blast
    then show ?thesis unfolding ts_ok_cong [OF tn(1)] using n(2,3) by (simp add: ts_ok_def)
  qed
  then have "ts_link h'" unfolding ts_link_def by blast
  moreover have "dict_ok h'" unfolding dict_ok_def using node store_okD(5) [OF ok] unfolding dict_ok_def by metis
  moreover have "ts_wf h'" using store_okD(2) [OF ok] ts_wf_cong [OF tn(1,2)] by blast
  ultimately show ?thesis using wf tn(3) by (simp add: store_ok_def trie_wf_def)
qed

lemma remove_ok:
  assumes ok: "store_ok r h" and n: "pnodes h a = Some n" and e: "e \<in> existing h" "e \<noteq> a"
  shows "\<exists>h'. remove a h = Some h' \<and> store_ok r h' \<and> removed a h h'"
proof -
  obtain h' where "remove a h = Some h'" "removed a h h'" "skel_wf {} r (pnext h) (skeleton h')"
    using remove_spec [OF store_okD(4) [OF ok] n _ e(1) _ e(2)] by blast
  with removed_store_ok [OF ok] show ?thesis by blast
qed

lemma removed_get_path_vec:
  assumes ok: "store_ok r h'" and rem: "removed a h h'" and b: "pnodes h' b = Some n"
  shows "get_path_vec h' b [] = get_path_vec h b []"
proof -
  obtain xs where xs: "has_path (skeleton h') b xs"
    using has_path_total [OF store_okD(4) [OF ok], of b "skel_of n"] b by (auto simp: skeleton_def)
  with removed_path [OF rem xs] show ?thesis by (simp add: has_path_get_path_vec [where out = "[]"])
qed

text \<open>
  C26: \<^verbatim>\<open>remove\<close> on a live node, while some other prefix exists, always returns and keeps the
  invariant of the store: it frees no node twice, follows no dangling pointer, and never runs
  into the root.  Afterwards exactly the other prefixes exist, each with the contents and the
  path it had.
\<close>

theorem remove_prunes_only_its_node:
  assumes "store_ok r h" and "pnodes h a = Some n" and "e \<in> existing h" "e \<noteq> a"
  shows "\<exists>h'. remove a h = Some h' \<and> store_ok r h' \<and> existing h' = existing h - {a}
    \<and> (\<forall>b\<in>existing h'. map_option contents (pnodes h' b) = map_option contents (pnodes h b)
         \<and> get_path_vec h' b [] = get_path_vec h b [])"
proof -
  obtain h' where h': "remove a h = Some h'" "store_ok r h'" "removed a h h'" using remove_ok [OF assms] by blast
  have ex: "existing h' = existing h - {a}" using removed_existing [OF h'(3)] .
  have "map_option contents (pnodes h' b) = map_option contents (pnodes h b) \<and> get_path_vec h' b [] = get_path_vec h b []"
    if b: "b \<in> existing h'" for b
  proof -
    obtain n' where n': "pnodes h' b = Some n'" using b by (auto simp: existing_def)
    obtain n where "pnodes h b = Some n" "contents n' = contents n"
      using removed_back_other [OF h'(3) n'] b ex by blast
    with n' removed_get_path_vec [OF h'(2,3) n'] show ?thesis by simp
  qed
  with h' ex show ?thesis by blast
qed

text \<open>When no other prefix exists the cascade has no place to stop: removing a childless root
  dereferences its null parent.\<close>

lemma remove_root_crashes:
  assumes "store_ok r h" and "pnodes h r = Some n" "children n = []"
  shows "remove r h = None"
proof -
  have "parent n = None" using skel_wf_root [OF store_okD(4) [OF assms(1)]] assms(2) by (auto simp: skeleton_def)
  with assms(2,3) show ?thesis by (subst remove.simps) (simp add: Let_def)
qed

text \<open>A trie of the root and one prefix, as the first frame leaves it.\<close>

definition one_prefix_heap :: heap where
  "one_prefix_heap = (case get_path_trie 0 7 (Fin (-1) 0) True root_heap of Some (_, h) \<Rightarrow> h | None \<Rightarrow> root_heap)"

lemma one_prefix_heap_ok: "store_ok 0 one_prefix_heap" "0 \<in> existing one_prefix_heap" "\<exists>n. pnodes one_prefix_heap 1 = Some n"
proof -
  have g: "get_path_trie 0 7 (Fin (-1) 0) True root_heap = Some (Some 1, one_prefix_heap)"
    by (simp add: one_prefix_heap_def get_path_trie_def root_heap_def PathTrie_new_def alloc_pnode_def Let_def)
  have "has_path (skeleton root_heap) 0 []" using has_path_root [OF store_okD(4) [OF root_heap_ok]] .
  moreover have "\<exists>n. pnodes root_heap 0 = Some n" "0 \<in> existing root_heap"
    by (auto simp: root_heap_def existing_def PathTrie_new_def)
  ultimately show "store_ok 0 one_prefix_heap" "0 \<in> existing one_prefix_heap" "\<exists>n. pnodes one_prefix_heap 1 = Some n"
    using get_path_trie_ok [OF root_heap_ok, of 0 _ 7 UNIV "[]" "Fin (-1) 0" True] g
    by (auto simp: grown_def ROOT_def existing_def)
qed

theorem remove_prunes_only_its_node_witness:
  "\<exists>h'. remove 1 one_prefix_heap = Some h' \<and> store_ok 0 h' \<and> existing h' = existing one_prefix_heap - {1}
    \<and> (\<forall>b\<in>existing h'. map_option contents (pnodes h' b) = map_option contents (pnodes one_prefix_heap b)
         \<and> get_path_vec h' b [] = get_path_vec one_prefix_heap b [])"
proof -
  obtain n where "pnodes one_prefix_heap 1 = Some n" using one_prefix_heap_ok(3) by blast
  from remove_prunes_only_its_node [OF one_prefix_heap_ok(1) this one_prefix_heap_ok(2)] show ?thesis by simp
qed

end
