(* ===== verification/Decoder_Invariant.thy ===== *)
theory Decoder_Invariant
  imports Ctc_Decoder Ngram_Spec Trie_Remove
begin

text \<open>
  The invariant of the beam search and the proof that a frame of probabilities never stops the
  decoder: every pointer it follows is live, every removal is safe, and the beam stays
  non-empty, duplicate-free and within its size.
\<close>

section \<open>Updates of one node\<close>

lemma expand_blank_sel:
  "skel_of (expand_blank m lpc n) = skel_of n" "pt_exists (expand_blank m lpc n) = pt_exists n"
  "has_dictionary (expand_blank m lpc n) = has_dictionary n" "dictionary (expand_blank m lpc n) = dictionary n"
  "timesteps (expand_blank m lpc n) = timesteps n"
  "previous_timesteps (expand_blank m lpc n) = None \<or> previous_timesteps (expand_blank m lpc n) = previous_timesteps n"
  by (simp_all add: expand_blank_def skel_of_def Let_def)

lemma expand_repeat_sel:
  "skel_of (expand_repeat m lpc n) = skel_of n" "pt_exists (expand_repeat m lpc n) = pt_exists n"
  "has_dictionary (expand_repeat m lpc n) = has_dictionary n" "dictionary (expand_repeat m lpc n) = dictionary n"
  "timesteps (expand_repeat m lpc n) = timesteps n"
  "previous_timesteps (expand_repeat m lpc n) = None \<or> previous_timesteps (expand_repeat m lpc n) = previous_timesteps n"
  by (simp_all add: expand_repeat_def skel_of_def Let_def)

lemma expand_new_sel:
  "skel_of (expand_new m t lp ts n) = skel_of n" "pt_exists (expand_new m t lp ts n) = pt_exists n"
  "has_dictionary (expand_new m t lp ts n) = has_dictionary n" "dictionary (expand_new m t lp ts n) = dictionary n"
  "timesteps (expand_new m t lp ts n) = timesteps n"
  "previous_timesteps (expand_new m t lp ts n) = ts \<or> previous_timesteps (expand_new m t lp ts n) = previous_timesteps n"
  by (simp_all add: expand_new_def skel_of_def Let_def)

lemma expand_blank_ok:
  assumes "store_ok r h" "pnodes h a = Some n"
  shows "store_ok r (set_pnode a (expand_blank m lpc n) h)" "grown L h (set_pnode a (expand_blank m lpc n) h)"
  using update_ok [OF assms expand_blank_sel(1-5)] expand_blank_sel(6) [of m lpc n] by fastforce+

lemma expand_repeat_ok:
  assumes "store_ok r h" "pnodes h a = Some n"
  shows "store_ok r (set_pnode a (expand_repeat m lpc n) h)" "grown L h (set_pnode a (expand_repeat m lpc n) h)"
  using update_ok [OF assms expand_repeat_sel(1-5)] expand_repeat_sel(6) [of m lpc n] by fastforce+

lemma expand_new_ok:
  assumes ok: "store_ok r h" and bn: "pnodes h b = Some bn" and n: "pnodes h a = Some n"
    and paths: "has_path (skeleton h) a xs" "has_path (skeleton h) b (xs @ [c])"
  shows "store_ok r (set_pnode b (expand_new m t lp (timesteps n) bn) h)" "grown L h (set_pnode b (expand_new m t lp (timesteps n) bn) h)"
proof -
  have "\<exists>j. length ys = Suc j \<and> ts_depth h t' j"
    if "has_path (skeleton h) b ys" "previous_timesteps (expand_new m t lp (timesteps n) bn) = Some t'"
      "previous_timesteps (expand_new m t lp (timesteps n) bn) \<noteq> previous_timesteps bn" for ys t'
  proof -
    have "ys = xs @ [c]" using has_path_unique [OF that(1) paths(2)] .
    moreover have "timesteps n = Some t'" using expand_new_sel(6) [of m t lp "timesteps n" bn] that(2,3) by auto
    moreover have "ts_ok h (length xs) n" using store_okD(3) [OF ok] n paths(1) unfolding ts_link_def by blast
    ultimately show ?thesis by (simp add: ts_ok_def)
  qed
  from update_ok [OF ok bn expand_new_sel(1-5) this]
  show "store_ok r (set_pnode b (expand_new m t lp (timesteps n) bn) h)" "grown L h (set_pnode b (expand_new m t lp (timesteps n) bn) h)"
    by blast+
qed

section \<open>What the beam search needs of a scorer\<close>

text \<open>The contract of the external scorer: on a well-formed store whose labels it knows, scoring
  an extension and scoring a final prefix return.\<close>

locale scoring =
  fixes fit :: "u32 set \<Rightarrow> 's scorer option \<Rightarrow> bool"
  assumes extension_total: "fit L es \<Longrightarrow> store_ok r h \<Longrightarrow> labels_in L h \<Longrightarrow> has_path (skeleton h) a xs \<Longrightarrow>
      has_path (skeleton h) b (xs @ [c]) \<Longrightarrow> \<exists>lp. score_extension env es hw h a b (unat c) log_p = Some lp"
    and final_total: "fit L (Some s) \<Longrightarrow> store_ok r h \<Longrightarrow> labels_in L h \<Longrightarrow> has_path (skeleton h) a xs \<Longrightarrow>
      \<exists>sc'. decode_score env s h a sc = Some sc'"
begin

lemma expand_prefix_ok:
  assumes ok: "store_ok r h" "labels_in L h" and n: "pnodes h a = Some n" and fit: "fit L (ext_scorer st)"
    and env: "c_ndebug env" and c: "int c = blank_id st mod 2 ^ 64 \<or> (c < 2 ^ 32 \<and> of_nat c \<in> L)" and L: "ROOT \<notin> L"
  shows "\<exists>h'. expand_prefix env st c lpc a h = Some h' \<and> store_ok r h' \<and> grown L h h'"
proof (cases "int c = blank_id st mod 2 ^ 64")
  case True
  then have "expand_prefix env st c lpc a h = Some (set_pnode a (expand_blank (c_libm env) lpc n) h)"
    using n env by (simp add: expand_prefix_def)
  with expand_blank_ok [OF ok(1) n] show ?thesis by auto
next
  case False
  then have cL: "of_nat c \<in> L" "unat (of_nat c :: u32) = c" using c by (auto simp: u32_unat_of_nat)
  let ?n1 = "if c = unat (character n) then expand_repeat (c_libm env) lpc n else n"
  let ?h1 = "if c = unat (character n) then set_pnode a (expand_repeat (c_libm env) lpc n) h else h"
  have ok1: "store_ok r ?h1" and g1: "grown L h ?h1" using expand_repeat_ok [OF ok(1) n] ok(1) by auto
  have n1: "pnodes ?h1 a = Some ?n1" using n by (simp add: set_pnode_sel)
  obtain xs where xs: "has_path (skeleton ?h1) a xs" using store_ok_path [OF ok1 n1] .
  have root: "of_nat c \<noteq> ROOT" using cL(1) L by auto
  obtain res h2 n2 where h2: "get_path_trie a (of_nat c) lpc True ?h1 = Some (res, h2)" "store_ok r h2" "grown L ?h1 h2"
    "pnodes h2 a = Some n2" "\<And>b. res = Some b \<Longrightarrow> b \<noteq> a \<and> has_path (skeleton h2) b (xs @ [of_nat c]) \<and> b \<in> existing h2"
    using get_path_trie_ok [OF ok1 n1 root cL(1) xs, of lpc True] by blast
  have g2: "grown L h h2" using grown_trans [OF g1 h2(3)] .
  have run: "expand_prefix env st c lpc a h = (case res of None \<Rightarrow> Some h2 | Some b \<Rightarrow> do {
           log_p \<leftarrow> score_extension env (ext_scorer st) (hot_words st) h2 a b c (extension_log_p c lpc n2);
           bn \<leftarrow> pnodes h2 b;
           Some (set_pnode b (expand_new (c_libm env) (abs_time_step st) log_p (timesteps n2) bn) h2) })"
    using n env False h2(1,4) by (simp add: expand_prefix_def Let_def split: option.splits)
  show ?thesis
  proof (cases res)
    case None
    with run h2(2) g2 show ?thesis by auto
  next
    case (Some b)
    then have b: "has_path (skeleton h2) b (xs @ [of_nat c])" "b \<in> existing h2" using h2(5) by auto
    have xs2: "has_path (skeleton h2) a xs" using xs h2(3) by (simp add: grown_def path_ext_def)
    obtain bn where bn: "pnodes h2 b = Some bn" using b(2) by (auto simp: existing_def)
    have "labels_in L h2" using g2 ok(2) by (simp add: grown_def)
    then obtain lp where lp: "score_extension env (ext_scorer st) (hot_words st) h2 a b c (extension_log_p c lpc n2) = Some lp"
      using extension_total [OF fit h2(2) _ xs2 b(1)] cL(2) by metis
    have "expand_prefix env st c lpc a h = Some (set_pnode b (expand_new (c_libm env) (abs_time_step st) lp (timesteps n2) bn) h2)"
      using run Some lp bn by simp
    moreover note expand_new_ok [OF h2(2) bn h2(4) xs2 b(1), where m = "c_libm env" and t = "abs_time_step st" and lp = lp]
    ultimately show ?thesis using grown_trans [OF g2] by blast
  qed
qed

lemma expand_loop_ok:
  assumes ok: "store_ok r h" "labels_in L h" and live: "set ps \<subseteq> existing h" and fit: "fit L (ext_scorer st)"
    and env: "c_ndebug env" and c: "int c = blank_id st mod 2 ^ 64 \<or> (c < 2 ^ 32 \<and> of_nat c \<in> L)" and L: "ROOT \<notin> L"
  shows "\<exists>h'. expand_loop env st full_beam min_cutoff c lpc ps h = Some h' \<and> store_ok r h' \<and> grown L h h'"
  using ok live
proof (induction ps arbitrary: h)
  case Nil
  then show ?case by simp
next
  case (Cons a ps)
  obtain n where n: "pnodes h a = Some n" using Cons.prems(3) by (auto simp: existing_def)
  obtain h1 where h1: "expand_prefix env st c lpc a h = Some h1" "store_ok r h1" "grown L h h1"
    using expand_prefix_ok [OF Cons.prems(1,2) n fit env c L] by blast
  have "labels_in L h1" "set ps \<subseteq> existing h1" using h1(3) Cons.prems(2,3) by (auto simp: grown_def)
  from Cons.IH [OF h1(2) this] obtain h2 where
    "expand_loop env st full_beam min_cutoff c lpc ps h1 = Some h2" "store_ok r h2" "grown L h h2"
    using grown_trans [OF h1(3)] by blast
  moreover obtain h3 where "expand_loop env st full_beam min_cutoff c lpc ps h = Some h3" "store_ok r h3" "grown L h h3"
    using Cons.IH [OF Cons.prems(1,2)] Cons.prems(3) by auto
  ultimately show ?case using n h1(1) Cons.prems(1) by simp
qed

lemma expand_classes_ok:
  assumes "store_ok r h" "labels_in L h" and "set ps \<subseteq> existing h" and fit: "fit L (ext_scorer st)"
    and env: "c_ndebug env" and L: "ROOT \<notin> L"
    and "\<And>c lpc. (c, lpc) \<in> set classes \<Longrightarrow> int c = blank_id st mod 2 ^ 64 \<or> (c < 2 ^ 32 \<and> of_nat c \<in> L)"
  shows "\<exists>h'. mfold (\<lambda>(c, lpc) h. expand_loop env st full_beam min_cutoff c lpc ps h) classes h = Some h' \<and> store_ok r h' \<and> grown L h h'"
  using assms(1,2,3,7)
proof (induction classes arbitrary: h)
  case Nil
  then show ?case by simp
next
  case (Cons x classes)
  obtain c lpc where x: "x = (c, lpc)" by fastforce
  obtain h1 where h1: "expand_loop env st full_beam min_cutoff c lpc ps h = Some h1" "store_ok r h1" "grown L h h1"
    using expand_loop_ok [OF Cons.prems(1-3) fit env _ L, of c full_beam min_cutoff lpc] Cons.prems(4) [of c lpc] x by auto
  have "labels_in L h1" "set ps \<subseteq> existing h1" using h1(3) Cons.prems(2,3) by (auto simp: grown_def)
  from Cons.IH [OF h1(2) this] Cons.prems(4) obtain h2 where
    "mfold (\<lambda>(c, lpc) h. expand_loop env st full_beam min_cutoff c lpc ps h) classes h1 = Some h2" "store_ok r h2" "grown L h1 h2"
    by (meson list.set_intros(2))
  then show ?case using h1 x grown_trans [OF h1(3)] by auto
qed

end

section \<open>Pruning\<close>

lemma removed_labels: "removed a h h' \<Longrightarrow> labels_in L h \<Longrightarrow> labels_in L h'"
proof -
  assume rem: "removed a h h'" and lab: "labels_in L h"
  have "\<exists>n. pnodes h b = Some n \<and> character n' = character n" if b: "pnodes h' b = Some n'" for b n'
  proof -
    obtain n where n: "pnodes h b = Some n" "contents n' = contents (if b = a then n\<lparr>pt_exists := False\<rparr> else n)"
      using removed_back [OF rem b] by blast
    from contents_sel(2) [OF n(2)] n(1) show ?thesis by (simp split: if_splits)
  qed
  with lab show "labels_in L h'" unfolding labels_in_def by metis
qed

lemma remove_all_ok:
  assumes "store_ok r h" and "distinct ds" "set ds \<subseteq> existing h" and "e \<in> existing h" "e \<notin> set ds" and "labels_in L h"
  shows "\<exists>h'. mfold remove ds h = Some h' \<and> store_ok r h' \<and> existing h' = existing h - set ds \<and> labels_in L h'"
  using assms
proof (induction ds arbitrary: h)
  case Nil
  then show ?case by simp
next
  case (Cons a ds)
  obtain n where n: "pnodes h a = Some n" using Cons.prems(3) by (auto simp: existing_def)
  obtain h1 where h1: "remove a h = Some h1" "store_ok r h1" "removed a h h1"
    using remove_ok [OF Cons.prems(1) n Cons.prems(4)] Cons.prems(5) by auto
  note ex = removed_existing [OF h1(3)]
  have "distinct ds" "set ds \<subseteq> existing h1" "e \<in> existing h1" "e \<notin> set ds" using Cons.prems ex by auto
  from Cons.IH [OF h1(2) this removed_labels [OF h1(3) Cons.prems(6)]]
  obtain h2 where "mfold remove ds h1 = Some h2" "store_ok r h2" "existing h2 = existing h1 - set ds" "labels_in L h2" by blast
  then show ?case using h1(1) ex by auto
qed

lemma labels_in_skeleton:
  assumes "skeleton h' = skeleton h" and "labels_in L h" shows "labels_in L h'"
proof -
  have "character n' = ROOT \<or> character n' \<in> L" if "pnodes h' b = Some n'" for b n'
  proof -
    have "skeleton h b = Some (skel_of n')" using that assms(1) by (metis option.map(2) skeleton_def)
    then obtain n where "pnodes h b = Some n" "skel_of n' = skel_of n" by (auto simp: skeleton_def)
    then have "character n' = character n" by (metis skel_of_sel(2))
    then show ?thesis using assms(2) \<open>pnodes h b = Some n\<close> by (simp add: labels_in_def)
  qed
  then show ?thesis by (simp add: labels_in_def)
qed

section \<open>The invariant\<close>

definition dec_inv :: "u32 set \<Rightarrow> 's decoder_state \<Rightarrow> bool" where
  "dec_inv L st \<longleftrightarrow> store_ok (prefix_root st) (d_heap st) \<and> labels_in L (d_heap st) \<and>
     prefixes st \<noteq> [] \<and> distinct (prefixes st) \<and> set (prefixes st) = existing (d_heap st) \<and>
     0 < beam_size st \<and> length (prefixes st) \<le> beam_size st"

lemma prune_beam_ok:
  assumes ok: "store_ok (prefix_root st) h" "labels_in L h" and ne: "existing h \<noteq> {}" and bs: "0 < beam_size st"
    and stl: "stl_ok (c_stl env)"
  shows "\<exists>st'. prune_beam env st h = Some st' \<and> dec_inv L st' \<and> st' = st\<lparr>d_heap := d_heap st', prefixes := prefixes st'\<rparr>"
proof -
  obtain h1 ps where it: "iterate_to_vec (c_libm env) (prefix_root st) (h, []) = Some (h1, ps)"
    and sw: "swept (c_libm env) (prefix_root st) h h1 (existing h) ps"
    using iterate_to_vec_root [OF ok(1)] by blast
  have ps: "distinct ps" "set ps = existing h1" and ok1: "store_ok (prefix_root st) h1" and lab1: "labels_in L h1"
    using sw swept_existing [OF sw] labels_in_skeleton ok(2) by (auto simp: swept_def)
  have ne1: "existing h1 \<noteq> {}" using ne swept_existing [OF sw] by simp
  show ?thesis
  proof (cases "beam_size st < length ps")
    case False
    then have "prune_beam env st h = Some (st\<lparr>d_heap := h1, prefixes := ps\<rparr>)" using it by (simp add: prune_beam_def)
    moreover have "dec_inv L (st\<lparr>d_heap := h1, prefixes := ps\<rparr>)" using False ps ok1 lab1 bs ne1 by (auto simp: dec_inv_def)
    ultimately show ?thesis by simp
  next
    case True
    let ?qs = "std_nth_element (c_stl env) (compare_nodes h1) (beam_size st) ps"
    have perm: "mset ?qs = mset ps" using stl True by (simp add: stl_ok_def nth_element_ok_def)
    then have qs: "distinct ?qs" "set ?qs = existing h1" "length ?qs = length ps"
      using ps distinct_mset_eq [OF perm] set_mset_eq [OF perm] mset_eq_length [OF perm] by auto
    have split: "set ?qs = set (take (beam_size st) ?qs) \<union> set (drop (beam_size st) ?qs)"
      "set (take (beam_size st) ?qs) \<inter> set (drop (beam_size st) ?qs) = {}"
      using qs(1) by (metis append_take_drop_id set_append) (use qs(1) in \<open>simp add: set_take_disj_set_drop_if_distinct\<close>)
    have len: "length (take (beam_size st) ?qs) = beam_size st" using True qs(3) by simp
    then obtain e where e: "e \<in> set (take (beam_size st) ?qs)" using bs by (metis length_greater_0_conv list.set_sel(1))
    have dropped: "set (drop (beam_size st) ?qs) \<subseteq> existing h1" using split(1) qs(2) by blast
    have kept: "e \<in> existing h1" "e \<notin> set (drop (beam_size st) ?qs)" using e split qs(2) by blast+
    obtain h2 where h2: "mfold remove (drop (beam_size st) ?qs) h1 = Some h2" "store_ok (prefix_root st) h2"
      "existing h2 = existing h1 - set (drop (beam_size st) ?qs)" "labels_in L h2"
      using remove_all_ok [OF ok1 distinct_drop [OF qs(1)] dropped kept lab1] by blast
    let ?st = "st\<lparr>d_heap := h2, prefixes := take (beam_size st) ?qs\<rparr>"
    have "prune_beam env st h = Some ?st" using it True h2(1) by (simp add: prune_beam_def Let_def)
    moreover have "set (take (beam_size st) ?qs) = existing h2" using h2(3) split qs(2) by blast
    then have "dec_inv L ?st" using h2(2,4) bs len qs(1) e by (auto simp: dec_inv_def)
    ultimately show ?thesis by simp
  qed
qed

end
