(* ===== verification/Decoder_Run.thy ===== *)
theory Decoder_Run
  imports Decoder_Invariant
begin

text \<open>
  Whole runs of the beam search: \<^verbatim>\<open>init\<close>, any number of frames, and the reading of results.
\<close>

section \<open>The classes of a frame\<close>

lemma get_pruned_classes:
  assumes "stl_ok env" and "class_dim \<le> length prob"
  shows "\<exists>r. get_pruned_log_probs m env prob class_dim cp ctn = Some r \<and> fst ` set r \<subseteq> {0..<class_dim}"
proof -
  have "sort_ok (std_sort env)" using assms(1) by (simp add: stl_ok_def)
  note facts = pruned_sorted_facts [OF this, of prob class_dim]
  have "fst ` set (take k (std_sort env pair_comp_second_rev (map (\<lambda>i. (i, prob ! i)) [0..<class_dim]))) \<subseteq> {0..<class_dim}" for k
    using facts(2) by (fastforce dest: in_set_takeD)
  then show ?thesis using assms(2)
    by (auto simp: get_pruned_log_probs_def Let_def image_image dest: in_set_takeD split: if_splits)
qed

lemma beam_cutoff_ok:
  assumes inv: "dec_inv L st" and stl: "stl_ok (c_stl env)"
  shows "\<exists>ps mc fb. beam_cutoff env st pb = Some (ps, mc, fb) \<and> mset ps = mset (prefixes st)"
proof (cases "ext_scorer st")
  case None
  then show ?thesis by (auto simp: beam_cutoff_def)
next
  case (Some s)
  let ?k = "min (length (prefixes st)) (beam_size st)"
  let ?ps = "std_partial_sort (c_stl env) (compare_nodes (d_heap st)) ?k (prefixes st)"
  have perm: "mset ?ps = mset (prefixes st)" using stl by (simp add: stl_ok_def partial_sort_ok_def)
  have live: "all_live (d_heap st) (prefixes st)"
    using inv by (auto simp: dec_inv_def all_live_def list_all_iff existing_def)
  have k: "0 < ?k" using inv by (simp add: dec_inv_def)
  have i: "?k - 1 < length ?ps" using mset_eq_length [OF perm] k by linarith
  have "?ps ! (?k - 1) \<in> existing (d_heap st)"
    using nth_mem [OF i] set_mset_eq [OF perm] inv by (simp add: dec_inv_def)
  then obtain n where n: "pnodes (d_heap st) (?ps ! (?k - 1)) = Some n" by (auto simp: existing_def)
  show ?thesis using Some live k n i perm by (simp add: beam_cutoff_def Let_def)
qed

section \<open>Frames\<close>

text \<open>The classes of the acoustic model other than the blank are the labels of the trie.\<close>

definition frame_labels :: "nat \<Rightarrow> 's decoder_state \<Rightarrow> u32 set" where
  "frame_labels class_dim st = of_nat ` {c. c < class_dim \<and> int c \<noteq> blank_id st}"

definition same_config :: "'s decoder_state \<Rightarrow> 's decoder_state \<Rightarrow> bool" where
  "same_config st st' \<longleftrightarrow> ext_scorer st' = ext_scorer st \<and> blank_id st' = blank_id st \<and> beam_size st' = beam_size st \<and>
     hot_words st' = hot_words st \<and> prefix_root st' = prefix_root st \<and> cutoff_prob st' = cutoff_prob st \<and>
     cutoff_top_n st' = cutoff_top_n st"

lemma same_config_refl [simp]: "same_config st st"
  by (simp add: same_config_def)

lemma frame_labels_cong: "blank_id st' = blank_id st \<Longrightarrow> frame_labels class_dim st' = frame_labels class_dim st"
  by (simp add: frame_labels_def)

lemma ROOT_not_label: "class_dim < 2 ^ 32 \<Longrightarrow> ROOT \<notin> frame_labels class_dim st"
proof
  assume dim: "class_dim < 2 ^ 32" and "ROOT \<in> frame_labels class_dim st"
  then obtain c where c: "c < class_dim" "(of_nat c :: u32) = - 1" by (auto simp: frame_labels_def ROOT_def)
  then have "unat (of_nat c :: u32) = unat (- 1 :: u32)" by simp
  moreover have "unat (- 1 :: u32) = 2 ^ 32 - 1" by (simp add: unsigned_minus_1_eq_mask mask_eq_exp_minus_1)
  moreover have "unat (of_nat c :: u32) = c" using c(1) dim by simp
  ultimately show False using c(1) dim by linarith
qed

context scoring
begin

lemma expand_frame_ok:
  assumes inv: "dec_inv (frame_labels class_dim st) st" and fit: "fit (frame_labels class_dim st) (ext_scorer st)"
    and env: "c_ndebug env" "stl_ok (c_stl env)"
    and dim: "class_dim \<le> length prob" "class_dim < 2 ^ 32" and blank: "0 \<le> blank_id st" "blank_id st < int class_dim"
  shows "\<exists>st'. expand_frame env prob pb class_dim st = Some st' \<and> dec_inv (frame_labels class_dim st) st'
    \<and> st' = st\<lparr>d_heap := d_heap st', prefixes := prefixes st'\<rparr>"
proof -
  let ?L = "frame_labels class_dim st"
  obtain ps mc fb where bc: "beam_cutoff env st pb = Some (ps, mc, fb)" "mset ps = mset (prefixes st)"
    using beam_cutoff_ok [OF inv env(2)] by blast
  let ?st = "st\<lparr>prefixes := ps\<rparr>"
  have ok: "store_ok (prefix_root st) (d_heap st)" "labels_in ?L (d_heap st)" and bs: "0 < beam_size st"
    and ex: "set (prefixes st) = existing (d_heap st)" "prefixes st \<noteq> []"
    using inv by (simp_all add: dec_inv_def)
  have ps: "set (take (beam_size st) ps) \<subseteq> existing (d_heap st)"
    using set_mset_eq [OF bc(2)] ex(1) set_take_subset [of "beam_size st" ps] by simp
  obtain cls where cls: "get_pruned_log_probs (c_libm env) (c_stl env) prob class_dim (cutoff_prob st) (cutoff_top_n st) = Some cls"
    "fst ` set cls \<subseteq> {0..<class_dim}"
    using get_pruned_classes [OF env(2) dim(1)] by blast
  have lab: "int c = blank_id ?st mod 2 ^ 64 \<or> (c < 2 ^ 32 \<and> of_nat c \<in> ?L)" if "(c, lpc) \<in> set cls" for c lpc
  proof -
    have c: "c < class_dim" using cls(2) that by force
    have "blank_id st mod 2 ^ 64 = blank_id st" using blank dim(2) by (intro mod_pos_pos_trivial) simp_all
    then show ?thesis using c dim(2) by (auto simp: frame_labels_def)
  qed
  have fit': "fit ?L (ext_scorer ?st)" using fit by simp
  obtain h where h: "mfold (\<lambda>(c, lpc) h. expand_loop env ?st fb mc c lpc (take (beam_size st) ps) h) cls (d_heap st) = Some h"
    "store_ok (prefix_root st) h" "grown ?L (d_heap st) h"
    using expand_classes_ok [OF ok ps fit' env(1) ROOT_not_label [OF dim(2)], of cls fb mc] lab by blast
  have labs: "labels_in ?L h" and ne: "existing h \<noteq> {}" using h(3) ok(2) ex by (auto simp: grown_def)
  obtain st' where st': "prune_beam env ?st h = Some st'" "dec_inv ?L st'" "st' = ?st\<lparr>d_heap := d_heap st', prefixes := prefixes st'\<rparr>"
    using prune_beam_ok [of ?st h ?L env] h(2) labs ne bs env(2) by auto
  have "expand_frame env prob pb class_dim st = Some st'"
    using bc(1) cls(1) h(1) st'(1) by (simp add: expand_frame_def Let_def)
  then show ?thesis using st'(2,3) by auto
qed

lemma next_frame_ok:
  assumes inv: "dec_inv (frame_labels class_dim st) st" and fit: "fit (frame_labels class_dim st) (ext_scorer st)"
    and env: "c_ndebug env" "stl_ok (c_stl env)"
    and dim: "class_dim \<le> length prob" "class_dim < 2 ^ 32" and blank: "0 \<le> blank_id st" "blank_id st < int class_dim"
  shows "\<exists>st'. next_frame env prob class_dim st = Some st' \<and> dec_inv (frame_labels class_dim st) st' \<and> same_config st st'
    \<and> abs_time_step st' = abs_time_step st + 1"
proof -
  let ?L = "frame_labels class_dim st" and ?pb = "prob ! nat (blank_id st)"
  define st1 where "st1 = (if flt ?pb blank_threshold then st\<lparr>start_expanding := True\<rparr> else st)"
  have st1: "dec_inv ?L st1" "same_config st st1" "abs_time_step st1 = abs_time_step st" "frame_labels class_dim st1 = ?L"
    using inv by (simp_all add: dec_inv_def same_config_def st1_def frame_labels_def)
  have nb: "nth_opt prob (nat (blank_id st)) = Some ?pb" using dim(1) blank by simp
  have run: "next_frame env prob class_dim st = do {
      st \<leftarrow> (if \<not> start_expanding st1 then Some st1 else expand_frame env prob ?pb class_dim st1);
      Some (st\<lparr>abs_time_step := abs_time_step st + 1\<rparr>) }"
    using nb blank(1) by (simp add: next_frame_def st1_def Let_def)
  have "\<exists>st2. (if \<not> start_expanding st1 then Some st1 else expand_frame env prob ?pb class_dim st1) = Some st2
    \<and> dec_inv ?L st2 \<and> same_config st st2 \<and> abs_time_step st2 = abs_time_step st"
  proof (cases "start_expanding st1")
    case False
    with st1 show ?thesis by simp
  next
    case True
    obtain st2 where st2: "expand_frame env prob ?pb class_dim st1 = Some st2" "dec_inv ?L st2"
      "st2 = st1\<lparr>d_heap := d_heap st2, prefixes := prefixes st2\<rparr>"
      using expand_frame_ok [of class_dim st1 env prob ?pb] st1 fit env dim blank by (auto simp: same_config_def)
    have "same_config st st2" "abs_time_step st2 = abs_time_step st"
      using st1(2,3) by (subst st2(3), simp add: same_config_def)+
    with st2(1,2) True show ?thesis by simp
  qed
  then obtain st2 where "next_frame env prob class_dim st = Some (st2\<lparr>abs_time_step := abs_time_step st2 + 1\<rparr>)"
    "dec_inv ?L st2" "same_config st st2" "abs_time_step st2 = abs_time_step st"
    using run by auto
  then show ?thesis by (simp add: dec_inv_def same_config_def)
qed

lemma frames_ok:
  assumes "dec_inv (frame_labels class_dim st) st" and "fit (frame_labels class_dim st) (ext_scorer st)"
    and env: "c_ndebug env" "stl_ok (c_stl env)"
    and dim: "class_dim < 2 ^ 32" and "0 \<le> blank_id st" "blank_id st < int class_dim"
    and "\<And>t. t \<in> set ts \<Longrightarrow> (t + 1) * class_dim \<le> length probs"
  shows "\<exists>st'. mfold (\<lambda>t st. next_frame env (drop (t * class_dim) probs) class_dim st) ts st = Some st'
    \<and> dec_inv (frame_labels class_dim st) st' \<and> same_config st st' \<and> abs_time_step st' = abs_time_step st + int (length ts)"
  using assms(1,2,6-)
proof (induction ts arbitrary: st)
  case Nil
  then show ?case by simp
next
  case (Cons t ts)
  have "class_dim \<le> length (drop (t * class_dim) probs)" using Cons.prems(5) [of t] by simp
  then obtain st1 where st1: "next_frame env (drop (t * class_dim) probs) class_dim st = Some st1"
    "dec_inv (frame_labels class_dim st) st1" "same_config st st1" "abs_time_step st1 = abs_time_step st + 1"
    using next_frame_ok [OF Cons.prems(1,2) env _ dim Cons.prems(3,4)] by blast
  have cfg: "frame_labels class_dim st1 = frame_labels class_dim st" "ext_scorer st1 = ext_scorer st" "blank_id st1 = blank_id st"
    using st1(3) by (simp_all add: same_config_def frame_labels_def)
  obtain st2 where "mfold (\<lambda>t st. next_frame env (drop (t * class_dim) probs) class_dim st) ts st1 = Some st2"
    "dec_inv (frame_labels class_dim st) st2" "same_config st1 st2" "abs_time_step st2 = abs_time_step st1 + int (length ts)"
    using Cons.IH [of st1] st1(2) Cons.prems cfg by auto
  then show ?case using st1 by (simp add: same_config_def)
qed

end

section \<open>The scorers the contract covers\<close>

lemma path_labels:
  assumes ok: "store_ok r h" and lab: "labels_in L h" and path: "has_path (skeleton h) a xs"
  shows "set xs \<subseteq> L"
  using path
proof (induction xs arbitrary: a rule: rev_induct)
  case Nil
  show ?case by simp
next
  case (snoc c xs)
  from store_okD(4) [OF ok] snoc.prems show ?case
  proof (cases rule: has_path_node_cases)
    case (node n p ys)
    then have "c \<in> L" using lab by (auto simp: labels_in_def)
    moreover have "set xs \<subseteq> L" using snoc.IH node by simp
    ultimately show ?thesis by simp
  qed simp
qed

text \<open>No scorer, or a word-based one with a language model and an alphabet that knows the labels.\<close>

definition scorer_fits :: "u32 set \<Rightarrow> 's scorer option \<Rightarrow> bool" where
  "scorer_fits L es \<longleftrightarrow> (case es of None \<Rightarrow> True
     | Some s \<Rightarrow> \<not> is_utf8_mode s \<and> language_model s \<noteq> None \<and> L \<subseteq> dom (label_to_str (s_alphabet s)))"

lemma get_log_cond_prob_total: "language_model s \<noteq> None \<Longrightarrow> \<exists>p. get_log_cond_prob s ws bos eos = Some p"
  by (auto simp: get_log_cond_prob_def Let_def split: sum.splits prod.splits)

lemma ngram_score_total:
  assumes fit: "scorer_fits L (Some s)" and ok: "store_ok r h" "labels_in L h" and path: "has_path (skeleton h) a xs"
  shows "\<exists>ws. make_ngram s h a = Some ws \<and> (\<forall>bos eos. \<exists>p. get_log_cond_prob s ws bos eos = Some p)"
proof -
  have "set xs \<subseteq> dom (label_to_str (s_alphabet s))"
    using path_labels [OF ok path] fit by (auto simp: scorer_fits_def)
  from make_ngram_units [OF store_okD(4) [OF ok(1)] path this]
  obtain ws where "make_ngram s h a = Some ws" by blast
  moreover have "language_model s \<noteq> None" using fit by (simp add: scorer_fits_def)
  ultimately show ?thesis using get_log_cond_prob_total by blast
qed

interpretation fitting: scoring scorer_fits
proof
  fix L :: "u32 set" and es :: "'s scorer option" and r h a b xs c and env :: cxx and hw log_p
  assume fit: "scorer_fits L es" and ok: "store_ok r h" "labels_in L h" and path: "has_path (skeleton h) a xs"
  show "\<exists>lp. score_extension env es hw h a b (unat c) log_p = Some lp"
  proof (cases es)
    case None
    then show ?thesis by (simp add: score_extension_def)
  next
    case (Some s)
    obtain ws where ws: "make_ngram s h a = Some ws" "\<And>bos eos. \<exists>p. get_log_cond_prob s ws bos eos = Some p"
      using ngram_score_total [of L s, OF _ ok path] fit Some by blast
    obtain p where "get_log_cond_prob s ws (length ws < max_order s) False = Some p" using ws(2) by blast
    with ws(1) fit Some show ?thesis
      by (simp add: score_extension_def scorer_fits_def is_scoring_boundary_def Let_def)
  qed
next
  fix L :: "u32 set" and s :: "'s scorer" and r h a xs and env :: cxx and sc
  assume fit: "scorer_fits L (Some s)" and ok: "store_ok r h" "labels_in L h" and path: "has_path (skeleton h) a xs"
  obtain ws where ws: "make_ngram s h a = Some ws" "\<And>bos eos. \<exists>p. get_log_cond_prob s ws bos eos = Some p"
    using ngram_score_total [OF fit ok path] by blast
  obtain p where p: "get_log_cond_prob s ws (length ws < max_order s) False = Some p" using ws(2) by blast
  obtain n where n: "pnodes h a = Some n" using has_path_live [OF path] by (auto simp: skeleton_Some)
  show "\<exists>sc'. decode_score env s h a sc = Some sc'"
    using ws(1) p n fit by (simp add: decode_score_def scorer_fits_def is_scoring_boundary_def Let_def split: option.splits)
qed

section \<open>From the initial state\<close>

lemma init_heap:
  "alloc_pnode (PathTrie_new\<lparr>score := Fin 0 0, log_prob_b_prev := Fin 0 0, timesteps := Some 0\<rparr>) (d_heap DecoderState_new) = (0, root_heap)"
  by (simp add: alloc_pnode_def DecoderState_new_def root_heap_def)

lemma root_heap_existing: "existing root_heap = {0}" "labels_in L root_heap"
  by (auto simp: existing_def labels_in_def root_heap_def PathTrie_new_def split: if_splits)

lemma set_dictionary_root:
  "\<exists>h. set_dictionary d 0 root_heap = Some h \<and> store_ok 0 h \<and> existing h = {0} \<and> labels_in L h"
proof -
  obtain n where n: "pnodes root_heap 0 = Some n" by (simp add: root_heap_def)
  let ?n = "n\<lparr>dictionary := Some d, dictionary_state := fst_start d, has_dictionary := True\<rparr>"
  have "ts_ok root_heap (length xs) n" if "has_path (skeleton root_heap) 0 xs" for xs
    using store_okD(3) [OF root_heap_ok] n that unfolding ts_link_def by blast
  then have "store_ok 0 (set_pnode 0 ?n root_heap)"
    by (intro store_ok_set_same [OF root_heap_ok n]) (simp_all add: skel_of_def ts_ok_def)
  moreover have "existing (set_pnode 0 ?n root_heap) = {0}" "labels_in L (set_pnode 0 ?n root_heap)"
    using n root_heap_existing by (auto simp: existing_def labels_in_def set_pnode_sel root_heap_def PathTrie_new_def split: if_splits)
  ultimately show ?thesis using n by (simp add: set_dictionary_def)
qed

lemma init_ok:
  assumes "0 < bs" and st_def: "st = DecoderState_init al bs cp ctn es hw DecoderState_new"
  shows "dec_inv L st" "ext_scorer st = es" "blank_id st = int (GetSize al)" "beam_size st = bs" "abs_time_step st = 0"
    "prefixes st = [0]" "prefix_root st = 0"
proof -
  let ?h = "case es of Some s \<Rightarrow> (case s_dictionary s of Some d \<Rightarrow> the (set_dictionary d 0 root_heap) | None \<Rightarrow> root_heap) | None \<Rightarrow> root_heap"
  have h: "store_ok 0 ?h \<and> existing ?h = {0} \<and> labels_in L ?h"
  proof -
    have d: "store_ok 0 (the (set_dictionary d 0 root_heap)) \<and> existing (the (set_dictionary d 0 root_heap)) = {0}
        \<and> labels_in L (the (set_dictionary d 0 root_heap))" for d
    proof -
      obtain h where "set_dictionary d 0 root_heap = Some h" "store_ok 0 h" "existing h = {0}" "labels_in L h"
        using set_dictionary_root by blast
      then show ?thesis by simp
    qed
    show ?thesis
    proof (cases "es = None \<or> s_dictionary (the es) = None")
      case True
      then show ?thesis using root_heap_ok root_heap_existing by (auto split: option.splits)
    next
      case False
      then show ?thesis using d by auto
    qed
  qed
  have st: "st = DecoderState_new\<lparr>abs_time_step := 0, space_id := sint (GetSpaceLabel al), blank_id := int (GetSize al),
            beam_size := bs, cutoff_prob := cp, cutoff_top_n := ctn, start_expanding := False,
            ext_scorer := es, hot_words := hw, prefix_root := 0, prefixes := [0], d_heap := ?h\<rparr>"
    unfolding st_def DecoderState_init_def init_heap by (simp add: Let_def DecoderState_new_def)
  show "ext_scorer st = es" "blank_id st = int (GetSize al)" "beam_size st = bs" "abs_time_step st = 0" "prefixes st = [0]" "prefix_root st = 0"
    by (simp_all add: st)
  show "dec_inv L st" using h assms(1) by (simp add: st dec_inv_def)
qed

lemma frame_labels_init: "frame_labels (Suc n) st = of_nat ` {..<n}" if "blank_id st = int n"
  using that by (auto simp: frame_labels_def less_Suc_eq)

text \<open>The callers' side of the contract: a release build, a scorer that fits, a beam, frames of the
  size the alphabet prescribes, and as many of them as announced.\<close>

definition decoder_setup :: "cxx \<Rightarrow> alphabet \<Rightarrow> nat \<Rightarrow> 's scorer option \<Rightarrow> nat \<Rightarrow> int \<Rightarrow> fval list \<Rightarrow> bool" where
  "decoder_setup env al bs es class_dim time_dim probs \<longleftrightarrow>
     c_ndebug env \<and> stl_ok (c_stl env) \<and> scorer_fits (of_nat ` {..<GetSize al}) es \<and> 0 < bs \<and>
     class_dim = GetSize al + 1 \<and> class_dim < 2 ^ 32 \<and> 0 \<le> time_dim \<and> time_dim < 2 ^ 31 \<and>
     nat time_dim * class_dim \<le> length probs"

definition running :: "alphabet \<Rightarrow> nat \<Rightarrow> 's scorer option \<Rightarrow> 's decoder_state \<Rightarrow> bool" where
  "running al bs es st \<longleftrightarrow> dec_inv (of_nat ` {..<GetSize al}) st \<and> ext_scorer st = es \<and> blank_id st = int (GetSize al) \<and> beam_size st = bs"

lemma running_init: "0 < bs \<Longrightarrow> running al bs es (DecoderState_init al bs cp ctn es hw DecoderState_new)"
  using init_ok [of bs _ al cp ctn es hw, OF _ refl] by (simp add: running_def)

lemma next_running:
  assumes cfg: "decoder_setup env al bs es class_dim time_dim probs" and run: "running al bs es st"
  shows "\<exists>st'. DecoderState_next env probs time_dim class_dim st = Some st' \<and> running al bs es st'
    \<and> abs_time_step st' = abs_time_step st + time_dim"
proof -
  have env: "c_ndebug env" "stl_ok (c_stl env)" and fit: "scorer_fits (of_nat ` {..<GetSize al}) es"
    and dim: "class_dim = GetSize al + 1" "class_dim < 2 ^ 32" and time: "0 \<le> time_dim" "time_dim < 2 ^ 31"
    and len: "nat time_dim * class_dim \<le> length probs"
    using cfg unfolding decoder_setup_def by blast+
  have st: "dec_inv (of_nat ` {..<GetSize al}) st" "ext_scorer st = es" "blank_id st = int (GetSize al)" "beam_size st = bs"
    using run by (simp_all add: running_def)
  have lab: "frame_labels class_dim st = of_nat ` {..<GetSize al}" using frame_labels_init [OF st(3)] dim(1) by simp
  have "(t + 1) * class_dim \<le> length probs" if "t \<in> set [0..<nat time_dim]" for t
  proof -
    have "(t + 1) * class_dim \<le> nat time_dim * class_dim" using that by (intro mult_le_mono) simp_all
    then show ?thesis using len by simp
  qed
  moreover have "0 \<le> blank_id st" "blank_id st < int class_dim" using st(3) dim(1) by simp_all
  ultimately obtain st' where st': "mfold (\<lambda>t st. next_frame env (drop (t * class_dim) probs) class_dim st) [0..<nat time_dim] st = Some st'"
    "dec_inv (frame_labels class_dim st) st'" "same_config st st'" "abs_time_step st' = abs_time_step st + int (nat time_dim)"
    using fitting.frames_ok [of class_dim st env "[0..<nat time_dim]" probs] st(1,2) fit env dim(2) lab by auto
  have "time_dim mod 2 ^ 64 = time_dim" using time by (intro mod_pos_pos_trivial) simp_all
  then have "DecoderState_next env probs time_dim class_dim st = Some st'" using st'(1) by (simp add: DecoderState_next_def)
  then show ?thesis using st'(2-4) lab st time by (auto simp: same_config_def running_def)
qed

lemma next_from_init:
  assumes cfg: "decoder_setup env al bs es class_dim time_dim probs"
  shows "\<exists>st. DecoderState_next env probs time_dim class_dim (DecoderState_init al bs cp ctn es hw DecoderState_new) = Some st
    \<and> dec_inv (of_nat ` {..<GetSize al}) st \<and> ext_scorer st = es \<and> beam_size st = bs \<and> abs_time_step st = time_dim"
proof -
  have bs: "0 < bs" using cfg by (simp add: decoder_setup_def)
  show ?thesis
    using next_running [OF cfg running_init [OF bs], of cp ctn hw] init_ok(5) [OF bs, of _ al cp ctn es hw, OF refl]
    by (auto simp: running_def)
qed

end
