(* ===== verification/Decoder_Spec.thy ===== *)
theory Decoder_Spec
  imports Decoder_Run
begin

text \<open>
  What the beam search guarantees to its callers, for runs from the initial state.
\<close>

section \<open>Running\<close>


definition ref_cxx :: cxx where
  "ref_cxx = \<lparr>c_libm = \<lparr>logf = id, expf = id, log_d = id\<rparr>, c_stl = stl_ref, c_ndebug = True\<rparr>"

lemma ref_setup: "decoder_setup ref_cxx ab_alphabet 5 (None :: unit scorer option) 3 2 (replicate 6 (Fin 1 (-1)))"
  by (simp add: decoder_setup_def ref_cxx_def stl_ref_ok scorer_fits_def GetSize_def ab_alphabet_def)


text \<open>
  C4: after any such run the beam is non-empty and within its size, and it holds pairwise
  different label sequences over the alphabet.
\<close>

theorem beam_of_distinct_prefixes:
  assumes "decoder_setup env al bs es class_dim time_dim probs"
    and "DecoderState_next env probs time_dim class_dim (DecoderState_init al bs cp ctn es hw DecoderState_new) = Some st"
  shows "\<exists>xss. map (\<lambda>a. get_path_vec (d_heap st) a []) (prefixes st) = map Some xss
    \<and> distinct xss \<and> 0 < length xss \<and> length xss \<le> bs \<and> set (concat xss) \<subseteq> of_nat ` {..<GetSize al}"
proof -
  have inv: "dec_inv (of_nat ` {..<GetSize al}) st" "beam_size st = bs" using next_from_init [OF assms(1), of cp ctn hw] assms(2) by auto
  have ok: "store_ok (prefix_root st) (d_heap st)" and lab: "labels_in (of_nat ` {..<GetSize al}) (d_heap st)"
    and ps: "prefixes st \<noteq> []" "distinct (prefixes st)" "set (prefixes st) = existing (d_heap st)" "length (prefixes st) \<le> bs"
    using inv by (simp_all add: dec_inv_def)
  have "\<exists>xs. has_path (skeleton (d_heap st)) a xs" if a: "a \<in> set (prefixes st)" for a
  proof -
    obtain n where "pnodes (d_heap st) a = Some n" using a ps(3) by (auto simp: existing_def)
    from store_ok_path [OF ok this] show ?thesis by blast
  qed
  then obtain f where f: "\<And>a. a \<in> set (prefixes st) \<Longrightarrow> has_path (skeleton (d_heap st)) a (f a)" by metis
  have "map (\<lambda>a. get_path_vec (d_heap st) a []) (prefixes st) = map Some (map f (prefixes st))"
    using has_path_get_path_vec [OF f, of _ "[]"] by simp
  moreover have "inj_on f (set (prefixes st))"
    using has_path_inj [OF store_okD(4) [OF ok]] f by (auto intro!: inj_onI) (metis empty_iff)
  then have "distinct (map f (prefixes st))" using ps(2) by (simp add: distinct_map)
  moreover have "set (f a) \<subseteq> of_nat ` {..<GetSize al}" if "a \<in> set (prefixes st)" for a
    using path_labels [OF ok lab f [OF that]] .
  ultimately show ?thesis using ps(1,4) by (intro exI [of _ "map f (prefixes st)"]) auto
qed

theorem beam_of_distinct_prefixes_witness:
  "\<exists>(st :: unit decoder_state) xss. DecoderState_next ref_cxx (replicate 6 (Fin 1 (-1))) 2 3
      (DecoderState_init ab_alphabet 5 (Fin 1 0) 40 None [] DecoderState_new) = Some st
    \<and> map (\<lambda>a. get_path_vec (d_heap st) a []) (prefixes st) = map Some xss
    \<and> distinct xss \<and> 0 < length xss \<and> length xss \<le> 5"
proof -
  obtain st :: "unit decoder_state" where st: "DecoderState_next ref_cxx (replicate 6 (Fin 1 (-1))) 2 3
      (DecoderState_init ab_alphabet 5 (Fin 1 0) 40 None [] DecoderState_new) = Some st"
    using next_from_init [OF ref_setup] by blast
  from beam_of_distinct_prefixes [OF ref_setup st] st show ?thesis by blast
qed

lemma mfold_frames_shift:
  "mfold (\<lambda>i. next_frame env (drop (i * class_dim) probs) class_dim) (map ((+) k) is) =
   mfold (\<lambda>i. next_frame env (drop (i * class_dim) (drop (k * class_dim) probs)) class_dim) is"
proof (induction "is")
  case Nil
  show ?case by (rule ext) simp
next
  case (Cons i "is")
  have "drop (i * class_dim) (drop (k * class_dim) probs) = drop ((k + i) * class_dim) probs" by (simp add: algebra_simps)
  with Cons.IH show ?case by (intro ext) (simp only: list.map mfold.simps)
qed

text \<open>
  Decoding is incremental: sending the frames in two calls leaves the decoder in the same
  state as sending them in one.
\<close>

lemma next_in_pieces:
  assumes "0 \<le> s" "0 \<le> t" "s + t < 2 ^ 64"
  shows "DecoderState_next env probs (s + t) class_dim st =
    Option.bind (DecoderState_next env probs s class_dim st)
      (DecoderState_next env (drop (nat s * class_dim) probs) t class_dim)"
proof -
  have bounds: "(s + t) mod 2 ^ 64 = s + t" "s mod 2 ^ 64 = s" "t mod 2 ^ 64 = t"
    using assms by (auto intro!: mod_pos_pos_trivial)
  have upt: "[0..<nat (s + t)] = [0..<nat s] @ map ((+) (nat s)) [0..<nat t]"
  proof -
    have "map ((+) (nat s)) [0..<nat t] = [nat s..<nat s + nat t]"
      by (rule nth_equalityI) simp_all
    then show ?thesis using upt_add_eq_append [of 0 "nat s" "nat t"] assms(1,2) by (simp add: nat_add_distrib)
  qed
  have eta: "DecoderState_next env (drop (nat s * class_dim) probs) t class_dim =
      mfold (\<lambda>i. next_frame env (drop (i * class_dim) (drop (nat s * class_dim) probs)) class_dim) [0..<nat t]"
    unfolding DecoderState_next_def bounds by (rule ext) (rule refl)
  show ?thesis unfolding eta unfolding DecoderState_next_def bounds upt mfold_append mfold_frames_shift ..
qed

lemma next_in_pieces_witness:
  "DecoderState_next ref_cxx (replicate 6 (Fin 1 (-1))) (1 + 1) 3 (DecoderState_new :: unit decoder_state) =
    Option.bind (DecoderState_next ref_cxx (replicate 6 (Fin 1 (-1))) 1 3 DecoderState_new)
      (DecoderState_next ref_cxx (drop (nat 1 * 3) (replicate 6 (Fin 1 (-1)))) 1 3)"
  by (rule next_in_pieces) simp_all

section \<open>Reading the results\<close>

lemma map_option_list_Some:
  "(\<And>x. x \<in> set xs \<Longrightarrow> \<exists>y. f x = Some y) \<Longrightarrow> \<exists>ys. map_option_list f xs = Some ys \<and> list_all2 (\<lambda>x y. f x = Some y) xs ys"
proof (induction xs)
  case Nil
  then show ?case by simp
next
  case (Cons x xs)
  obtain y where "f x = Some y" using Cons.prems [of x] by auto
  moreover obtain ys where "map_option_list f xs = Some ys" "list_all2 (\<lambda>x y. f x = Some y) xs ys"
    using Cons.IH Cons.prems by auto
  ultimately show ?case by auto
qed

lemma map_option_list_None: "x \<in> set xs \<Longrightarrow> f x = None \<Longrightarrow> map_option_list f xs = None"
  by (induction xs) (auto split: Option.bind_splits)

lemma map_option_list_eq: "map_option_list f xs = Some ys \<longleftrightarrow> map f xs = map Some ys"
proof (induction xs arbitrary: ys)
  case Nil
  then show ?case by auto
next
  case (Cons x xs)
  then show ?case by (cases ys) (auto simp: Option.bind_eq_Some_conv)
qed

definition timesteps_of :: "heap \<Rightarrow> addr \<Rightarrow> addr option" where
  "timesteps_of h a = Option.bind (pnodes h a) timesteps"

lemma decode_output_spec:
  assumes ok: "store_ok r h" and n: "pnodes h a = Some n" and env: "c_ndebug env"
  shows "timesteps_of h a = None \<Longrightarrow> decode_output env h sc a = None"
    and "timesteps_of h a \<noteq> None \<Longrightarrow> \<exists>out. decode_output env h sc a = Some out \<and> confidence out = sc a
      \<and> get_path_vec h a [] = Some (tokens out) \<and> length (out_timesteps out) = length (tokens out)"
proof -
  obtain xs where xs: "has_path (skeleton h) a xs" using store_ok_path [OF ok n] .
  have path: "get_path_vec h a [] = Some xs" using has_path_get_path_vec [OF xs, of "[]"] by simp
  show "decode_output env h sc a = None" if "timesteps_of h a = None"
    using that n path get_history_null by (simp add: decode_output_def timesteps_of_def)
  show "\<exists>out. decode_output env h sc a = Some out \<and> confidence out = sc a
      \<and> get_path_vec h a [] = Some (tokens out) \<and> length (out_timesteps out) = length (tokens out)" if nonnull: "timesteps_of h a \<noteq> None"
  proof -
    obtain t where t: "timesteps n = Some t" using nonnull n by (auto simp: timesteps_of_def)
    have "ts_depth h t (length xs)" using store_okD(3) [OF ok] n xs t unfolding ts_link_def ts_ok_def by blast
    then obtain ts where "get_history h (Some t) (Some 0) = Some ts" "length ts = length xs"
      using ts_depth_get_history [of h t "length xs" "[]"] by (auto simp: get_history_def)
    then show ?thesis using n path t env by (simp add: decode_output_def)
  qed
qed

lemma mfold_decode_score:
  assumes "scorer_fits L (Some s)" "store_ok r h" "labels_in L h" and "\<And>a. a \<in> set ps \<Longrightarrow> \<exists>n. pnodes h a = Some n"
  shows "\<exists>sc'. mfold (decode_score env s h) ps sc = Some sc'"
  using assms(4)
proof (induction ps arbitrary: sc)
  case Nil
  then show ?case by simp
next
  case (Cons a ps)
  obtain n where n: "pnodes h a = Some n" using Cons.prems by auto
  obtain xs where "has_path (skeleton h) a xs" using store_ok_path [OF assms(2) n] .
  then obtain sc1 where "decode_score env s h a sc = Some sc1" using fitting.final_total [OF assms(1-3)] by blast
  then show ?case using Cons by simp
qed

text \<open>The results, before they are turned into outputs: the scores and the chosen prefixes.\<close>

lemma decode_chosen:
  assumes inv: "dec_inv L st" and fit: "scorer_fits L (ext_scorer st)" and stl: "stl_ok (c_stl env)"
  shows "\<exists>sc ps. DecoderState_decode env st k = map_option_list (decode_output env (d_heap st) sc) (take (min (length (prefixes st)) k) ps)
    \<and> mset ps = mset (prefixes st) \<and> (ext_scorer st = None \<longrightarrow> sc = prefix_scores (d_heap st))
    \<and> ps = std_partial_sort (c_stl env) (prefix_compare_external (d_heap st) sc) (min (length (prefixes st)) k) (prefixes st)"
proof -
  let ?h = "d_heap st" and ?k = "min (length (prefixes st)) k"
  have ok: "store_ok (prefix_root st) ?h" "labels_in L ?h" and ex: "set (prefixes st) = existing ?h"
    using inv by (simp_all add: dec_inv_def)
  have node: "\<exists>n. pnodes ?h a = Some n" if "a \<in> set (prefixes st)" for a using that ex by (auto simp: existing_def)
  have live: "all_live ?h (prefixes st)" using node by (auto simp: all_live_def list_all_iff)
  obtain sc where sc: "(case ext_scorer st of None \<Rightarrow> Some (prefix_scores ?h)
      | Some s \<Rightarrow> mfold (decode_score env s ?h) (take (beam_size st) (prefixes st)) (prefix_scores ?h)) = Some sc"
  proof (cases "ext_scorer st")
    case (Some s)
    have "\<exists>n. pnodes ?h a = Some n" if "a \<in> set (take (beam_size st) (prefixes st))" for a using node that by (meson in_set_takeD)
    from mfold_decode_score [OF _ ok this] fit Some that show ?thesis by fastforce
  qed (use that in simp)
  let ?ps = "std_partial_sort (c_stl env) (prefix_compare_external ?h sc) ?k (prefixes st)"
  have "mset ?ps = mset (prefixes st)" using stl by (simp add: stl_ok_def partial_sort_ok_def)
  moreover have "DecoderState_decode env st k = map_option_list (decode_output env ?h sc) (take ?k ?ps)"
    using live sc by (simp add: DecoderState_decode_def Let_def)
  moreover have "ext_scorer st = None \<longrightarrow> sc = prefix_scores ?h" using sc by auto
  ultimately show ?thesis by (intro exI [of _ sc] exI [of _ ?ps] conjI refl)
qed

lemma decode_outputs:
  assumes inv: "dec_inv L st" and fit: "scorer_fits L (ext_scorer st)" and env: "c_ndebug env" "stl_ok (c_stl env)"
  shows "\<exists>sc ps. distinct ps \<and> set ps \<subseteq> set (prefixes st) \<and> length ps = min (length (prefixes st)) k
    \<and> (if \<exists>a\<in>set ps. timesteps_of (d_heap st) a = None then DecoderState_decode env st k = None
       else \<exists>outs. DecoderState_decode env st k = Some outs
         \<and> list_all2 (\<lambda>a out. confidence out = sc a \<and> get_path_vec (d_heap st) a [] = Some (tokens out)
              \<and> length (out_timesteps out) = length (tokens out)) ps outs)"
proof -
  let ?h = "d_heap st"
  obtain sc qs where dec: "DecoderState_decode env st k = map_option_list (decode_output env ?h sc) (take (min (length (prefixes st)) k) qs)"
    "mset qs = mset (prefixes st)" using decode_chosen [OF inv fit env(2), of k] by blast
  define ps where "ps = take (min (length (prefixes st)) k) qs"
  have ok: "store_ok (prefix_root st) ?h" using inv by (simp add: dec_inv_def)
  have ps: "distinct ps" "set ps \<subseteq> set (prefixes st)" "length ps = min (length (prefixes st)) k"
    using distinct_mset_eq [OF dec(2)] set_mset_eq [OF dec(2)] mset_eq_length [OF dec(2)] inv set_take_subset [of _ qs]
    by (auto simp: ps_def dec_inv_def)
  have node: "\<exists>n. pnodes ?h a = Some n" if "a \<in> set ps" for a using that ps(2) inv by (auto simp: dec_inv_def existing_def)
  have "if \<exists>a\<in>set ps. timesteps_of ?h a = None then DecoderState_decode env st k = None
       else \<exists>outs. DecoderState_decode env st k = Some outs
         \<and> list_all2 (\<lambda>a out. confidence out = sc a \<and> get_path_vec ?h a [] = Some (tokens out)
              \<and> length (out_timesteps out) = length (tokens out)) ps outs"
  proof (cases "\<exists>a\<in>set ps. timesteps_of ?h a = None")
    case True
    then obtain a where a: "a \<in> set ps" "timesteps_of ?h a = None" by blast
    obtain n where n: "pnodes ?h a = Some n" using node [OF a(1)] by blast
    have "decode_output env ?h sc a = None" using decode_output_spec(1) [OF ok n env(1) a(2)] .
    then have "map_option_list (decode_output env ?h sc) ps = None" by (rule map_option_list_None [OF a(1)])
    then show ?thesis using True dec(1) by (simp add: ps_def)
  next
    case False
    have out: "\<exists>out. decode_output env ?h sc a = Some out \<and> confidence out = sc a
        \<and> get_path_vec ?h a [] = Some (tokens out) \<and> length (out_timesteps out) = length (tokens out)" if "a \<in> set ps" for a
    proof -
      obtain n where "pnodes ?h a = Some n" using node \<open>a \<in> set ps\<close> by blast
      from decode_output_spec(2) [OF ok this env(1)] False \<open>a \<in> set ps\<close> show ?thesis by blast
    qed
    then obtain outs where outs: "map_option_list (decode_output env ?h sc) ps = Some outs"
      "list_all2 (\<lambda>a out. decode_output env ?h sc a = Some out) ps outs"
      using map_option_list_Some [of ps "decode_output env ?h sc"] by blast
    have "list_all2 (\<lambda>a out. confidence out = sc a \<and> get_path_vec ?h a [] = Some (tokens out)
        \<and> length (out_timesteps out) = length (tokens out)) ps outs"
      by (rule list.rel_mono_strong [OF outs(2)]) (use out in force)
    then show ?thesis using False outs(1) dec(1) by (simp add: ps_def)
  qed
  with ps show ?thesis by blast
qed



end
