(* ===== verification/Stream_Spec.thy ===== *)
theory Stream_Spec
  imports Streaming Sliding_Window Decoder_Spec
begin

text \<open>
  The streaming interface computes the transcript of the whole recording: the three buffer loops
  are instances of the sliding window, and their composition is the windowing of the complete
  sequence of samples, features and time steps, however the audio is cut into calls.
\<close>

section \<open>The buffer operations\<close>

lemma shift_buffer_left_drop:
  assumes "k \<le> length buf"
  shows "shift_buffer_left buf (int k) = Some (drop k buf)"
proof (cases "k = length buf")
  case True
  then show ?thesis by (simp add: shift_buffer_left_def)
next
  case False
  then have "rotate k buf = drop k buf @ take k buf" using assms by (simp add: rotate_drop_take)
  then show ?thesis using assms by (simp add: shift_buffer_left_def)
qed

lemma sint_small:
  assumes "unat (w :: u32) < 2 ^ 31"
  shows "sint w = int (unat w)"
proof -
  have "int (unat w) < int (2 ^ 31)" using assms by (simp only: of_nat_less_iff)
  then have less: "uint w < 2 ^ 31" by simp
  have "- (2 ^ 31) \<le> (0 :: int)" by simp
  also have "0 \<le> uint w" by (rule uint_ge_0)
  finally have "signed_take_bit 31 (uint w) = uint w" using less by (rule signed_take_bit_int_eq_self)
  then show ?thesis by (simp add: sint_uint)
qed

lemma shift_buffer_left_word:
  "unat (w :: u32) \<le> length buf \<Longrightarrow> unat w < 2 ^ 31 \<Longrightarrow> shift_buffer_left buf (sint w) = Some (drop (unat w) buf)"
  unfolding sint_small by (rule shift_buffer_left_drop)

lemma room_left_small:
  assumes "used \<le> cap" "cap < 2 ^ 31"
  shows "room_left cap used = int (cap - used)"
proof -
  have eq: "(int cap - int used) mod 2 ^ 64 = int (cap - used)" using assms by (simp add: of_nat_diff)
  have "unat (word_of_int (int (cap - used)) :: u32) = cap - used"
    unfolding of_int_of_nat_eq using assms(2) by (intro u32_unat_of_nat) simp
  then show ?thesis unfolding room_left_def eq using sint_small [of "word_of_int (int (cap - used))"] assms(2) by simp
qed

lemma copy_up_to_n_room:
  assumes "used \<le> cap" "cap < 2 ^ 31"
  shows "copy_up_to_n src (room_left cap used) = Some (take (cap - used) src, drop (cap - used) src)"
proof (cases "length src \<le> cap - used")
  case True
  then show ?thesis using room_left_small [OF assms] by (simp add: copy_up_to_n_def Let_def)
next
  case False
  then show ?thesis using room_left_small [OF assms] by (simp add: copy_up_to_n_def Let_def min_def)
qed

lemma fill_audio_take:
  "length buf \<le> n \<Longrightarrow> fill_audio n buf xs =
     (buf @ map sample_value (take (n - length buf) xs), drop (n - length buf) xs)"
proof (induction n buf xs rule: fill_audio.induct)
  case (1 n buf)
  then show ?case by simp
next
  case (2 n buf x xs)
  show ?case
  proof (cases "length buf < n")
    case True
    then obtain k where "n - length buf = Suc k" "n - Suc (length buf) = k" by (metis Suc_diff_Suc)
    then show ?thesis using 2 True by simp
  next
    case False
    then show ?thesis using "2.prems" by simp
  qed
qed

text \<open>A function that carries every change of an untouched buffer from its argument to its result
  commutes with writing that buffer.\<close>

lemma commutes_with_put:
  assumes "\<And>s t b. F s = Some t \<Longrightarrow> F (put b s) = Some (put b t)"
    and "\<And>s. put (get s) s = s" and "\<And>b c s. put b (put c s) = put b s"
  shows "F (put b s) = map_option (put b) (F s)"
proof (cases "F s")
  case None
  have "F (put b s) = None"
  proof (rule ccontr)
    assume "F (put b s) \<noteq> None"
    then obtain t where "F (put b s) = Some t" by blast
    from assms(1) [OF this, of "get s"] show False using assms(2,3) None by simp
  qed
  with None show ?thesis by simp
next
  case (Some t)
  then show ?thesis using assms(1) by simp
qed

lemma processBatch_audio: "processBatch env M buf n (st\<lparr>audio_buffer := b\<rparr>) = map_option (audio_buffer_update (\<lambda>_. b)) (processBatch env M buf n st)"
  by (auto simp: processBatch_def Let_def split: prod.splits Option.bind_splits)

lemma processBatch_mfcc: "processBatch env M buf n (st\<lparr>mfcc_buffer := b\<rparr>) = map_option (mfcc_buffer_update (\<lambda>_. b)) (processBatch env M buf n st)"
  by (auto simp: processBatch_def Let_def split: prod.splits Option.bind_splits)

lemma processBatch_batch: "processBatch env M buf n (st\<lparr>batch_buffer := b\<rparr>) = map_option (batch_buffer_update (\<lambda>_. b)) (processBatch env M buf n st)"
  by (auto simp: processBatch_def Let_def split: prod.splits Option.bind_splits)


lemmas processBatch_put = processBatch_audio processBatch_mfcc processBatch_batch

lemma flush_batch_put:
  "flush_batch env M (st\<lparr>mfcc_buffer := b\<rparr>) = map_option (mfcc_buffer_update (\<lambda>_. b)) (flush_batch env M st)"
  "flush_batch env M (st\<lparr>audio_buffer := b\<rparr>) = map_option (audio_buffer_update (\<lambda>_. b)) (flush_batch env M st)"
  by (cases "processBatch env M (batch_buffer st) (unat (n_steps M)) st"; simp add: flush_batch_def processBatch_put)+

text \<open>One iteration of the loop, for the buffers it does not use.\<close>

lemma processMfccWindow_carries:
  assumes "processMfccWindow env M buf st = Some t"
  shows "processMfccWindow env M buf (st\<lparr>mfcc_buffer := b\<rparr>) = Some (t\<lparr>mfcc_buffer := b\<rparr>)
       \<and> processMfccWindow env M buf (st\<lparr>audio_buffer := b\<rparr>) = Some (t\<lparr>audio_buffer := b\<rparr>)"
proof (rule processMfccWindow.raw_induct [OF _ assms])
  fix f env and M :: "'a model_state" and buf st t
  assume hyp: "\<And>env M buf st t. f env M buf st = Some t \<Longrightarrow>
      processMfccWindow env M buf (st\<lparr>mfcc_buffer := b\<rparr>) = Some (t\<lparr>mfcc_buffer := b\<rparr>)
    \<and> processMfccWindow env M buf (st\<lparr>audio_buffer := b\<rparr>) = Some (t\<lparr>audio_buffer := b\<rparr>)"
    and run: "(if buf = [] then Some st
      else do {
        (chunk, rest) \<leftarrow> copy_up_to_n buf (room_left (batch_capacity M) (length (batch_buffer st)));
        let st = st\<lparr>batch_buffer := batch_buffer st @ chunk\<rparr>;
        if \<not> c_ndebug env \<and> batch_capacity M < length (batch_buffer st) then None
        else do { st \<leftarrow> flush_batch env M st; f env M rest st }
      }) = Some t"
  show "processMfccWindow env M buf (st\<lparr>mfcc_buffer := b\<rparr>) = Some (t\<lparr>mfcc_buffer := b\<rparr>)
         \<and> processMfccWindow env M buf (st\<lparr>audio_buffer := b\<rparr>) = Some (t\<lparr>audio_buffer := b\<rparr>)"
  proof (cases "buf = []")
    case True
    then show ?thesis using run by (simp add: processMfccWindow.simps)
  next
    case False
    obtain chunk rest where cp: "copy_up_to_n buf (room_left (batch_capacity M) (length (batch_buffer st))) = Some (chunk, rest)"
      using run False by (auto split: Option.bind_splits)
    let ?st = "st\<lparr>batch_buffer := batch_buffer st @ chunk\<rparr>"
    have fits: "c_ndebug env \<or> \<not> batch_capacity M < length (batch_buffer st) + length chunk"
      using run False cp by (auto split: if_splits)
    obtain s1 where s1: "flush_batch env M ?st = Some s1" "f env M rest s1 = Some t"
      using run False cp fits by (auto simp: Let_def split: Option.bind_splits if_splits)
    have swap: "st\<lparr>mfcc_buffer := b, batch_buffer := c\<rparr> = st\<lparr>batch_buffer := c, mfcc_buffer := b\<rparr>"
      "st\<lparr>audio_buffer := b, batch_buffer := c\<rparr> = st\<lparr>batch_buffer := c, audio_buffer := b\<rparr>" for c by simp_all
    note unfold = processMfccWindow.simps [of env M buf "st\<lparr>mfcc_buffer := b\<rparr>"]
       processMfccWindow.simps [of env M buf "st\<lparr>audio_buffer := b\<rparr>"]
    show ?thesis
      using hyp [OF s1(2)] s1(1) fits False cp by (simp add: unfold swap flush_batch_put Let_def)
  qed
qed

lemma processMfccWindow_put_mfcc:
  "processMfccWindow env M buf (st\<lparr>mfcc_buffer := b\<rparr>) = map_option (mfcc_buffer_update (\<lambda>_. b)) (processMfccWindow env M buf st)"
  using processMfccWindow_carries
  by (intro commutes_with_put [of "processMfccWindow env M buf" "\<lambda>b. mfcc_buffer_update (\<lambda>_. b)" mfcc_buffer]) (blast, simp_all)

lemma processMfccWindow_put_audio:
  "processMfccWindow env M buf (st\<lparr>audio_buffer := b\<rparr>) = map_option (audio_buffer_update (\<lambda>_. b)) (processMfccWindow env M buf st)"
  using processMfccWindow_carries
  by (intro commutes_with_put [of "processMfccWindow env M buf" "\<lambda>b. audio_buffer_update (\<lambda>_. b)" audio_buffer]) (blast, simp_all)

lemmas processMfccWindow_put = processMfccWindow_put_mfcc processMfccWindow_put_audio

lemma flush_mfcc_put:
  "flush_mfcc env M (st\<lparr>audio_buffer := b\<rparr>) = map_option (audio_buffer_update (\<lambda>_. b)) (flush_mfcc env M st)"
proof (cases "processMfccWindow env M (mfcc_buffer st) st")
  case None
  then show ?thesis by (simp add: flush_mfcc_def processMfccWindow_put)
next
  case (Some t)
  then show ?thesis
    by (cases "shift_buffer_left (mfcc_buffer t) (sint (n_features M))") (simp_all add: flush_mfcc_def processMfccWindow_put)
qed

lemma pushMfccBuffer_carries:
  assumes "pushMfccBuffer env M buf st = Some t"
  shows "pushMfccBuffer env M buf (st\<lparr>audio_buffer := b\<rparr>) = Some (t\<lparr>audio_buffer := b\<rparr>)"
proof (rule pushMfccBuffer.raw_induct [OF _ assms])
  fix f env and M :: "'a model_state" and buf st t
  assume hyp: "\<And>env M buf st t. f env M buf st = Some t \<Longrightarrow>
      pushMfccBuffer env M buf (st\<lparr>audio_buffer := b\<rparr>) = Some (t\<lparr>audio_buffer := b\<rparr>)"
    and run: "(if buf = [] then Some st
      else do {
        (chunk, rest) \<leftarrow> copy_up_to_n buf (room_left (unat (mfcc_feats_per_timestep M)) (length (mfcc_buffer st)));
        let st = st\<lparr>mfcc_buffer := mfcc_buffer st @ chunk\<rparr>;
        if \<not> c_ndebug env \<and> unat (mfcc_feats_per_timestep M) < length (mfcc_buffer st) then None
        else do { st \<leftarrow> flush_mfcc env M st; f env M rest st }
      }) = Some t"
  show "pushMfccBuffer env M buf (st\<lparr>audio_buffer := b\<rparr>) = Some (t\<lparr>audio_buffer := b\<rparr>)"
  proof (cases "buf = []")
    case True
    then show ?thesis using run by (simp add: pushMfccBuffer.simps)
  next
    case False
    obtain chunk rest where cp: "copy_up_to_n buf (room_left (unat (mfcc_feats_per_timestep M)) (length (mfcc_buffer st))) = Some (chunk, rest)"
      using run False by (auto split: Option.bind_splits)
    let ?st = "st\<lparr>mfcc_buffer := mfcc_buffer st @ chunk\<rparr>"
    have fits: "c_ndebug env \<or> \<not> unat (mfcc_feats_per_timestep M) < length (mfcc_buffer st) + length chunk"
      using run False cp by (auto split: if_splits)
    obtain s1 where s1: "flush_mfcc env M ?st = Some s1" "f env M rest s1 = Some t"
      using run False cp fits by (auto simp: Let_def split: Option.bind_splits if_splits)
    have swap: "st\<lparr>audio_buffer := b, mfcc_buffer := c\<rparr> = st\<lparr>mfcc_buffer := c, audio_buffer := b\<rparr>" for c by simp
    show ?thesis
      using hyp [OF s1(2)] s1(1) fits False cp
      by (simp add: pushMfccBuffer.simps [of env M buf "st\<lparr>audio_buffer := b\<rparr>"] swap flush_mfcc_put Let_def)
  qed
qed

lemma pushMfccBuffer_put:
  "pushMfccBuffer env M buf (st\<lparr>audio_buffer := b\<rparr>) = map_option (audio_buffer_update (\<lambda>_. b)) (pushMfccBuffer env M buf st)"
  using pushMfccBuffer_carries
  by (intro commutes_with_put [of "pushMfccBuffer env M buf" "\<lambda>b. audio_buffer_update (\<lambda>_. b)" audio_buffer]) (blast, simp_all)


section \<open>The three stages\<close>

definition batch_ok :: "'s model_state \<Rightarrow> bool" where
  "batch_ok M \<longleftrightarrow> 0 < batch_capacity M \<and> batch_capacity M < 2 ^ 31"

definition mfcc_ok :: "'s model_state \<Rightarrow> bool" where
  "mfcc_ok M \<longleftrightarrow> 0 < n_features M \<and> n_features M \<le> mfcc_feats_per_timestep M \<and> unat (mfcc_feats_per_timestep M) < 2 ^ 31"

definition audio_ok :: "'s model_state \<Rightarrow> bool" where
  "audio_ok M \<longleftrightarrow> 0 < audio_win_step M \<and> audio_win_step M \<le> audio_win_len M \<and> unat (audio_win_step M) < 2 ^ 31"

lemma processMfccWindow_fill:
  assumes "batch_ok M" "length (batch_buffer s) < batch_capacity M" "xs \<noteq> []"
  shows "processMfccWindow env M xs s =
    (let k = batch_capacity M - length (batch_buffer s); b = batch_buffer s @ take k xs in
     if length b = batch_capacity M
     then Option.bind (processBatch env M b (unat (n_steps M)) (s\<lparr>batch_buffer := b\<rparr>))
            (\<lambda>t. processMfccWindow env M (drop k xs) (t\<lparr>batch_buffer := drop (batch_capacity M) (batch_buffer t)\<rparr>))
     else processMfccWindow env M (drop k xs) (s\<lparr>batch_buffer := b\<rparr>))"
proof -
  let ?k = "batch_capacity M - length (batch_buffer s)"
  let ?b = "batch_buffer s @ take ?k xs"
  have fits: "\<not> batch_capacity M < length ?b" using assms(2) by simp
  have cp: "copy_up_to_n xs (room_left (batch_capacity M) (length (batch_buffer s))) = Some (take ?k xs, drop ?k xs)"
    using assms(1,2) by (intro copy_up_to_n_room) (simp_all add: batch_ok_def)
  have run: "processMfccWindow env M xs s = Option.bind (flush_batch env M (s\<lparr>batch_buffer := ?b\<rparr>)) (processMfccWindow env M (drop ?k xs))"
    using assms(3) cp fits by (simp add: processMfccWindow.simps [of env M xs s] Let_def del: length_append)
  show ?thesis
  proof (cases "length ?b = batch_capacity M")
    case True
    have none_left: "drop (batch_capacity M) (batch_buffer t) = []"
      if "processBatch env M ?b (unat (n_steps M)) (s\<lparr>batch_buffer := ?b\<rparr>) = Some t" for t
    proof -
      have "batch_buffer t = ?b" using that by (auto simp: processBatch_batch)
      then show ?thesis using True by (metis drop_all order_refl)
    qed
    show ?thesis
    proof (cases "processBatch env M ?b (unat (n_steps M)) (s\<lparr>batch_buffer := ?b\<rparr>)")
      case None
      then show ?thesis using run True by (simp add: flush_batch_def Let_def del: length_append)
    next
      case (Some t)
      then show ?thesis using run True none_left [OF Some] by (simp add: flush_batch_def Let_def del: length_append)
    qed
  next
    case False
    then show ?thesis using run by (simp add: flush_batch_def Let_def del: length_append)
  qed
qed

lemma pushMfccBuffer_fill:
  assumes "mfcc_ok M" "length (mfcc_buffer s) < unat (mfcc_feats_per_timestep M)" "xs \<noteq> []"
  shows "pushMfccBuffer env M xs s =
    (let k = unat (mfcc_feats_per_timestep M) - length (mfcc_buffer s); b = mfcc_buffer s @ take k xs in
     if length b = unat (mfcc_feats_per_timestep M)
     then Option.bind (processMfccWindow env M b (s\<lparr>mfcc_buffer := b\<rparr>))
            (\<lambda>t. pushMfccBuffer env M (drop k xs) (t\<lparr>mfcc_buffer := drop (unat (n_features M)) (mfcc_buffer t)\<rparr>))
     else pushMfccBuffer env M (drop k xs) (s\<lparr>mfcc_buffer := b\<rparr>))"
proof -
  let ?len = "unat (mfcc_feats_per_timestep M)"
  let ?k = "?len - length (mfcc_buffer s)"
  let ?b = "mfcc_buffer s @ take ?k xs"
  have small: "unat (n_features M) \<le> ?len" "?len < 2 ^ 31" using assms(1) by (simp_all add: mfcc_ok_def word_le_nat_alt)
  have fits: "\<not> ?len < length ?b" using assms(2) by simp
  have cp: "copy_up_to_n xs (room_left ?len (length (mfcc_buffer s))) = Some (take ?k xs, drop ?k xs)"
    using assms(2) small(2) by (intro copy_up_to_n_room) simp_all
  have run: "pushMfccBuffer env M xs s = Option.bind (flush_mfcc env M (s\<lparr>mfcc_buffer := ?b\<rparr>)) (pushMfccBuffer env M (drop ?k xs))"
    using assms(3) cp fits by (simp add: pushMfccBuffer.simps [of env M xs s] Let_def del: length_append)
  show ?thesis
  proof (cases "length ?b = ?len")
    case True
    have shift: "shift_buffer_left (mfcc_buffer t) (sint (n_features M)) = Some (drop (unat (n_features M)) (mfcc_buffer t))"
      if "processMfccWindow env M ?b (s\<lparr>mfcc_buffer := ?b\<rparr>) = Some t" for t
    proof -
      have "mfcc_buffer t = ?b" using that by (auto simp: processMfccWindow_put)
      then have "unat (n_features M) \<le> length (mfcc_buffer t)" using True small(1) by metis
      then show ?thesis using small by (intro shift_buffer_left_word) simp_all
    qed
    show ?thesis
    proof (cases "processMfccWindow env M ?b (s\<lparr>mfcc_buffer := ?b\<rparr>)")
      case None
      then show ?thesis using run True by (simp add: flush_mfcc_def Let_def del: length_append)
    next
      case (Some t)
      then show ?thesis using run True shift [OF Some] by (simp add: flush_mfcc_def Let_def del: length_append)
    qed
  next
    case False
    then show ?thesis using run by (simp add: flush_mfcc_def Let_def del: length_append)
  qed
qed

lemma processAudioWindow_put:
  "processAudioWindow env M buf (st\<lparr>audio_buffer := b\<rparr>) = map_option (audio_buffer_update (\<lambda>_. b)) (processAudioWindow env M buf st)"
  by (simp add: processAudioWindow_def pushMfccBuffer_put)

lemma feedAudioContent_fill:
  assumes "audio_ok M" "length (audio_buffer s) < unat (audio_win_len M)" "xs \<noteq> []"
  shows "feedAudioContent env M xs s =
    (let k = unat (audio_win_len M) - length (audio_buffer s); b = audio_buffer s @ map sample_value (take k xs) in
     if length b = unat (audio_win_len M)
     then Option.bind (processAudioWindow env M b (s\<lparr>audio_buffer := b\<rparr>))
            (\<lambda>t. feedAudioContent env M (drop k xs) (t\<lparr>audio_buffer := drop (unat (audio_win_step M)) (audio_buffer t)\<rparr>))
     else feedAudioContent env M (drop k xs) (s\<lparr>audio_buffer := b\<rparr>))"
proof -
  let ?len = "unat (audio_win_len M)"
  let ?k = "?len - length (audio_buffer s)"
  let ?b = "audio_buffer s @ map sample_value (take ?k xs)"
  have small: "unat (audio_win_step M) \<le> ?len" "unat (audio_win_step M) < 2 ^ 31"
    using assms(1) by (simp_all add: audio_ok_def word_le_nat_alt)
  have run: "feedAudioContent env M xs s = Option.bind (flush_audio env M (s\<lparr>audio_buffer := ?b\<rparr>)) (feedAudioContent env M (drop ?k xs))"
    using assms(2,3) fill_audio_take [of "audio_buffer s" ?len xs] by (simp add: feedAudioContent.simps [of env M xs s] Let_def)
  show ?thesis
  proof (cases "length ?b = ?len")
    case True
    have shift: "shift_buffer_left (audio_buffer t) (sint (audio_win_step M)) = Some (drop (unat (audio_win_step M)) (audio_buffer t))"
      if "processAudioWindow env M ?b (s\<lparr>audio_buffer := ?b\<rparr>) = Some t" for t
    proof -
      have "audio_buffer t = ?b" using that by (auto simp: processAudioWindow_put)
      then have "unat (audio_win_step M) \<le> length (audio_buffer t)" using True small(1) by metis
      then show ?thesis using small by (intro shift_buffer_left_word) simp_all
    qed
    show ?thesis
    proof (cases "processAudioWindow env M ?b (s\<lparr>audio_buffer := ?b\<rparr>)")
      case None
      then show ?thesis using run True by (simp add: flush_audio_def Let_def del: length_append length_map)
    next
      case (Some t)
      then show ?thesis using run True shift [OF Some] by (simp add: flush_audio_def Let_def del: length_append length_map)
    qed
  next
    case False
    then show ?thesis using run by (simp add: flush_audio_def Let_def del: length_append length_map)
  qed
qed

lemma loops_Nil [simp]:
  "processMfccWindow env M [] s = Some s" "pushMfccBuffer env M [] s = Some s" "feedAudioContent env M [] s = Some s"
  by (simp_all add: processMfccWindow.simps pushMfccBuffer.simps feedAudioContent.simps)

lemma stages_ok:
  "batch_ok M \<Longrightarrow> 0 < batch_capacity M"
  "mfcc_ok M \<Longrightarrow> 0 < unat (n_features M) \<and> unat (n_features M) \<le> unat (mfcc_feats_per_timestep M)"
  "audio_ok M \<Longrightarrow> 0 < unat (audio_win_step M) \<and> unat (audio_win_step M) \<le> unat (audio_win_len M)"
  by (simp_all add: batch_ok_def mfcc_ok_def audio_ok_def word_le_nat_alt word_less_nat_alt)

interpretation batches: window_loop batch_buffer "\<lambda>b. batch_buffer_update (\<lambda>_. b)"
  "\<lambda>p b. processBatch (fst p) (snd p) b (unat (n_steps (snd p)))" "\<lambda>p. batch_capacity (snd p)" "\<lambda>p. batch_capacity (snd p)"
  "\<lambda>p. batch_ok (snd p)" "\<lambda>x. x" "\<lambda>p. processMfccWindow (fst p) (snd p)"
  by unfold_locales (auto simp: processBatch_batch stages_ok processMfccWindow_fill Let_def)

interpretation frames: window_loop mfcc_buffer "\<lambda>b. mfcc_buffer_update (\<lambda>_. b)"
  "\<lambda>p. processMfccWindow (fst p) (snd p)" "\<lambda>p. unat (mfcc_feats_per_timestep (snd p))" "\<lambda>p. unat (n_features (snd p))"
  "\<lambda>p. mfcc_ok (snd p)" "\<lambda>x. x" "\<lambda>p. pushMfccBuffer (fst p) (snd p)"
  by unfold_locales (auto simp: processMfccWindow_put stages_ok pushMfccBuffer_fill Let_def)

interpretation audio: window_loop audio_buffer "\<lambda>b. audio_buffer_update (\<lambda>_. b)"
  "\<lambda>p. processAudioWindow (fst p) (snd p)" "\<lambda>p. unat (audio_win_len (snd p))" "\<lambda>p. unat (audio_win_step (snd p))"
  "\<lambda>p. audio_ok (snd p)" sample_value "\<lambda>p. feedAudioContent (fst p) (snd p)"
  by unfold_locales (auto simp: processAudioWindow_put stages_ok feedAudioContent_fill Let_def)

end
