(* ===== verification/Transcription.thy ===== *)
theory Transcription
  imports Stream_Spec
begin

text \<open>
  What a stream computes: the specification works on the complete recording, and the calls of the
  streaming interface implement it.
\<close>

section \<open>The specification\<close>

text \<open>The features of a recording, one vector for every window of samples and one for the samples
  that do not fill a window.\<close>

definition recording_frames :: "'s model_state \<Rightarrow> 16 word list \<Rightarrow> fval list list" where
  "recording_frames M samples =
     (let a = map sample_value samples; len = unat (audio_win_len M); step = unat (audio_win_step M)
      in map (compute_mfcc M) (windows len step a @ [leftover len step a]))"

text \<open>The time steps: each a window of features with its context, the recording padded with
  zeros on both sides.\<close>

definition recording_steps :: "'s model_state \<Rightarrow> 16 word list \<Rightarrow> fval list list" where
  "recording_steps M samples =
     (let zeros = replicate (unat (n_context M) * unat (n_features M)) (Fin 0 0)
      in windows (unat (mfcc_feats_per_timestep M)) (unat (n_features M)) (zeros @ concat (recording_frames M samples) @ zeros))"

definition recording_batches :: "'s model_state \<Rightarrow> 16 word list \<Rightarrow> (fval list \<times> nat) list" where
  "recording_batches M samples =
     (let xs = concat (recording_steps M samples); cap = batch_capacity M; rest = leftover cap cap xs
      in map (\<lambda>b. (b, unat (n_steps M))) (windows cap cap xs) @
         (if rest = [] then [] else [(rest, length rest div unat (mfcc_feats_per_timestep M))]))"

text \<open>One batch through the acoustic model and the decoder; the recurrent state is carried on.\<close>

fun acoustic_step ::
    "cxx \<Rightarrow> 's model_state \<Rightarrow> fval list \<times> nat \<Rightarrow> fval list \<times> fval list \<times> 's decoder_state \<Rightarrow> (fval list \<times> fval list \<times> 's decoder_state) option" where
  "acoustic_step env M (buf, n) (c, h, d) =
     (let (logits, c', h') = infer M buf n c h; classes = GetSize (ms_alphabet M) + 1 in
      map_option (\<lambda>d'. (c', h', d')) (DecoderState_next env logits (sint (of_nat (length logits div classes) :: u32)) classes d))"

definition transcribe :: "cxx \<Rightarrow> 's model_state \<Rightarrow> 16 word list \<Rightarrow> 's decoder_state option" where
  "transcribe env M samples =
     (let zero = replicate (unat (state_size M)) (Fin 0 0);
          d = DecoderState_init (ms_alphabet M) (unat (beam_width M)) (Fin 1 0) 40 (ms_scorer M) (ms_hot_words M) DecoderState_new
      in map_option (snd \<circ> snd) (mfold (acoustic_step env M) (recording_batches M samples) (zero, zero, d)))"

section \<open>Sensible models and streams\<close>

text \<open>What the geometry constants of a model have to satisfy.\<close>

definition model_ok :: "'s model_state \<Rightarrow> bool" where
  "model_ok M \<longleftrightarrow> audio_ok M \<and> mfcc_ok M \<and> batch_ok M \<and>
     unat (mfcc_feats_per_timestep M) = (2 * unat (n_context M) + 1) * unat (n_features M) \<and>
     batch_capacity M = unat (n_steps M) * unat (mfcc_feats_per_timestep M)"

definition stream_inv :: "'s model_state \<Rightarrow> 's streaming_state \<Rightarrow> bool" where
  "stream_inv M st \<longleftrightarrow> length (audio_buffer st) < unat (audio_win_len M) \<and>
     length (mfcc_buffer st) < unat (mfcc_feats_per_timestep M) \<and> length (batch_buffer st) < batch_capacity M"

lemma model_okD:
  assumes "model_ok M"
  shows "audio_ok M" "mfcc_ok M" "batch_ok M" "unat (n_features M * n_context M) = unat (n_context M) * unat (n_features M)"
proof -
  show "audio_ok M" "mfcc_ok M" "batch_ok M" using assms by (simp_all add: model_ok_def)
  have "unat (n_context M) * unat (n_features M) \<le> unat (mfcc_feats_per_timestep M)" using assms by (simp add: model_ok_def)
  also have "\<dots> < 2 ^ 32" by (rule u32_unat_less)
  finally show "unat (n_features M * n_context M) = unat (n_context M) * unat (n_features M)"
    by (simp add: unat_word_ariths mult.commute)
qed

definition new_stream :: "'s model_state \<Rightarrow> 's streaming_state" where
  "new_stream M = the (snd (DS_CreateStream M))"

lemma create_stream: "DS_CreateStream M = (ds_code DS_ERR_OK, Some (new_stream M))"
  by (simp add: new_stream_def DS_CreateStream_def Let_def)

lemma new_stream_sel:
  "audio_buffer (new_stream M) = []" "batch_buffer (new_stream M) = []"
  "mfcc_buffer (new_stream M) = replicate (unat (n_features M * n_context M)) (Fin 0 0)"
  "previous_state_c (new_stream M) = replicate (unat (state_size M)) (Fin 0 0)"
  "previous_state_h (new_stream M) = replicate (unat (state_size M)) (Fin 0 0)"
  "stream_decoder (new_stream M) = DecoderState_init (ms_alphabet M) (unat (beam_width M)) (Fin 1 0) 40 (ms_scorer M) (ms_hot_words M) DecoderState_new"
  by (simp_all add: new_stream_def DS_CreateStream_def Let_def)

lemma new_stream_inv:
  assumes "model_ok M"
  shows "stream_inv M (new_stream M)"
proof -
  note ok = model_okD [OF assms]
  have "unat (n_context M) * unat (n_features M) < (2 * unat (n_context M) + 1) * unat (n_features M)"
    using stages_ok(2) [OF ok(2)] by (intro mult_strict_right_mono) simp_all
  moreover have "0 < unat (audio_win_len M)" using stages_ok(3) [OF ok(1)] by linarith
  ultimately show ?thesis using stages_ok(1) [OF ok(3)] ok(4) assms
    by (simp only: stream_inv_def new_stream_sel model_ok_def length_replicate list.size)
qed


section \<open>The loops compose\<close>

text \<open>Features pushed in sequence, and what they make the acoustic model do.\<close>

definition pushed_steps :: "'s model_state \<Rightarrow> 's streaming_state \<Rightarrow> fval list \<Rightarrow> fval list" where
  "pushed_steps M st fs =
     batch_buffer st @ concat (windows (unat (mfcc_feats_per_timestep M)) (unat (n_features M)) (mfcc_buffer st @ fs))"

lemma pushMfccBuffer_spec:
  assumes "mfcc_ok M" "batch_ok M" "stream_inv M st"
  shows "pushMfccBuffer env M fs st =
    map_option (\<lambda>t. t\<lparr>batch_buffer := leftover (batch_capacity M) (batch_capacity M) (pushed_steps M st fs),
        mfcc_buffer := leftover (unat (mfcc_feats_per_timestep M)) (unat (n_features M)) (mfcc_buffer st @ fs)\<rparr>)
      (mfold (\<lambda>b. processBatch env M b (unat (n_steps M))) (windows (batch_capacity M) (batch_capacity M) (pushed_steps M st fs)) st)"
proof -
  let ?ws = "windows (unat (mfcc_feats_per_timestep M)) (unat (n_features M)) (mfcc_buffer st @ fs)"
  have "pushMfccBuffer env M fs st =
      map_option (mfcc_buffer_update (\<lambda>_. leftover (unat (mfcc_feats_per_timestep M)) (unat (n_features M)) (mfcc_buffer st @ fs)))
        (mfold (processMfccWindow env M) ?ws st)"
    using frames.loop_windows [of "(env, M)" st fs] assms by (simp add: stream_inv_def)
  moreover have "mfold (processMfccWindow env M) ?ws st = processMfccWindow env M (concat ?ws) st"
    using batches.loop_concat [of "(env, M)" st "\<lambda>w. w" ?ws] assms by (simp add: stream_inv_def)
  moreover have "processMfccWindow env M (concat ?ws) st =
      map_option (batch_buffer_update (\<lambda>_. leftover (batch_capacity M) (batch_capacity M) (pushed_steps M st fs)))
        (mfold (\<lambda>b. processBatch env M b (unat (n_steps M))) (windows (batch_capacity M) (batch_capacity M) (pushed_steps M st fs)) st)"
    using batches.loop_windows [of "(env, M)" st "concat ?ws"] assms by (simp add: stream_inv_def pushed_steps_def)
  ultimately show ?thesis by (simp add: option.map_comp comp_def)
qed

lemma processBatch_buffers:
  assumes "mfold (\<lambda>b. processBatch env M b (unat (n_steps M))) bs st = Some t"
  shows "audio_buffer t = audio_buffer st"
proof -
  have "audio_buffer s' = audio_buffer s" if "processBatch env M b n s = Some s'" for b n s s'
    using that by (auto simp: processBatch_def Let_def split: prod.splits Option.bind_splits)
  then show ?thesis
    by (intro mfold_preserves [OF assms, where P = "\<lambda>s. audio_buffer s = audio_buffer st"]) auto
qed

lemma pushMfccBuffer_inv:
  assumes "mfcc_ok M" "batch_ok M" "stream_inv M st" "pushMfccBuffer env M fs st = Some t"
  shows "stream_inv M t" "audio_buffer t = audio_buffer st"
proof -
  obtain s where s: "mfold (\<lambda>b. processBatch env M b (unat (n_steps M))) (windows (batch_capacity M) (batch_capacity M) (pushed_steps M st fs)) st = Some s"
    and t: "t = s\<lparr>batch_buffer := leftover (batch_capacity M) (batch_capacity M) (pushed_steps M st fs),
        mfcc_buffer := leftover (unat (mfcc_feats_per_timestep M)) (unat (n_features M)) (mfcc_buffer st @ fs)\<rparr>"
    using assms(4) unfolding pushMfccBuffer_spec [OF assms(1-3)] by auto
  show audio: "audio_buffer t = audio_buffer st" using processBatch_buffers [OF s] t by simp
  have "0 < batch_capacity M" "0 < unat (n_features M)" "0 < unat (mfcc_feats_per_timestep M)"
    using stages_ok(1) [OF assms(2)] stages_ok(2) [OF assms(1)] by auto
  then have "length (leftover (batch_capacity M) (batch_capacity M) (pushed_steps M st fs)) < batch_capacity M"
    "length (leftover (unat (mfcc_feats_per_timestep M)) (unat (n_features M)) (mfcc_buffer st @ fs)) < unat (mfcc_feats_per_timestep M)"
    by (simp_all only: leftover_less)
  moreover have "batch_buffer t = leftover (batch_capacity M) (batch_capacity M) (pushed_steps M st fs)"
    "mfcc_buffer t = leftover (unat (mfcc_feats_per_timestep M)) (unat (n_features M)) (mfcc_buffer st @ fs)" using t by simp_all
  ultimately show "stream_inv M t" using audio assms(3) unfolding stream_inv_def by simp
qed

text \<open>Feeding samples pushes the features of the windows they complete.\<close>

lemma feedAudioContent_spec:
  assumes "model_ok M" "stream_inv M st"
  shows "feedAudioContent env M samples st =
    map_option (audio_buffer_update (\<lambda>_. leftover (unat (audio_win_len M)) (unat (audio_win_step M)) (audio_buffer st @ map sample_value samples)))
      (pushMfccBuffer env M (concat (map (compute_mfcc M)
         (windows (unat (audio_win_len M)) (unat (audio_win_step M)) (audio_buffer st @ map sample_value samples)))) st)"
proof -
  note ok = model_okD [OF assms(1)]
  let ?ws = "windows (unat (audio_win_len M)) (unat (audio_win_step M)) (audio_buffer st @ map sample_value samples)"
  have "mfold (processAudioWindow env M) ?ws st = pushMfccBuffer env M (concat (map (compute_mfcc M) ?ws)) st"
    using frames.loop_concat [of "(env, M)" st "compute_mfcc M" ?ws] ok(2) assms(2) by (simp add: stream_inv_def processAudioWindow_def)
  then show ?thesis using audio.loop_windows [of "(env, M)" st samples] ok(1) assms(2) by (simp add: stream_inv_def)
qed

lemma feedAudioContent_inv:
  assumes "model_ok M" "stream_inv M st" "feedAudioContent env M samples st = Some t"
  shows "stream_inv M t"
proof -
  note ok = model_okD [OF assms(1)]
  obtain s b a where s: "pushMfccBuffer env M b st = Some s" and t: "t = s\<lparr>audio_buffer := a\<rparr>"
    using assms(3) unfolding feedAudioContent_spec [OF assms(1,2)] by (auto simp only: map_option_eq_Some)
  have "length (audio_buffer t) < unat (audio_win_len M)"
    using audio.loop_bound [of "(env, M)" st samples t] ok(1) assms(2,3) by (simp add: stream_inv_def)
  moreover have "mfcc_buffer t = mfcc_buffer s" "batch_buffer t = batch_buffer s" using t by simp_all
  ultimately show ?thesis using pushMfccBuffer_inv(1) [OF ok(2,3) assms(2) s] by (simp add: stream_inv_def)
qed


lemma addZeroMfccWindows:
  assumes "mfcc_ok M" "length (mfcc_buffer st) < unat (mfcc_feats_per_timestep M)"
  shows "mfold (\<lambda>_ st. addZeroMfccWindow env M st) [0..<n] st = pushMfccBuffer env M (replicate (n * unat (n_features M)) (Fin 0 0)) st"
proof -
  have "concat (map (\<lambda>_. replicate k z) [0..<n]) = replicate (n * k) z" for k and z :: fval
    by (induction n) (simp_all add: replicate_add add.commute flip: replicate_add)
  then show ?thesis
    using frames.loop_concat [of "(env, M)" st "\<lambda>_. replicate (unat (n_features M)) (Fin 0 0)" "[0..<n]"] assms
    by (simp add: addZeroMfccWindow_def)
qed

definition flush_rest :: "cxx \<Rightarrow> 's model_state \<Rightarrow> 's streaming_state \<Rightarrow> 's streaming_state option" where
  "flush_rest env M st =
     (if batch_buffer st = [] then Some st
      else processBatch env M (batch_buffer st) (length (batch_buffer st) div unat (mfcc_feats_per_timestep M)) st)"

lemma flush_rest_short:
  assumes "batch_ok M" "length (batch_buffer st) < batch_capacity M"
  shows "(if 0 < length (batch_buffer st)
     then processBatch env M (batch_buffer st)
            (unat (of_nat (length (batch_buffer st) div unat (mfcc_feats_per_timestep M)) :: u32)) st
     else Some st) = flush_rest env M st"
proof -
  have "length (batch_buffer st) div unat (mfcc_feats_per_timestep M) \<le> length (batch_buffer st)" by (rule div_le_dividend)
  also have "\<dots> < 2 ^ 32" using assms by (simp add: batch_ok_def)
  finally show ?thesis by (simp only: u32_unat_of_nat flush_rest_def length_greater_0_conv if_not_P [symmetric]) simp
qed

lemma finalizeStream_spec:
  assumes "model_ok M" "stream_inv M st"
  shows "finalizeStream env M st =
    Option.bind (pushMfccBuffer env M (compute_mfcc M (audio_buffer st) @ replicate (unat (n_context M) * unat (n_features M)) (Fin 0 0)) st)
      (flush_rest env M)"
proof -
  note ok = model_okD [OF assms(1)]
  let ?z = "replicate (unat (n_context M) * unat (n_features M)) (Fin 0 0)"
  have app: "pushMfccBuffer env M (compute_mfcc M (audio_buffer st) @ ?z) st =
      Option.bind (pushMfccBuffer env M (compute_mfcc M (audio_buffer st)) st) (pushMfccBuffer env M ?z)"
    using frames.loop_append [of "(env, M)" st] ok(2) assms(2) by (simp add: stream_inv_def)
  show ?thesis
  proof (cases "pushMfccBuffer env M (compute_mfcc M (audio_buffer st)) st")
    case None
    then show ?thesis using app by (simp add: finalizeStream_def processAudioWindow_def)
  next
    case (Some s)
    have inv: "stream_inv M s" by (rule pushMfccBuffer_inv [OF ok(2,3) assms(2) Some])
    have zeros: "mfold (\<lambda>_ st. addZeroMfccWindow env M st) [0..<unat (n_context M)] s = pushMfccBuffer env M ?z s"
      using addZeroMfccWindows [OF ok(2)] inv by (simp add: stream_inv_def)
    show ?thesis
    proof (cases "pushMfccBuffer env M ?z s")
      case None
      then show ?thesis using app Some zeros by (simp add: finalizeStream_def processAudioWindow_def)
    next
      case (Some t)
      have "length (batch_buffer t) < batch_capacity M"
        using pushMfccBuffer_inv(1) [OF ok(2,3) inv Some] by (simp add: stream_inv_def)
      from flush_rest_short [OF ok(3) this]
      show ?thesis using app \<open>pushMfccBuffer env M (compute_mfcc M (audio_buffer st)) st = Some s\<close> Some zeros
        by (simp add: finalizeStream_def processAudioWindow_def)
    qed
  qed
qed

text \<open>Batches through the stream are batches through the acoustic model and the decoder.\<close>

definition core :: "'s streaming_state \<Rightarrow> fval list \<times> fval list \<times> 's decoder_state" where
  "core st = (previous_state_c st, previous_state_h st, stream_decoder st)"

lemma processBatch_acoustic:
  "processBatch env M buf n st =
     map_option (\<lambda>(c, h, d). st\<lparr>previous_state_c := c, previous_state_h := h, stream_decoder := d\<rparr>) (acoustic_step env M (buf, n) (core st))"
  by (auto simp: processBatch_def core_def Let_def BATCH_SIZE_def option.map_comp comp_def map_conv_bind_option split: prod.splits Option.bind_splits)

lemma processBatch_core: "map_option core (processBatch env M buf n st) = acoustic_step env M (buf, n) (core st)"
proof (cases "acoustic_step env M (buf, n) (core st)")
  case None
  then show ?thesis by (simp add: processBatch_acoustic)
next
  case (Some r)
  then show ?thesis by (cases r) (simp add: processBatch_acoustic core_def)
qed

lemma processBatches_core:
  "map_option core (mfold (\<lambda>(b, n). processBatch env M b n) bs st) = mfold (acoustic_step env M) bs (core st)"
proof (induction bs arbitrary: st)
  case Nil
  show ?case by simp
next
  case (Cons b bs)
  obtain buf n where b: "b = (buf, n)" by (cases b)
  show ?case
  proof (cases "processBatch env M buf n st")
    case None
    then show ?thesis using processBatch_core [of env M buf n st] b by (simp del: acoustic_step.simps)
  next
    case (Some t)
    then show ?thesis using processBatch_core [of env M buf n st] b Cons.IH [of t]
      by (simp del: acoustic_step.simps) (metis bind.bind_lunit)
  qed
qed


lemma core_put [simp]:
  "core (st\<lparr>audio_buffer := a\<rparr>) = core st" "core (st\<lparr>mfcc_buffer := a\<rparr>) = core st" "core (st\<lparr>batch_buffer := a\<rparr>) = core st"
  by (simp_all add: core_def)

lemma flush_rest_core:
  "map_option core (flush_rest env M st) =
     mfold (acoustic_step env M)
       (if batch_buffer st = [] then [] else [(batch_buffer st, length (batch_buffer st) div unat (mfcc_feats_per_timestep M))]) (core st)"
  by (simp add: flush_rest_def processBatch_core del: acoustic_step.simps)

lemma push_and_flush_core:
  fixes fs :: "fval list"
  assumes "mfcc_ok M" "batch_ok M" "stream_inv M st"
  defines "xs \<equiv> pushed_steps M st fs" and "cap \<equiv> batch_capacity M"
  shows "map_option core (Option.bind (pushMfccBuffer env M fs st) (flush_rest env M)) =
    mfold (acoustic_step env M)
      (map (\<lambda>b. (b, unat (n_steps M))) (windows cap cap xs) @
         (if leftover cap cap xs = [] then [] else [(leftover cap cap xs, length (leftover cap cap xs) div unat (mfcc_feats_per_timestep M))]))
      (core st)"
proof -
  have mf: "mfold (\<lambda>b. processBatch env M b (unat (n_steps M))) ws s =
      mfold (\<lambda>(b, n). processBatch env M b n) (map (\<lambda>b. (b, unat (n_steps M))) ws) s" for ws s
    by (induction ws arbitrary: s) (simp_all, metis)
  have full: "map_option core (mfold (\<lambda>b. processBatch env M b (unat (n_steps M))) (windows cap cap xs) st) =
      mfold (acoustic_step env M) (map (\<lambda>b. (b, unat (n_steps M))) (windows cap cap xs)) (core st)"
    unfolding mf by (rule processBatches_core)
  note push = pushMfccBuffer_spec [OF assms(1-3), of env fs, folded xs_def cap_def]
  show ?thesis
  proof (cases "mfold (\<lambda>b. processBatch env M b (unat (n_steps M))) (windows cap cap xs) st")
    case None
    then have "mfold (acoustic_step env M) (map (\<lambda>b. (b, unat (n_steps M))) (windows cap cap xs)) (core st) = None" using full by simp
    then show ?thesis unfolding push None by (simp add: mfold_append)
  next
    case (Some s)
    then have "mfold (acoustic_step env M) (map (\<lambda>b. (b, unat (n_steps M))) (windows cap cap xs)) (core st) = Some (core s)" using full by simp
    then show ?thesis unfolding push Some by (simp add: mfold_append flush_rest_core del: mfold.simps)
  qed
qed

lemma flush_rest_put: "flush_rest env M (st\<lparr>audio_buffer := b\<rparr>) = map_option (audio_buffer_update (\<lambda>_. b)) (flush_rest env M st)"
  by (simp add: flush_rest_def processBatch_audio)

lemma feed_and_finalize:
  assumes "model_ok M"
  shows "map_option core (Option.bind (feedAudioContent env M samples (new_stream M)) (finalizeStream env M)) =
    mfold (acoustic_step env M) (recording_batches M samples) (core (new_stream M))"
proof -
  note ok = model_okD [OF assms] and inv = new_stream_inv [OF assms]
  let ?st = "new_stream M" and ?a = "map sample_value samples" and ?len = "unat (audio_win_len M)" and ?step = "unat (audio_win_step M)"
  let ?z = "replicate (unat (n_context M) * unat (n_features M)) (Fin 0 0)"
  let ?fs = "concat (map (compute_mfcc M) (windows ?len ?step ?a))" and ?l = "leftover ?len ?step ?a"
  have fs: "concat (recording_frames M samples) @ ?z = ?fs @ compute_mfcc M ?l @ ?z" by (simp add: recording_frames_def Let_def)
  have feed: "feedAudioContent env M samples ?st = map_option (audio_buffer_update (\<lambda>_. ?l)) (pushMfccBuffer env M ?fs ?st)"
    using feedAudioContent_spec [OF assms inv] by (simp add: new_stream_sel)
  have push: "pushMfccBuffer env M (?fs @ compute_mfcc M ?l @ ?z) ?st =
      Option.bind (pushMfccBuffer env M ?fs ?st) (pushMfccBuffer env M (compute_mfcc M ?l @ ?z))"
    using frames.loop_append [of "(env, M)" ?st ?fs] ok(2) inv by (simp add: stream_inv_def)
  have xs: "pushed_steps M ?st (concat (recording_frames M samples) @ ?z) = concat (recording_steps M samples)"
    by (simp add: pushed_steps_def recording_steps_def new_stream_sel ok(4) Let_def)
  have "map_option core (Option.bind (feedAudioContent env M samples ?st) (finalizeStream env M)) =
      map_option core (Option.bind (pushMfccBuffer env M (concat (recording_frames M samples) @ ?z) ?st) (flush_rest env M))"
  proof (cases "pushMfccBuffer env M ?fs ?st")
    case None
    then show ?thesis unfolding fs feed push by simp
  next
    case (Some s)
    then have f: "feedAudioContent env M samples ?st = Some (s\<lparr>audio_buffer := ?l\<rparr>)" using feed by simp
    have "finalizeStream env M (s\<lparr>audio_buffer := ?l\<rparr>) =
        map_option (audio_buffer_update (\<lambda>_. ?l)) (Option.bind (pushMfccBuffer env M (compute_mfcc M ?l @ ?z) s) (flush_rest env M))"
      unfolding finalizeStream_spec [OF assms feedAudioContent_inv [OF assms inv f]]
      by (cases "pushMfccBuffer env M (compute_mfcc M ?l @ ?z) s") (simp_all add: pushMfccBuffer_put flush_rest_put)
    then show ?thesis unfolding fs f push Some by (simp add: option.map_comp comp_def)
  qed
  also have "\<dots> = mfold (acoustic_step env M) (recording_batches M samples) (core ?st)"
    using push_and_flush_core [OF ok(2,3) inv, of env "concat (recording_frames M samples) @ ?z"]
    by (simp only: xs recording_batches_def Let_def)
  finally show ?thesis .
qed


section \<open>The shape of the acoustic model's input\<close>

lemma length_concat_equal: "list_all (\<lambda>b. length b = n) bs \<Longrightarrow> length (concat bs) = length bs * n"
  by (induction bs) simp_all

lemma recording_steps_context:
  assumes ok: "model_ok M" and feats: "\<And>buf. length (compute_mfcc M buf) = unat (n_features M)"
  defines "pad \<equiv> replicate (unat (n_context M)) (replicate (unat (n_features M)) (Fin 0 0))"
  shows "recording_steps M samples =
    map (\<lambda>i. concat (take (2 * unat (n_context M) + 1) (drop i (pad @ recording_frames M samples @ pad))))
      [0..<length (recording_frames M samples)]"
proof -
  let ?c = "unat (n_context M)" and ?n = "unat (n_features M)" and ?fr = "recording_frames M samples"
  let ?ws = "windows (2 * ?c + 1) 1 (pad @ ?fr @ pad)"
  have n: "0 < ?n" using stages_ok(2) [OF model_okD(2) [OF ok]] by simp
  have "concat pad = replicate (?c * ?n) (Fin 0 0)"
  proof -
    have "concat (replicate k (replicate m z)) = replicate (k * m) z" for k m and z :: fval
      by (induction k) (simp_all add: replicate_add)
    then show ?thesis by (simp add: pad_def)
  qed
  then have "recording_steps M samples = windows ((2 * ?c + 1) * ?n) ?n (concat (pad @ ?fr @ pad))"
    using ok by (simp add: recording_steps_def model_ok_def Let_def)
  also have "\<dots> = map concat ?ws"
    using feats by (intro windows_blocks n) (auto simp: pad_def recording_frames_def list_all_iff Let_def)
  finally have steps: "recording_steps M samples = map concat ?ws" .
  have total: "length (pad @ ?fr @ pad) = 2 * ?c + length ?fr" "0 < length ?fr" by (simp_all add: pad_def recording_frames_def Let_def)
  have "length ?ws = (if 2 * ?c + length ?fr < 2 * ?c + 1 then 0 else (2 * ?c + length ?fr - (2 * ?c + 1)) div 1 + 1)"
    unfolding total(1) [symmetric] by (rule windows_count) simp_all
  then have len: "length ?ws = length ?fr" using total(2) by (simp split: if_splits)
  have "?ws = map (\<lambda>i. take (2 * ?c + 1) (drop i (pad @ ?fr @ pad))) [0..<length ?fr]"
    using len by (intro nth_equalityI) (simp_all add: windows_nth)
  then show ?thesis unfolding steps by simp
qed

lemma recording_batches_shape:
  assumes "model_ok M"
  defines "mf \<equiv> unat (mfcc_feats_per_timestep M)"
  shows "list_all (\<lambda>(b, n). length b = n * mf \<and> 0 < n \<and> n \<le> unat (n_steps M)) (recording_batches M samples)"
    "concat (map fst (recording_batches M samples)) = concat (recording_steps M samples)"
    "sum_list (map snd (recording_batches M samples)) = length (recording_steps M samples)"
proof -
  let ?xs = "concat (recording_steps M samples)" and ?cap = "batch_capacity M" and ?ns = "unat (n_steps M)"
  let ?ws = "windows ?cap ?cap ?xs" and ?rest = "leftover ?cap ?cap ?xs"
  have cap: "0 < ?cap" "?cap = ?ns * mf" using assms stages_ok(1) [OF model_okD(3) [OF assms(1)]] by (simp_all add: model_ok_def mf_def)
  have mf: "0 < mf" "0 < ?ns" using cap by auto
  have parts: "concat ?ws @ ?rest = ?xs" by (rule concat_windows_adjacent [OF cap(1)])
  have lw: "length (concat ?ws) = length ?ws * ?cap" by (rule length_concat_equal) (simp add: list_all_iff windows_length)
  have "list_all (\<lambda>s. length s = mf) (recording_steps M samples)"
    by (auto simp: list_all_iff recording_steps_def mf_def Let_def windows_length)
  then have lx: "length ?xs = length (recording_steps M samples) * mf" by (rule length_concat_equal)
  have "length ?xs = length (concat ?ws) + length ?rest" using arg_cong [OF parts, of length] by (simp only: length_append)
  then have "length ?xs = length ?ws * ?cap + length ?rest" unfolding lw .
  then have sum: "length (recording_steps M samples) * mf = length ?ws * ?ns * mf + length ?rest"
    unfolding lx using cap(2) by (simp only: mult.assoc)
  then have "length ?rest = (length (recording_steps M samples) - length ?ws * ?ns) * mf" by (simp add: diff_mult_distrib)
  then obtain r where r: "length ?rest = r * mf" "length (recording_steps M samples) - length ?ws * ?ns = r" by blast
  have "r * mf < ?ns * mf" using leftover_less [OF cap(1) cap(1)] r(1) cap(2) by metis
  then have rn: "r < ?ns" using mf by simp
  have total: "length (recording_steps M samples) = length ?ws * ?ns + r"
  proof -
    have "length (recording_steps M samples) * mf = (length ?ws * ?ns + r) * mf" using sum r(1) by (simp add: algebra_simps)
    then show ?thesis using mf(1) by simp
  qed
  have rest: "length ?rest div mf = r" "?rest = [] \<longleftrightarrow> r = 0" using r(1) mf by auto
  note defs = recording_batches_def Let_def mf_def [symmetric]
  show "list_all (\<lambda>(b, n). length b = n * mf \<and> 0 < n \<and> n \<le> ?ns) (recording_batches M samples)"
    using windows_length [of _ ?cap ?cap ?xs] cap(2) mf(2) rest r(1) rn by (auto simp: defs list_all_iff)
  show "concat (map fst (recording_batches M samples)) = ?xs"
    using parts by (cases "?rest = []") (simp_all add: defs comp_def)
  have "sum_list (map (\<lambda>_. ?ns) ws) = length ws * ?ns" for ws :: "fval list list" by (induction ws) simp_all
  then show "sum_list (map snd (recording_batches M samples)) = length (recording_steps M samples)"
    using total rest by (simp add: defs comp_def)
qed

end
