(* ===== verification/Api_Spec.thy ===== *)
theory Api_Spec
  imports Transcription
begin

text \<open>
  What callers of the streaming interface can rely on: the properties of a stream from its creation
  to its result.
\<close>

section \<open>Feeding\<close>

lemma feed_chunks:
  assumes "model_ok M" "stream_inv M st"
  shows "mfold (DS_FeedAudioContent env M) chunks st = feedAudioContent env M (concat chunks) st"
  using audio.loop_concat [of "(env, M)" st "\<lambda>c. c" chunks] model_okD(1) [OF assms(1)] assms(2)
  by (simp add: stream_inv_def DS_FeedAudioContent_def)

text \<open>A small model: windows of two samples, one feature per window, one window of context on each
  side, batches of two time steps.\<close>

definition tiny_model :: "unit model_state" where
  "tiny_model = (ModelState_new ab_alphabet (\<lambda>xs. [case xs of [] \<Rightarrow> Fin 0 0 | x # _ \<Rightarrow> x])
       (\<lambda>buf n c h. (replicate (3 * n) (Fin 1 (-1)), c, h)))
     \<lparr>beam_width := 5, n_steps := 2, n_context := 1, n_features := 1, mfcc_feats_per_timestep := 3, sample_rate := 16000,
      audio_win_len := 2, audio_win_step := 1, state_size := 1\<rparr>"

lemma tiny_model_ok: "model_ok tiny_model"
  by (simp add: tiny_model_def ModelState_new_def model_ok_def audio_ok_def mfcc_ok_def batch_ok_def batch_capacity_def)

lemma chunks_transcribe:
  assumes "model_ok M" and "DS_CreateStream M = (err, Some st)"
  shows "Option.bind (mfold (DS_FeedAudioContent env M) chunks st) (DS_FinishStream env M) =
      Option.bind (transcribe env M (concat chunks)) (ModelState_decode env M)"
proof -
  have st: "st = new_stream M" using assms(2) by (simp add: create_stream)
  have fin: "DS_FinishStream env M = (\<lambda>t. Option.bind (finalizeStream env M t) (\<lambda>s. ModelState_decode env M (stream_decoder s)))"
    by (rule ext) (simp add: DS_FinishStream_def finishStream_def)
  have "Option.bind (feedAudioContent env M (concat chunks) st) (DS_FinishStream env M) =
      Option.bind (map_option (snd \<circ> snd \<circ> core) (Option.bind (feedAudioContent env M (concat chunks) st) (finalizeStream env M)))
        (ModelState_decode env M)"
    unfolding fin by (cases "feedAudioContent env M (concat chunks) st") (simp_all add: map_conv_bind_option core_def)
  also have "map_option (snd \<circ> snd \<circ> core) (Option.bind (feedAudioContent env M (concat chunks) st) (finalizeStream env M)) =
      map_option (snd \<circ> snd) (mfold (acoustic_step env M) (recording_batches M (concat chunks)) (core st))"
    using feed_and_finalize [OF assms(1), of env "concat chunks"] st by (metis option.map_comp)
  finally show ?thesis
    using feed_chunks [OF assms(1) new_stream_inv [OF assms(1)], of env chunks] st
    by (simp add: transcribe_def core_def new_stream_sel Let_def)
qed

text \<open>
  C1: the transcript of a stream depends only on the concatenation of the audio that was fed: it
  is the decoder's reading of the whole recording, cut into windows of samples, features with
  context, and batches of time steps.
\<close>

theorem stream_transcribes:
  assumes "model_ok M" and "DS_CreateStream M = (err, Some st)"
  shows "Option.bind (mfold (DS_FeedAudioContent env M) chunks st) (DS_FinishStream env M) =
      Option.bind (transcribe env M (concat chunks)) (ModelState_decode env M)"
  by (rule chunks_transcribe [OF assms])

theorem stream_transcribes_witness:
  "\<exists>err st. DS_CreateStream tiny_model = (err, Some st) \<and>
     Option.bind (mfold (DS_FeedAudioContent ref_cxx tiny_model) [[1, 2], [3]] st) (DS_FinishStream ref_cxx tiny_model) =
     Option.bind (transcribe ref_cxx tiny_model [1, 2, 3]) (ModelState_decode ref_cxx tiny_model)"
  using stream_transcribes [OF tiny_model_ok create_stream, of ref_cxx "[[1, 2], [3]]"] create_stream by fastforce

lemma one_call_chunks:
  assumes "model_ok M" and "DS_CreateStream M = (err, Some st)" and "concat chunks = concat chunks'"
  shows "DS_SpeechToText env M (concat chunks') =
    Option.bind (mfold (DS_FeedAudioContent env M) chunks st) (DS_FinishStream env M)"
proof -
  have st: "st = new_stream M" using assms(2) by (simp add: create_stream)
  have "DS_SpeechToText env M (concat chunks) = Option.bind (feedAudioContent env M (concat chunks) st) (DS_FinishStream env M)"
    using create_stream [of M] st
    by (cases "feedAudioContent env M (concat chunks) st")
      (simp_all add: DS_SpeechToText_def CreateStreamAndFeedAudioContent_def DS_FeedAudioContent_def)
  then show ?thesis using feed_chunks [OF assms(1) new_stream_inv [OF assms(1)], of env chunks] st assms(3) by simp
qed

text \<open>
  C9: transcribing a recording in one call gives the same text as a stream that is fed the
  recording in pieces of any sizes.
\<close>

theorem one_call_or_many:
  assumes "model_ok M" and "DS_CreateStream M = (err, Some st)" and "concat chunks = concat chunks'"
  shows "DS_SpeechToText env M (concat chunks') =
    Option.bind (mfold (DS_FeedAudioContent env M) chunks st) (DS_FinishStream env M)"
  by (rule one_call_chunks [OF assms])

theorem one_call_or_many_witness:
  "\<exists>err st. DS_CreateStream tiny_model = (err, Some st) \<and>
     DS_SpeechToText ref_cxx tiny_model [1, 2, 3] =
     Option.bind (mfold (DS_FeedAudioContent ref_cxx tiny_model) [[1, 2], [3]] st) (DS_FinishStream ref_cxx tiny_model)"
  using one_call_or_many [OF tiny_model_ok create_stream, of "[[1, 2], [3]]" "[[1, 2, 3]]" ref_cxx] create_stream by fastforce

text \<open>
  C11: no buffer of a stream is ever full between calls, whatever was fed.
\<close>

theorem stream_buffers_bounded:
  assumes "model_ok M" and "DS_CreateStream M = (err, Some st)"
    and "mfold (DS_FeedAudioContent env M) chunks st = Some st'"
  shows "length (audio_buffer st') < unat (audio_win_len M) \<and> length (mfcc_buffer st') < unat (mfcc_feats_per_timestep M) \<and>
    length (batch_buffer st') < unat (n_steps M) * unat (mfcc_feats_per_timestep M)"
proof -
  have st: "st = new_stream M" using assms(2) by (simp add: create_stream)
  have "stream_inv M st'"
    using feedAudioContent_inv [OF assms(1) new_stream_inv [OF assms(1)], of env "concat chunks" st'] assms(3) st
      feed_chunks [OF assms(1) new_stream_inv [OF assms(1)], of env chunks] by simp
  then show ?thesis using assms(1) by (simp add: stream_inv_def model_ok_def)
qed


section \<open>Every call returns\<close>

text \<open>The circumstances in which no call gets stuck: a release build with a conforming standard
  library, a scorer that fits the alphabet, a beam, and an acoustic model whose output for one
  batch is not absurdly long.\<close>

definition acoustic_ok :: "cxx \<Rightarrow> 's model_state \<Rightarrow> bool" where
  "acoustic_ok env M \<longleftrightarrow> c_ndebug env \<and> stl_ok (c_stl env) \<and> scorer_fits (of_nat ` {..<GetSize (ms_alphabet M)}) (ms_scorer M) \<and>
     0 < beam_width M \<and> GetSize (ms_alphabet M) + 1 < 2 ^ 32 \<and>
     (\<forall>buf n c h. n \<le> unat (n_steps M) \<longrightarrow> length (fst (infer M buf n c h)) < 2 ^ 31)"

definition stream_running :: "'s model_state \<Rightarrow> 's streaming_state \<Rightarrow> bool" where
  "stream_running M st \<longleftrightarrow> running (ms_alphabet M) (unat (beam_width M)) (ms_scorer M) (stream_decoder st)"

lemma processBatch_total:
  assumes ok: "acoustic_ok env M" and n: "n \<le> unat (n_steps M)" and run: "stream_running M st"
  shows "\<exists>st'. processBatch env M buf n st = Some st' \<and> stream_running M st'"
proof -
  let ?classes = "GetSize (ms_alphabet M) + 1"
  obtain logits c h where inf: "infer M buf n (previous_state_c st) (previous_state_h st) = (logits, c, h)" by (metis prod_cases3)
  have "length (fst (infer M buf n (previous_state_c st) (previous_state_h st))) < 2 ^ 31"
    using ok n unfolding acoustic_ok_def by blast
  then have len: "length logits < 2 ^ 31" using inf by simp
  let ?k = "length logits div ?classes"
  have k: "?k < 2 ^ 31" using len div_le_dividend [of "length logits" ?classes] by linarith
  then have frames: "sint (of_nat ?k :: u32) = int ?k" using sint_small [of "of_nat ?k"] by (simp del: of_nat_div)
  have "decoder_setup env (ms_alphabet M) (unat (beam_width M)) (ms_scorer M) ?classes (int ?k) logits"
    using ok k div_times_less_eq_dividend [of "length logits" ?classes] unfolding acoustic_ok_def decoder_setup_def nat_int
    by (simp only: word_less_nat_alt) simp
  from next_running [OF this] run
  obtain d where d: "DecoderState_next env logits (int ?k) ?classes (stream_decoder st) = Some d"
    "running (ms_alphabet M) (unat (beam_width M)) (ms_scorer M) d"
    unfolding stream_running_def by blast
  have "processBatch env M buf n st = Some (st\<lparr>previous_state_c := c, previous_state_h := h, stream_decoder := d\<rparr>)"
    using d(1) inf frames by (simp add: processBatch_def Let_def BATCH_SIZE_def)
  then show ?thesis using d(2) by (simp add: stream_running_def)
qed

lemma pushMfccBuffer_total:
  assumes "acoustic_ok env M" "model_ok M" "stream_inv M st" "stream_running M st"
  shows "\<exists>st'. pushMfccBuffer env M fs st = Some st' \<and> stream_inv M st' \<and> stream_running M st'"
proof -
  note ok = model_okD [OF assms(2)]
  obtain t where t: "mfold (\<lambda>b. processBatch env M b (unat (n_steps M))) (windows (batch_capacity M) (batch_capacity M) (pushed_steps M st fs)) st = Some t"
    "stream_running M t"
    using mfold_invariant [of "windows (batch_capacity M) (batch_capacity M) (pushed_steps M st fs)" "stream_running M"
        "\<lambda>b. processBatch env M b (unat (n_steps M))" st] processBatch_total [OF assms(1) order_refl] assms(4) by blast
  then obtain s where s: "pushMfccBuffer env M fs st = Some s" "stream_decoder s = stream_decoder t"
    using pushMfccBuffer_spec [OF ok(2,3) assms(3), of env fs] by simp
  then show ?thesis using pushMfccBuffer_inv(1) [OF ok(2,3) assms(3) s(1)] t(2) by (auto simp: stream_running_def)
qed

lemma feed_total:
  assumes "acoustic_ok env M" "model_ok M" "stream_inv M st" "stream_running M st"
  shows "\<exists>st'. feedAudioContent env M samples st = Some st' \<and> stream_inv M st' \<and> stream_running M st'"
proof -
  let ?fs = "concat (map (compute_mfcc M) (windows (unat (audio_win_len M)) (unat (audio_win_step M)) (audio_buffer st @ map sample_value samples)))"
  obtain s where s: "pushMfccBuffer env M ?fs st = Some s" "stream_running M s"
    using pushMfccBuffer_total [OF assms] by blast
  then obtain t where t: "feedAudioContent env M samples st = Some t" "stream_decoder t = stream_decoder s"
    using feedAudioContent_spec [OF assms(2,3), of env samples] by simp
  then show ?thesis using feedAudioContent_inv [OF assms(2,3) t(1)] s(2) by (auto simp: stream_running_def)
qed

lemma finalize_total:
  assumes "acoustic_ok env M" "model_ok M" "stream_inv M st" "stream_running M st"
  shows "\<exists>st'. finalizeStream env M st = Some st' \<and> stream_running M st'"
proof -
  obtain s where s: "pushMfccBuffer env M (compute_mfcc M (audio_buffer st) @ replicate (unat (n_context M) * unat (n_features M)) (Fin 0 0)) st = Some s"
    "stream_inv M s" "stream_running M s"
    using pushMfccBuffer_total [OF assms] by blast
  have "length (batch_buffer s) div unat (mfcc_feats_per_timestep M) \<le> unat (n_steps M)"
    using s(2) assms(2) by (simp add: stream_inv_def model_ok_def) (metis div_le_mono div_mult_self_is_m less_imp_le_nat not_gr_zero div_by_0 le0)
  from processBatch_total [OF assms(1) this s(3)] show ?thesis
    using finalizeStream_spec [OF assms(2,3), of env] s(1,3) by (auto simp: flush_rest_def)
qed

lemma new_stream_running: "acoustic_ok env M \<Longrightarrow> stream_running M (new_stream M)"
  unfolding stream_running_def new_stream_sel by (rule running_init) (simp add: acoustic_ok_def word_less_nat_alt)


lemma tiny_acoustic_ok: "acoustic_ok ref_cxx tiny_model"
  by (simp add: acoustic_ok_def tiny_model_def ModelState_new_def ref_cxx_def stl_ref_ok scorer_fits_def GetSize_def ab_alphabet_def)


theorem stream_buffers_bounded_witness:
  "\<exists>st st'. DS_CreateStream tiny_model = (0, Some st) \<and> mfold (DS_FeedAudioContent ref_cxx tiny_model) [[1, 2], [3]] st = Some st'
    \<and> length (audio_buffer st') < 2 \<and> length (mfcc_buffer st') < 3"
proof -
  note inv = new_stream_inv [OF tiny_model_ok] and run = new_stream_running [OF tiny_acoustic_ok]
  obtain st' where "mfold (DS_FeedAudioContent ref_cxx tiny_model) [[1, 2], [3]] (new_stream tiny_model) = Some st'"
    using feed_total [OF tiny_acoustic_ok tiny_model_ok inv run] feed_chunks [OF tiny_model_ok inv] by metis
  with stream_buffers_bounded [OF tiny_model_ok create_stream this] show ?thesis
    by (auto simp: create_stream tiny_model_def ModelState_new_def)
qed


section \<open>What the acoustic model sees\<close>

text \<open>
  C8: over a whole recording the acoustic model is run on batches of at most \<open>n_steps\<close> time
  steps, each of the size it announces; put together they are, for every frame of features, the
  frame with \<open>n_context\<close> frames before and after it, zeros standing for the frames outside the
  recording.
\<close>

theorem acoustic_input_shape:
  assumes "model_ok M" and "\<And>buf. length (compute_mfcc M buf) = unat (n_features M)"
    and "DS_CreateStream M = (err, Some st)"
  defines "pad \<equiv> replicate (unat (n_context M)) (replicate (unat (n_features M)) (Fin 0 0))"
  shows "\<exists>bs.
      map_option core (Option.bind (DS_FeedAudioContent env M samples st) (finalizeStream env M)) = mfold (acoustic_step env M) bs (core st)
    \<and> list_all (\<lambda>(b, n). length b = n * unat (mfcc_feats_per_timestep M) \<and> 0 < n \<and> n \<le> unat (n_steps M)) bs
    \<and> sum_list (map snd bs) = length (recording_frames M samples)
    \<and> concat (map fst bs) =
        concat (map (\<lambda>i. concat (take (2 * unat (n_context M) + 1) (drop i (pad @ recording_frames M samples @ pad))))
          [0..<length (recording_frames M samples)])"
proof -
  have st: "st = new_stream M" using assms(3) by (simp add: create_stream)
  note shape = recording_batches_shape [OF assms(1), of samples] and ctx = recording_steps_context [OF assms(1,2), of samples, folded pad_def]
  show ?thesis
  proof (intro exI conjI)
    show "map_option core (Option.bind (DS_FeedAudioContent env M samples st) (finalizeStream env M)) =
        mfold (acoustic_step env M) (recording_batches M samples) (core st)"
      using feed_and_finalize [OF assms(1)] st by (simp add: DS_FeedAudioContent_def)
    show "list_all (\<lambda>(b, n). length b = n * unat (mfcc_feats_per_timestep M) \<and> 0 < n \<and> n \<le> unat (n_steps M)) (recording_batches M samples)"
      by (rule shape(1))
    show "sum_list (map snd (recording_batches M samples)) = length (recording_frames M samples)" using shape(3) ctx by simp
    show "concat (map fst (recording_batches M samples)) =
        concat (map (\<lambda>i. concat (take (2 * unat (n_context M) + 1) (drop i (pad @ recording_frames M samples @ pad))))
          [0..<length (recording_frames M samples)])"
      using shape(2) ctx by simp
  qed
qed

theorem acoustic_input_shape_witness:
  "\<exists>st bs. DS_CreateStream tiny_model = (0, Some st)
    \<and> map_option core (Option.bind (DS_FeedAudioContent ref_cxx tiny_model [1, 2, 3] st) (finalizeStream ref_cxx tiny_model)) =
        mfold (acoustic_step ref_cxx tiny_model) bs (core st)
    \<and> list_all (\<lambda>(b, n). length b = n * 3 \<and> 0 < n \<and> n \<le> 2) bs \<and> sum_list (map snd bs) = 3"
proof -
  have feats: "length (compute_mfcc tiny_model buf) = unat (n_features tiny_model)" for buf by (simp add: tiny_model_def ModelState_new_def)
  have frames: "length (recording_frames tiny_model [1, 2, 3]) = 3"
    by (simp add: recording_frames_def tiny_model_def ModelState_new_def windows_count Let_def)
  have dims: "unat (mfcc_feats_per_timestep tiny_model) = 3" "unat (n_steps tiny_model) = 2"
    by (simp_all add: tiny_model_def ModelState_new_def)
  have "\<exists>bs. map_option core (Option.bind (DS_FeedAudioContent ref_cxx tiny_model [1, 2, 3] (new_stream tiny_model)) (finalizeStream ref_cxx tiny_model)) =
      mfold (acoustic_step ref_cxx tiny_model) bs (core (new_stream tiny_model))
    \<and> list_all (\<lambda>(b, n). length b = n * unat (mfcc_feats_per_timestep tiny_model) \<and> 0 < n \<and> n \<le> unat (n_steps tiny_model)) bs
    \<and> sum_list (map snd bs) = length (recording_frames tiny_model [1, 2, 3])"
    by (rule ex_forward [OF acoustic_input_shape [OF tiny_model_ok feats create_stream, of ref_cxx "[1, 2, 3]"]]) simp
  then show ?thesis using create_stream [of tiny_model] unfolding dims frames by simp
qed

section \<open>Text and metadata\<close>

definition no_nul :: "alphabet \<Rightarrow> bool" where
  "no_nul a \<longleftrightarrow> (\<forall>s \<in> ran (label_to_str a). CHR 0x00 \<notin> set s)"

lemma c_str_id: "CHR 0x00 \<notin> set s \<Longrightarrow> c_str s = s"
  unfolding c_str_def by (rule takeWhile_eq_all_conv [THEN iffD2]) auto

lemma Decode_from:
  assumes "no_nul a"
  shows "map_option_list (DecodeSingle a) toks = Some ss \<Longrightarrow>
    mfold (\<lambda>ind word. do { s \<leftarrow> DecodeSingle a ind; Some (word @ s) }) toks word = Some (word @ concat ss) \<and> CHR 0x00 \<notin> set (concat ss)"
proof (induction toks arbitrary: ss word)
  case Nil
  then show ?case by simp
next
  case (Cons tok toks)
  from Cons.prems obtain s ss' where s: "DecodeSingle a tok = Some s" "map_option_list (DecodeSingle a) toks = Some ss'" "ss = s # ss'"
    by (auto split: Option.bind_splits)
  moreover have "CHR 0x00 \<notin> set s" using assms s(1) by (auto simp: no_nul_def DecodeSingle_def ran_def)
  ultimately show ?case using Cons.IH [OF s(2), of "word @ s"] by simp
qed

lemma map_option_list_upt:
  "map_option_list (\<lambda>j. f (xs ! j)) [0..<length xs] = map_option_list f xs"
proof (induction xs)
  case Nil
  show ?case by simp
next
  case (Cons x xs)
  have "map_option_list (\<lambda>j. f ((x # xs) ! j)) (map Suc ys) = map_option_list (\<lambda>j. f (xs ! j)) ys" for ys by (induction ys) simp_all
  then show ?case using Cons.IH by (simp add: upt_conv_Cons map_Suc_upt [symmetric] del: upt_Suc)
qed

lemma transcript_texts:
  assumes "no_nul (ms_alphabet M)" and "transcript_of M out = Some tr"
  shows "map_option_list (DecodeSingle (ms_alphabet M)) (tokens out) = Some (map tm_text (ct_tokens tr))"
proof -
  let ?f = "\<lambda>j. do { ts \<leftarrow> nth_opt (out_timesteps out) j; token_of M (tokens out ! j) ts }"
  obtain toks where toks: "map_option_list ?f [0..<length (tokens out)] = Some toks" and tr: "ct_tokens tr = toks"
    using assms(2) by (auto simp: transcript_of_def split: Option.bind_splits)
  have "map_option_list (\<lambda>j. DecodeSingle (ms_alphabet M) (tokens out ! j)) js = Some (map tm_text ts)"
    if "map_option_list ?f js = Some ts" for js ts
    using that
  proof (induction js arbitrary: ts)
    case Nil
    then show ?case by simp
  next
    case (Cons j js)
    then obtain t ts' s where "?f j = Some t" "map_option_list ?f js = Some ts'" "ts = t # ts'"
      by (auto split: Option.bind_splits)
    moreover obtain s where "DecodeSingle (ms_alphabet M) (tokens out ! j) = Some s" "tm_text t = c_str s"
      using calculation(1) by (auto simp: token_of_def split: Option.bind_splits)
    moreover have "CHR 0x00 \<notin> set s" using calculation(4) assms(1) by (auto simp: no_nul_def DecodeSingle_def ran_def)
    ultimately show ?case using Cons.IH by (simp add: c_str_id)
  qed
  from this [OF toks] show ?thesis unfolding tr map_option_list_upt .
qed

lemma metadata_text:
  assumes "no_nul (ms_alphabet M)" and "DS_FinishStreamWithMetadata env M 1 st = Some (tr # trs)"
  shows "trs = [] \<and> DS_FinishStream env M st = Some (concat (map tm_text (ct_tokens tr)))"
proof -
  obtain st' outs where st': "finalizeStream env M st = Some st'" "DecoderState_decode env (stream_decoder st') 1 = Some outs"
    "map_option_list (transcript_of M) outs = Some (tr # trs)"
    using assms(2) by (auto simp: DS_FinishStreamWithMetadata_def finishStreamWithMetadata_def decode_metadata_def split: Option.bind_splits)
  obtain out outs' where outs: "outs = out # outs'" "transcript_of M out = Some tr" "map_option_list (transcript_of M) outs' = Some trs"
    using st'(3) by (cases outs) (auto split: Option.bind_splits)
  have len: "map_option_list f xs = Some ys \<Longrightarrow> length ys = length xs" for f :: "'x \<Rightarrow> 'y option" and xs ys
    by (induction xs arbitrary: ys) (auto split: Option.bind_splits)
  have "length outs \<le> 1" using st'(2) len by (fastforce simp: DecoderState_decode_def Let_def split: if_splits Option.bind_splits)
  then have one: "outs' = []" using outs(1) by simp
  have "Decode (ms_alphabet M) (tokens out) = Some (concat (map tm_text (ct_tokens tr)))" "CHR 0x00 \<notin> set (concat (map tm_text (ct_tokens tr)))"
    using Decode_from [OF assms(1) transcript_texts [OF assms(1) outs(2)], of "[]"] by (simp_all add: Decode_def)
  then show ?thesis using st'(1,2) outs one c_str_id
    by (simp add: DS_FinishStream_def finishStream_def ModelState_decode_def)
qed

text \<open>
  C10: the text of a stream is the concatenation of the tokens of its best transcript, and the
  times of the tokens are read for every token: text and metadata are two views of one result.
\<close>

theorem text_is_metadata:
  assumes "no_nul (ms_alphabet M)" and "DS_FinishStreamWithMetadata env M 1 st = Some (tr # trs)"
  shows "trs = [] \<and> DS_FinishStream env M st = Some (concat (map tm_text (ct_tokens tr)))"
  by (rule metadata_text [OF assms])


text \<open>An acoustic model without output leaves the decoder at the empty prefix.\<close>

definition silent_model :: "unit model_state" where
  "silent_model = tiny_model\<lparr>infer := (\<lambda>buf n c h. ([], c, h))\<rparr>"

lemma silent_model_ok: "model_ok silent_model"
  by (simp add: silent_model_def tiny_model_def ModelState_new_def model_ok_def audio_ok_def mfcc_ok_def batch_ok_def batch_capacity_def)

lemma silent_step: "acoustic_step env silent_model b r = Some r"
  by (cases b; cases r) (simp add: silent_model_def DecoderState_next_def)

lemma silent_steps: "mfold (acoustic_step env silent_model) bs r = Some r"
  by (induction bs) (simp_all add: silent_step)

lemma bind_weak_cong: "x = y \<Longrightarrow> Option.bind x f = Option.bind y f"
  by simp

lemma silent_decode:
  "DecoderState_decode ref_cxx (stream_decoder (new_stream silent_model)) 1 = Some [\<lparr>confidence = Fin 0 0, tokens = [], out_timesteps = []\<rparr>]"
  unfolding new_stream_sel
  by (simp cong: bind_weak_cong add: silent_model_def tiny_model_def ModelState_new_def DecoderState_decode_def DecoderState_init_def DecoderState_new_def
      alloc_pnode_def PathTrie_new_def all_live_def prefix_scores_def ref_cxx_def stl_ref_def decode_output_def
      isort_def get_path_vec.simps get_history_def get_history_helper.simps Let_def)

theorem text_is_metadata_witness: "DS_FinishStream ref_cxx silent_model (new_stream silent_model) = Some []"
proof -
  have "feedAudioContent ref_cxx silent_model [] (new_stream silent_model) = Some (new_stream silent_model)" by simp
  then have "map_option core (finalizeStream ref_cxx silent_model (new_stream silent_model)) = Some (core (new_stream silent_model))"
    using feed_and_finalize [OF silent_model_ok, of ref_cxx "[]"] silent_steps by simp
  then obtain st' where st': "finalizeStream ref_cxx silent_model (new_stream silent_model) = Some st'"
    "stream_decoder st' = stream_decoder (new_stream silent_model)" by (auto simp: core_def)
  have "DS_FinishStreamWithMetadata ref_cxx silent_model 1 (new_stream silent_model) = Some [\<lparr>ct_tokens = [], ct_confidence = Fin 0 0\<rparr>]"
    using st' silent_decode by (simp add: DS_FinishStreamWithMetadata_def finishStreamWithMetadata_def decode_metadata_def transcript_of_def)
  moreover have "no_nul (ms_alphabet silent_model)"
    by (auto simp: no_nul_def silent_model_def tiny_model_def ModelState_new_def ab_alphabet_def ran_def split: if_splits)
  ultimately show ?thesis using text_is_metadata by fastforce
qed

end
