(* ===== verification/Scorer_File.thy ===== *)
theory Scorer_File
  imports Dictionary_Build
begin

text \<open>
  The scorer package on disk: what \<^verbatim>\<open>Scorer::save_dictionary\<close> appends to a language model,
  \<^verbatim>\<open>Scorer::load_lm\<close> reads back; and which error each defect of the file is reported as.
\<close>

lemma le32_length [simp]: "length (le32 n) = 4"
  by (simp add: le32_def)

lemma put_all_Inl: "put_all bss (data, room) = Inl (data', room') \<Longrightarrow> data' = data @ concat bss"
proof (induction bss arbitrary: data room)
  case Nil
  then show ?case by simp
next
  case (Cons bs bss)
  then show ?case using Cons.IH [of "data @ bs" "room - length bs"] by (auto simp: put_bytes_def split: if_splits)
qed

text \<open>What the code relies on of the object representation of the two weights, and of the
  automaton's own writer and reader at the position where the automaton is stored.\<close>

definition codec_ok :: "'s lib \<Rightarrow> 's scorer \<Rightarrow> nat \<Rightarrow> const_fst \<Rightarrow> bool" where
  "codec_ok L s pos d \<longleftrightarrow>
     length (double_bytes L (s_alpha s)) = 8 \<and> bytes_double L (double_bytes L (s_alpha s)) = s_alpha s \<and>
     length (double_bytes L (s_beta s)) = 8 \<and> bytes_double L (double_bytes L (s_beta s)) = s_beta s \<and>
     fst_read L pos (fst_write L pos d) = Some d"

definition package_header :: "'s lib \<Rightarrow> 's scorer \<Rightarrow> string" where
  "package_header L s = le32 MAGIC @ le32 FILE_VERSION @ [if is_utf8_mode s then CHR 0x01 else CHR 0x00]
     @ double_bytes L (s_alpha s) @ double_bytes L (s_beta s)"

lemma package_header_length: "codec_ok L s pos d \<Longrightarrow> length (package_header L s) = 25"
  by (simp add: package_header_def codec_ok_def)

lemma save_dictionary_data:
  assumes "save_dictionary L file True app room s = Some (True, Some data)" and "s_dictionary s = Some d"
  shows "data = (if app then the file else []) @ package_header L s
    @ fst_write L (length ((if app then the file else []) @ package_header L s)) d"
proof -
  let ?old = "if app then (case file of Some d \<Rightarrow> d | None \<Rightarrow> []) else []"
  have fl: "\<not> (app \<and> file = None)" using assms(1) by (auto simp: save_dictionary_def split: if_splits)
  obtain data1 room1 where put: "put_all [le32 MAGIC, le32 FILE_VERSION, [if is_utf8_mode s then CHR 0x01 else CHR 0x00],
      double_bytes L (s_alpha s), double_bytes L (s_beta s)] (?old, room) = Inl (data1, room1)"
    "put_bytes (fst_write L (length data1) d) (data1, room1) = Inl (data, room1 - length (fst_write L (length data1) d))"
    using assms fl
    by (simp add: save_dictionary_def Let_def put_bytes_def split del: if_split split: sum.splits prod.splits)
      (auto split: if_splits)
  have "data1 = ?old @ package_header L s" using put_all_Inl [OF put(1)] by (simp add: package_header_def)
  moreover have "data = data1 @ fst_write L (length data1) d" using put(2) by (simp add: put_bytes_def split: if_splits)
  moreover have "?old = (if app then the file else [])" using fl by auto
  ultimately show ?thesis by simp
qed

lemma load_trie_package:
  assumes ok: "codec_ok L s (pos + 25) d"
  shows "load_trie L pos (package_header L s @ fst_write L (pos + 25) d) t =
    Some (0, t\<lparr>is_utf8_mode := is_utf8_mode s, s_alpha := to_float (s_alpha s), s_beta := to_float (s_beta s), s_dictionary := Some d\<rparr>)"
  using ok by (simp add: load_trie_def package_header_def read_bytes_def codec_ok_def reset_params_def Let_def)

lemma load_lm_package:
  assumes "codec_ok L s (length old + 25) d" and "save_dictionary L (Some old) True True room s = Some (True, Some data)"
    and "s_dictionary s = Some d"
    and "access_R_OK L path" "RecognizeBinary L path" "file_contents L path = data"
    and "end_of_search_offset (LoadVirtual L path) = length old"
  shows "load_lm L path t = Some (0, t\<lparr>language_model := Some (LoadVirtual L path), max_order := lm_order (LoadVirtual L path),
      is_utf8_mode := is_utf8_mode s, s_alpha := to_float (s_alpha s), s_beta := to_float (s_beta s), s_dictionary := Some d\<rparr>)"
proof -
  have len: "length (package_header L s) = 25" by (rule package_header_length [OF assms(1)])
  have data: "data = old @ package_header L s @ fst_write L (length old + 25) d"
    using save_dictionary_data [OF assms(2,3)] len by simp
  then have "drop (length old) data = package_header L s @ fst_write L (length old + 25) d" "length old < length data"
    using len by simp_all
  then show ?thesis
    using assms(4-7) load_trie_package [OF assms(1)]
    by (simp add: load_lm_def Let_def)
qed

text \<open>
  C31: a scorer package round trip.  When the dictionary of a scorer has been appended to a
  language model file, loading that file succeeds and gives back the same automaton and the
  same mode; the two weights come back narrowed to \<^verbatim>\<open>float\<close>.
\<close>

theorem scorer_package_roundtrip:
  assumes "codec_ok L s (length old + 25) d" and "save_dictionary L (Some old) True True room s = Some (True, Some data)"
    and "s_dictionary s = Some d"
    and "access_R_OK L path" "RecognizeBinary L path" "file_contents L path = data"
    and "end_of_search_offset (LoadVirtual L path) = length old"
  shows "load_lm L path t = Some (0, t\<lparr>language_model := Some (LoadVirtual L path), max_order := lm_order (LoadVirtual L path),
      is_utf8_mode := is_utf8_mode s, s_alpha := to_float (s_alpha s), s_beta := to_float (s_beta s), s_dictionary := Some d\<rparr>)"
  using assms by (rule load_lm_package)

text \<open>A small package: the language model is two bytes long, the automaton has one arc.\<close>

definition one_fst :: const_fst where
  "one_fst = \<lparr>fst_start = 0, fst_final = (\<lambda>s. s = 1), fst_arcs = (\<lambda>s. if s = 0 then [\<lparr>ilabel = 1, nextstate = 1\<rparr>] else [])\<rparr>"

definition one_scorer :: "unit scorer" where
  "one_scorer = ab_scorer\<lparr>s_dictionary := Some one_fst\<rparr>"

definition one_lib :: "unit lib" where
  "one_lib = id_lib\<lparr>fst_read := (\<lambda>pos bs. Some one_fst), fst_write := (\<lambda>pos d. ''F''),
     file_contents := (\<lambda>p. ''LM'' @ package_header id_lib one_scorer @ ''F''),
     LoadVirtual := (\<lambda>p. (LoadVirtual id_lib p)\<lparr>end_of_search_offset := 2\<rparr>)\<rparr>"

theorem scorer_package_roundtrip_witness:
  "load_lm one_lib ''kenlm.scorer'' ab_scorer = Some (0, ab_scorer\<lparr>language_model := Some (LoadVirtual one_lib ''kenlm.scorer''),
      max_order := 3, is_utf8_mode := False, s_alpha := Fin 0 0, s_beta := Fin 0 0, s_dictionary := Some one_fst\<rparr>)"
proof -
  have "codec_ok one_lib one_scorer (length ''LM'' + 25) one_fst"
    by (simp add: codec_ok_def one_lib_def id_lib_def one_scorer_def ab_scorer_def)
  moreover have "save_dictionary one_lib (Some ''LM'') True True 100 one_scorer =
      Some (True, Some (''LM'' @ package_header id_lib one_scorer @ ''F''))"
    by (simp add: save_dictionary_def put_bytes_def package_header_def one_lib_def id_lib_def one_scorer_def ab_scorer_def Let_def)
  moreover have "to_float (Fin 0 0) = Fin 0 0" by code_simp
  ultimately show ?thesis
    using scorer_package_roundtrip [of one_lib one_scorer "''LM''" one_fst 100 _ "''kenlm.scorer''" ab_scorer]
    by (simp add: one_lib_def id_lib_def one_scorer_def ab_scorer_def)
qed

section \<open>Defects of the file\<close>

text \<open>
  Whenever loading a scorer file returns, the code says what was found: unreadable file, no
  language model, nothing after the language model, wrong magic number, wrong version, or
  success; and after any error the scorer's dictionary is the one it had before.
\<close>

lemma load_lm_outcome:
  assumes "load_lm L path s = Some (code, s')"
  shows "code = ds_code
      (if \<not> access_R_OK L path then DS_ERR_SCORER_UNREADABLE
       else if \<not> RecognizeBinary L path then DS_ERR_SCORER_INVALID_LM
       else let trie = drop (end_of_search_offset (LoadVirtual L path)) (file_contents L path) in
         if trie = [] then DS_ERR_SCORER_NO_TRIE
         else if take 4 trie \<noteq> le32 MAGIC then DS_ERR_SCORER_INVALID_TRIE
         else if take 4 (drop 4 trie) \<noteq> le32 FILE_VERSION then DS_ERR_SCORER_VERSION_MISMATCH
         else DS_ERR_OK)
    \<and> (code \<noteq> 0 \<longrightarrow> s_dictionary s' = s_dictionary s)"
  using assms
  by (auto simp: load_lm_def load_trie_def read_bytes_def Let_def split: if_splits)

lemma load_lm_outcome_witness:
  "fst (the (load_lm (one_lib\<lparr>file_contents := (\<lambda>p. ''LM'')\<rparr>) ''kenlm.scorer'' ab_scorer)) = ds_code DS_ERR_SCORER_NO_TRIE"
proof -
  let ?L = "one_lib\<lparr>file_contents := (\<lambda>p. ''LM'')\<rparr>"
  obtain code s' where r: "load_lm ?L ''kenlm.scorer'' ab_scorer = Some (code, s')"
    by (simp add: load_lm_def one_lib_def id_lib_def Let_def)
  from load_lm_outcome [OF r] show ?thesis using r by (simp add: one_lib_def id_lib_def)
qed

end
