(* ===== verification/Model_Api.thy ===== *)
theory Model_Api
  imports Api_Spec Scorer_File
begin

text \<open>
  The calls that change a model: external scorer, hot words and beam width.  Each is compared with
  what it promises, and together they are the steps of a state machine.
\<close>

section \<open>The external scorer\<close>

lemma char_map_labels:
  "mfold (char_map_step a) is m = Some m' \<Longrightarrow> i \<in> set is \<Longrightarrow> of_nat i \<in> dom (label_to_str a)"
proof (induction "is" arbitrary: m)
  case Nil
  then show ?case by simp
next
  case (Cons j js)
  from Cons.prems(1) obtain c m1 where "label_to_str a (of_nat j) = Some c" "mfold (char_map_step a) js m1 = Some m'"
    by (auto simp: char_map_step_def DecodeSingle_def split: Option.bind_splits)
  then show ?case using Cons.IH [of m1] Cons.prems(2) by auto
qed

lemma load_lm_keeps:
  assumes "load_lm L path s = Some (code, s')"
  shows "s_alphabet s' = s_alphabet s" and "code = 0 \<Longrightarrow> language_model s' \<noteq> None"
  using assms by (auto simp: load_lm_def load_trie_def reset_params_def Let_def split: if_splits Option.bind_splits)

lemma enable_scorer_cases:
  assumes "DS_EnableExternalScorer L path M = Some (code, M')"
  shows "code = ds_code DS_ERR_INVALID_SCORER \<and> M' = M
    \<or> (\<exists>s. code = ds_code DS_ERR_OK \<and> M' = M\<lparr>ms_scorer := Some s\<rparr>
        \<and> scorer_fits (of_nat ` {..<GetSize (ms_alphabet M)}) (ms_scorer M') = (\<not> is_utf8_mode s))"
proof -
  obtain s0 err s where s0: "set_alphabet (ms_alphabet M) (Scorer_new (ms_alphabet M)) = Some s0"
    and s: "load_lm L path s0 = Some (err, s)"
    and res: "(code, M') = (if err \<noteq> 0 then (ds_code DS_ERR_INVALID_SCORER, M) else (ds_code DS_ERR_OK, M\<lparr>ms_scorer := Some s\<rparr>))"
    using assms by (auto simp: DS_EnableExternalScorer_def Scorer_init_def split: Option.bind_splits)
  obtain m where m: "mfold (char_map_step (ms_alphabet M)) [0..<GetSize (ms_alphabet M)] Map.empty = Some m"
    and al: "s_alphabet s0 = ms_alphabet M"
    using s0 by (auto simp: set_alphabet_def setup_char_map_def Scorer_new_def split: Option.bind_splits)
  have "of_nat ` {..<GetSize (ms_alphabet M)} \<subseteq> dom (label_to_str (s_alphabet s))"
    using char_map_labels [OF m] load_lm_keeps(1) [OF s] al by auto
  then show ?thesis using res load_lm_keeps(2) [OF s] by (cases "err = 0") (auto simp: scorer_fits_def)
qed



section \<open>Hot words\<close>

text \<open>The table of hot words as its users see it.\<close>

datatype hot_request = Add_Hot string fval | Erase_Hot string | Clear_Hot

fun hot_call :: "hot_request \<Rightarrow> 's model_state \<Rightarrow> int \<times> 's model_state" where
  "hot_call (Add_Hot w b) M = DS_AddHotWord w b M"
| "hot_call (Erase_Hot w) M = DS_EraseHotWord w M"
| "hot_call Clear_Hot M = DS_ClearHotWords M"

fun hot_spec :: "hot_request \<Rightarrow> (string \<rightharpoonup> fval) \<Rightarrow> ds_error \<times> (string \<rightharpoonup> fval)" where
  "hot_spec (Add_Hot w b) m = (if m w = None then (DS_ERR_OK, m(w \<mapsto> b)) else (DS_ERR_FAIL_INSERT_HOTWORD, m))"
| "hot_spec (Erase_Hot w) m = (if m w = None then (DS_ERR_FAIL_ERASE_HOTWORD, m) else (DS_ERR_OK, m(w := None)))"
| "hot_spec Clear_Hot m = (DS_ERR_OK, Map.empty)"

lemma map_add_singleton_new: "m w = None \<Longrightarrow> [w \<mapsto> b] ++ m = m(w \<mapsto> b)"
  by (auto simp: map_add_def fun_eq_iff split: option.splits)

lemma map_of_filter_key: "map_of (filter (\<lambda>e. fst e \<noteq> w) xs) = (map_of xs)(w := None)"
  by (induction xs) (auto simp: fun_eq_iff)

lemma filter_key_length: "length xs = length (filter (\<lambda>e. fst e \<noteq> w) xs) \<longleftrightarrow> map_of xs w = None"
proof (cases "map_of xs w")
  case None
  then have "filter (\<lambda>e. fst e \<noteq> w) xs = xs" by (auto simp: map_of_eq_None_iff filter_id_conv)
  with None show ?thesis by simp
next
  case (Some b)
  then have "length (filter (\<lambda>e. fst e \<noteq> w) xs) < length xs" by (auto intro!: length_filter_less dest: map_of_SomeD)
  with Some show ?thesis by simp
qed

text \<open>
  C22: with a scorer enabled, the hot-word calls implement a finite map: adding a word that is
  there, or erasing one that is not, changes nothing and returns the error code for it.
  Without a scorer they all change nothing and say so.
\<close>

theorem hot_words_refine_map:
  "hot_call c M =
     (if ms_scorer M = None then (ds_code DS_ERR_SCORER_NOT_ENABLED, M)
      else (ds_code (fst (hot_spec c (map_of (ms_hot_words M)))), snd (hot_call c M)))
   \<and> map_of (ms_hot_words (snd (hot_call c M))) =
     (if ms_scorer M = None then map_of (ms_hot_words M) else snd (hot_spec c (map_of (ms_hot_words M))))"
proof (cases c)
  case (Add_Hot w b)
  then show ?thesis by (simp add: DS_AddHotWord_def Let_def map_add_singleton_new)
next
  case (Erase_Hot w)
  then show ?thesis
    using filter_key_length [of "ms_hot_words M" w] by (auto simp: DS_EraseHotWord_def Let_def map_of_filter_key fun_eq_iff)
next
  case Clear_Hot
  then show ?thesis by (simp add: DS_ClearHotWords_def Let_def)
qed


section \<open>A model in use\<close>

text \<open>The calls a program can make on a model between streams, for a given world of files.\<close>

inductive api_step :: "'s lib \<Rightarrow> 's model_state \<Rightarrow> 's model_state \<Rightarrow> bool" for L where
  set_beam_width: "api_step L M (snd (DS_SetModelBeamWidth w M))"
| enable_scorer: "DS_EnableExternalScorer L path M = Some (code, M') \<Longrightarrow> api_step L M M'"
| disable_scorer: "api_step L M (snd (DS_DisableExternalScorer M))"
| set_alpha_beta: "DS_SetScorerAlphaBeta a b (M, streams) = (code, M', streams') \<Longrightarrow> api_step L M M'"
| hot_words: "api_step L M (snd (hot_call c M))"

inductive_cases api_stepE: "api_step L M M'"

definition same_geometry :: "'s model_state \<Rightarrow> 's model_state \<Rightarrow> bool" where
  "same_geometry M M' \<longleftrightarrow> (\<exists>s hw w. M' = M\<lparr>ms_scorer := s, ms_hot_words := hw, beam_width := w\<rparr>)"

lemma same_geometry_ok: "same_geometry M M' \<Longrightarrow> model_ok M' = model_ok M"
  by (auto simp: same_geometry_def model_ok_def audio_ok_def mfcc_ok_def batch_ok_def batch_capacity_def)

lemma same_geometry_trans: "same_geometry A B \<Longrightarrow> same_geometry B C \<Longrightarrow> same_geometry A C"
proof -
  assume "same_geometry A B" "same_geometry B C"
  then obtain s hw w s' hw' w' where "B = A\<lparr>ms_scorer := s, ms_hot_words := hw, beam_width := w\<rparr>"
    "C = B\<lparr>ms_scorer := s', ms_hot_words := hw', beam_width := w'\<rparr>" unfolding same_geometry_def by blast
  then have "C = A\<lparr>ms_scorer := s', ms_hot_words := hw', beam_width := w'\<rparr>" by simp
  then show ?thesis unfolding same_geometry_def by blast
qed

lemma same_geometryI:
  "same_geometry M M" "same_geometry M (M\<lparr>ms_scorer := s\<rparr>)" "same_geometry M (M\<lparr>ms_hot_words := hw\<rparr>)" "same_geometry M (M\<lparr>beam_width := w\<rparr>)"
  unfolding same_geometry_def
  by (rule exI [of _ "ms_scorer M"], rule exI [of _ "ms_hot_words M"], rule exI [of _ "beam_width M"], simp,
    rule exI [of _ s], rule exI [of _ "ms_hot_words M"], rule exI [of _ "beam_width M"], simp,
    rule exI [of _ "ms_scorer M"], rule exI [of _ hw], rule exI [of _ "beam_width M"], simp,
    rule exI [of _ "ms_scorer M"], rule exI [of _ "ms_hot_words M"], rule exI [of _ w], simp)

text \<open>The entries of the table have different words, and a scorer in place fits if it is
  word-based.\<close>

definition model_inv :: "'s model_state \<Rightarrow> bool" where
  "model_inv M \<longleftrightarrow> distinct (map fst (ms_hot_words M)) \<and>
     (\<forall>s. ms_scorer M = Some s \<longrightarrow> \<not> is_utf8_mode s \<longrightarrow> scorer_fits (of_nat ` {..<GetSize (ms_alphabet M)}) (Some s))"

lemma distinct_filter_keys: "distinct (map fst xs) \<Longrightarrow> distinct (map fst (filter P xs))"
  by (induction xs) auto

lemma hot_call_inv:
  "distinct (map fst (ms_hot_words M)) \<Longrightarrow> distinct (map fst (ms_hot_words (snd (hot_call c M))))
     \<and> snd (hot_call c M) = M\<lparr>ms_hot_words := ms_hot_words (snd (hot_call c M))\<rparr>"
  by (cases c) (auto simp: DS_AddHotWord_def DS_EraseHotWord_def DS_ClearHotWords_def Let_def distinct_filter_keys map_of_eq_None_iff)

lemma api_step_inv:
  assumes "api_step L M M'" "model_inv M"
  shows "same_geometry M M' \<and> model_inv M'"
  using assms(1)
proof cases
  case (set_beam_width w)
  then show ?thesis using assms(2) by (simp add: DS_SetModelBeamWidth_def same_geometryI model_inv_def)
next
  case (enable_scorer path code)
  from enable_scorer_cases [OF enable_scorer] show ?thesis
    using assms(2) by (auto simp: same_geometryI model_inv_def)
next
  case disable_scorer
  then show ?thesis using assms(2) by (simp add: DS_DisableExternalScorer_def same_geometryI model_inv_def)
next
  case (set_alpha_beta a b streams code streams')
  have fits: "scorer_fits X (Some (reset_params a b s)) = scorer_fits X (Some s)" "is_utf8_mode (reset_params a b s) = is_utf8_mode s" for X s
    by (simp_all add: scorer_fits_def reset_params_def)
  show ?thesis using assms(2) set_alpha_beta
    by (cases "ms_scorer M") (auto simp: DS_SetScorerAlphaBeta_def same_geometryI model_inv_def fits Let_def)
next
  case (hot_words c)
  have "distinct (map fst (ms_hot_words M))" using assms(2) by (simp add: model_inv_def)
  from hot_call_inv [OF this, of c] obtain hw where "M' = M\<lparr>ms_hot_words := hw\<rparr>" "distinct (map fst hw)"
    using hot_words by metis
  then show ?thesis using assms(2) by (simp add: same_geometryI model_inv_def)
qed



end
