(* ===== verification/Scorer_Package.thy ===== *)
theory Scorer_Package
  imports Model_Api
begin

text \<open>
  \<^verbatim>\<open>native_client/generate_scorer_package.cpp\<close>, \<^verbatim>\<open>trie_load.cc\<close> and
  \<^verbatim>\<open>enumerate_kenlm_vocabulary.cpp\<close>: the tools that build and inspect scorer packages.

  A file is its contents if it can be opened.  \<open>order\<close> is the iteration order of
  \<^verbatim>\<open>std::unordered_set\<close>, \<open>fresh\<close> the alphabet object before it is initialised, whose size is
  indeterminate, and \<open>room\<close> the number of bytes the device takes.
\<close>

section \<open>Definitions\<close>

text \<open>\<^verbatim>\<open>std::isspace\<close> in the classic locale.\<close>

definition is_space_char :: "char \<Rightarrow> bool" where
  "is_space_char c \<longleftrightarrow> c \<in> {CHR '' '', CHR 0x09, CHR 0x0A, CHR 0x0B, CHR 0x0C, CHR 0x0D}"

text \<open>\<^verbatim>\<open>fin >> word\<close> until the end of the file.\<close>

function read_words :: "string \<Rightarrow> string list" where
  "read_words fin =
     (let fin = dropWhile is_space_char fin in
      if fin = [] then []
      else takeWhile (\<lambda>c. \<not> is_space_char c) fin # read_words (dropWhile (\<lambda>c. \<not> is_space_char c) fin))"
  by pat_completeness auto
termination
proof (relation "measure length")
  fix fin fin' :: string
  assume fin: "fin' = dropWhile is_space_char fin" "fin' \<noteq> []"
  then have "\<not> is_space_char (hd fin')" by (metis hd_dropWhile)
  then have "length (dropWhile (\<lambda>c. \<not> is_space_char c) fin') < length fin'"
    using fin(2) by (cases fin') (simp_all add: length_dropWhile_le less_Suc_eq_le)
  also have "\<dots> \<le> length fin" using fin(1) by (simp add: length_dropWhile_le)
  finally show "(dropWhile (\<lambda>c. \<not> is_space_char c) fin', fin) \<in> measure length" by simp
qed simp

declare read_words.simps [simp del]

text \<open>The loop over the vocabulary: the set of words, and whether every word has one code
  point.\<close>

fun read_vocabulary :: "string list \<Rightarrow> string list \<Rightarrow> bool \<Rightarrow> string list \<times> bool" where
  "read_vocabulary [] words char_based = (words, char_based)"
| "read_vocabulary (word # fin) words char_based =
     read_vocabulary fin (List.insert word words) (if get_utf8_str_len word > 1 then False else char_based)"

text \<open>The scorer before the language model is loaded.  The result of the alphabet's \<^verbatim>\<open>init\<close> is
  not looked at.\<close>

definition package_scorer ::
    "alphabet \<Rightarrow> string option option \<Rightarrow> bool \<Rightarrow> fval \<Rightarrow> fval \<Rightarrow> 's scorer option" where
  "package_scorer fresh alphabet_file bytes_mode default_alpha default_beta = do {
     let s = Scorer_new fresh;
     s \<leftarrow> (if bytes_mode then set_alphabet UTF8Alphabet s
           else do { f \<leftarrow> alphabet_file; set_alphabet (snd (Alphabet_init f fresh)) s });
     let s = s\<lparr>is_utf8_mode := bytes_mode\<rparr>;
     Some (reset_params default_alpha default_beta s)
   }"

text \<open>The exit code and the package file afterwards.\<close>

definition create_package ::
    "'s lib \<Rightarrow> (string list \<Rightarrow> string list) \<Rightarrow> alphabet \<Rightarrow> string option option \<Rightarrow> string \<Rightarrow> string option \<Rightarrow> string option \<Rightarrow> bool \<Rightarrow> nat
       \<Rightarrow> bool option \<Rightarrow> fval \<Rightarrow> fval \<Rightarrow> (int \<times> string option) option" where
  "create_package L order fresh alphabet_file lm_path vocab_file package_file can_open room force default_alpha default_beta =
     (case vocab_file of
        None \<Rightarrow> Some (1, package_file)
      | Some fin \<Rightarrow>
          let (words, vocab_looks_char_based) = read_vocabulary (read_words fin) [] True;
              bytes_mode = (case force of Some b \<Rightarrow> b | None \<Rightarrow> vocab_looks_char_based)
          in if \<not> bytes_mode \<and> alphabet_file = None then Some (1, package_file)
             else do {
               s \<leftarrow> package_scorer fresh alphabet_file bytes_mode default_alpha default_beta;
               (err, s) \<leftarrow> load_lm L lm_path s;
               if err \<noteq> ds_code DS_ERR_SCORER_NO_TRIE then Some (1, package_file)
               else do {
                 s \<leftarrow> fill_dictionary L (order words) s;
                 let lm = take room (file_contents L lm_path);
                 let package_file = (if can_open then Some lm else package_file);
                 (saved, package_file) \<leftarrow> save_dictionary L package_file can_open True (room - length lm) s;
                 Some (if saved then 0 else 1, package_file)
               }
             })"

text \<open>The options of the command line.\<close>

record package_options =
  po_help :: bool
  po_alphabet :: "string option"
  po_lm :: "string option"
  po_vocab :: "string option"
  po_package :: "string option"
  po_default_alpha :: "fval option"
  po_default_beta :: "fval option"
  po_force_bytes_output_mode :: "bool option"

text \<open>\<open>create\<close> is \<^verbatim>\<open>create_package\<close> on the paths; the result of the call is not looked at.\<close>

definition package_main ::
    "(string option \<Rightarrow> string \<Rightarrow> string \<Rightarrow> string \<Rightarrow> bool option \<Rightarrow> fval \<Rightarrow> fval \<Rightarrow> 'w \<Rightarrow> (int \<times> 'w) option) \<Rightarrow> package_options
       \<Rightarrow> 'w \<Rightarrow> (int \<times> 'w) option" where
  "package_main create vm w =
     (if po_help vm then Some (1, w)
      else if po_lm vm = None \<or> po_vocab vm = None \<or> po_package vm = None \<or> po_default_alpha vm = None \<or> po_default_beta vm = None
      then Some (1, w)
      else do {
        (_, w) \<leftarrow> create (po_alphabet vm) (the (po_lm vm)) (the (po_vocab vm)) (the (po_package vm)) (po_force_bytes_output_mode vm)
          (the (po_default_alpha vm)) (the (po_default_beta vm)) w;
        Some (0, w)
      })"

text \<open>\<^verbatim>\<open>trie_load\<close> in a release build; \<open>config\<close> is the alphabet file.\<close>

definition trie_load_main :: "'s lib \<Rightarrow> alphabet \<Rightarrow> string \<Rightarrow> string option \<Rightarrow> int option" where
  "trie_load_main L fresh kenlm_path config =
     (let (err, alphabet) = Alphabet_init config fresh in
      if err \<noteq> 0 then Some err
      else map_option fst (Scorer_init L kenlm_path alphabet (Scorer_new fresh)))"

text \<open>\<^verbatim>\<open>enumerate_kenlm_vocabulary\<close>: \<open>words\<close> are the strings the language model's reader passes to
  the callback, in order.\<close>

definition RetrieveStrEnumerateVocab_Add :: "nat \<Rightarrow> string \<Rightarrow> string list \<Rightarrow> string list" where
  "RetrieveStrEnumerateVocab_Add index str vocabulary = vocabulary @ [str]"

definition enumerate_main :: "nat \<Rightarrow> string list \<Rightarrow> int \<times> string option" where
  "enumerate_main argc words =
     (if argc \<noteq> 3 then (- 1, None)
      else
        let vocabulary = fold (\<lambda>(i, w). RetrieveStrEnumerateVocab_Add i w) (enumerate 0 words) []
        in (0, Some (concat (map (\<lambda>word. word @ ''\<newline>'') vocabulary))))"

section \<open>Reading the vocabulary\<close>

lemma read_vocabulary_spec:
  "read_vocabulary ws acc b = (foldl (\<lambda>a w. List.insert w a) acc ws, b \<and> list_all (\<lambda>w. get_utf8_str_len w \<le> 1) ws)"
  by (induction ws arbitrary: acc b) auto

lemma read_vocabulary_set: "set (fst (read_vocabulary ws [] b)) = set ws"
proof -
  have "set (foldl (\<lambda>a w. List.insert w a) acc ws) = set acc \<union> set ws" for acc by (induction ws arbitrary: acc) auto
  then show ?thesis by (simp add: read_vocabulary_spec)
qed

lemma read_words_nonempty: "w \<in> set (read_words fin) \<Longrightarrow> w \<noteq> [] \<and> list_all (\<lambda>c. \<not> is_space_char c) w"
proof (induction fin rule: read_words.induct)
  case (1 fin)
  let ?fin = "dropWhile is_space_char fin"
  show ?case
  proof (cases "?fin = []")
    case True
    then show ?thesis using "1.prems" by (simp add: read_words.simps [of fin])
  next
    case False
    then have hd: "\<not> is_space_char (hd ?fin)" by (rule hd_dropWhile)
    have "w = takeWhile (\<lambda>c. \<not> is_space_char c) ?fin \<or> w \<in> set (read_words (dropWhile (\<lambda>c. \<not> is_space_char c) ?fin))"
      using "1.prems" False by (simp add: read_words.simps [of fin] Let_def split: if_splits)
    then show ?thesis
    proof
      assume w: "w = takeWhile (\<lambda>c. \<not> is_space_char c) ?fin"
      have "w \<noteq> []" using w hd False by (cases ?fin) auto
      moreover have "list_all (\<lambda>c. \<not> is_space_char c) w" using w by (auto simp: list_all_iff dest: set_takeWhileD)
      ultimately show ?thesis by simp
    next
      assume "w \<in> set (read_words (dropWhile (\<lambda>c. \<not> is_space_char c) ?fin))"
      then show ?thesis using "1.IH" [OF refl] False by blast
    qed
  qed
qed


section \<open>From a vocabulary to a loaded scorer\<close>

lemma load_lm_no_trie:
  assumes "load_lm L path s = Some (ds_code DS_ERR_SCORER_NO_TRIE, s')"
  shows "s' = s\<lparr>language_model := Some (LoadVirtual L path), max_order := lm_order (LoadVirtual L path)\<rparr>"
  using assms by (auto simp: load_lm_def load_trie_def reset_params_def Let_def split: if_splits Option.bind_splits)

lemma save_dictionary_no_room:
  assumes "save_dictionary L file can_open True 0 s = Some (saved, f)"
  shows "\<not> saved"
  using assms by (auto simp: save_dictionary_def put_bytes_def le32_def Let_def split: if_splits)

text \<open>Byte-based or not, as the options and the vocabulary decide; and the scorer whose dictionary
  is saved.\<close>

definition package_mode :: "bool option \<Rightarrow> string \<Rightarrow> bool" where
  "package_mode force vocab = (case force of Some m \<Rightarrow> m | None \<Rightarrow> list_all (\<lambda>w. get_utf8_str_len w \<le> 1) (read_words vocab))"

definition filled_scorer ::
    "'s lib \<Rightarrow> (string list \<Rightarrow> string list) \<Rightarrow> alphabet \<Rightarrow> string option option \<Rightarrow> string \<Rightarrow> string \<Rightarrow> bool option \<Rightarrow> fval \<Rightarrow> fval \<Rightarrow> 's scorer option" where
  "filled_scorer L order fresh alphabet_file lm_path vocab force a b = do {
     s \<leftarrow> package_scorer fresh alphabet_file (package_mode force vocab) a b;
     (_, s) \<leftarrow> load_lm L lm_path s;
     fill_dictionary L (order (fst (read_vocabulary (read_words vocab) [] True))) s
   }"

text \<open>A package that was made consists of the language model, the header and the automaton of the
  vocabulary.\<close>

lemma create_package_made:
  fixes L :: "'s lib"
  assumes made: "create_package L order fresh alphabet_file lm_path (Some vocab) old True room force a b = Some (0, Some data)"
    and lib: "fst_simplifiers_ok L" and order: "\<And>ws. set (order ws) = set ws"
  shows "\<exists>(s :: 's scorer) s1 d. package_scorer fresh alphabet_file (package_mode force vocab) a b = Some s
    \<and> filled_scorer L order fresh alphabet_file lm_path vocab force a b = Some s1
    \<and> save_dictionary L (Some (file_contents L lm_path)) True True (room - length (file_contents L lm_path)) s1 = Some (True, Some data)
    \<and> s_dictionary s1 = Some d \<and> is_utf8_mode s1 = package_mode force vocab \<and> s_alpha s1 = a \<and> s_beta s1 = b
    \<and> const_language d = dictionary_words s (read_words vocab)"
proof -
  let ?ws = "read_words vocab"
  let ?v = "fst (read_vocabulary ?ws [] True)" and ?lm = "file_contents L lm_path"
  have bm: "(case force of Some m \<Rightarrow> m | None \<Rightarrow> snd (read_vocabulary ?ws [] True)) = package_mode force vocab"
    by (cases force) (simp_all add: package_mode_def read_vocabulary_spec)
  obtain s s0 s1 where s: "package_scorer fresh alphabet_file (package_mode force vocab) a b = Some s"
    and s0: "load_lm L lm_path s = Some (ds_code DS_ERR_SCORER_NO_TRIE, s0)"
    and s1: "fill_dictionary L (order ?v) s0 = Some s1"
    and sv: "save_dictionary L (Some (take room ?lm)) True True (room - length (take room ?lm)) s1 = Some (True, Some data)"
    using made bm by (auto simp: create_package_def Let_def split_beta split: if_splits Option.bind_splits)
  have s0_eq: "s0 = s\<lparr>language_model := Some (LoadVirtual L lm_path), max_order := lm_order (LoadVirtual L lm_path)\<rparr>"
    by (rule load_lm_no_trie [OF s0])
  have mode: "is_utf8_mode s = package_mode force vocab" "s_alpha s = a" "s_beta s = b"
    using s by (auto simp: package_scorer_def reset_params_def Let_def split: Option.bind_splits)
  have vocab: "set (order ?v) = set ?ws" using order read_vocabulary_set by simp
  then have "[] \<notin> set (order ?v)" using read_words_nonempty by blast
  then obtain d where d: "s1 = s0\<lparr>s_dictionary := Some d\<rparr>" "const_language d = dictionary_words s0 (order ?v)"
    using fill_dictionary_accepts [OF lib, of s0 "order ?v"] s1 by auto
  have "dictionary_words s0 (order ?v) = dictionary_words s ?ws"
    using vocab by (simp add: dictionary_words_def dictionary_entry_def s0_eq)
  then have lang: "const_language d = dictionary_words s ?ws" using d(2) by simp
  have "length ?lm \<le> room"
  proof (rule ccontr)
    assume "\<not> length ?lm \<le> room"
    then have "room - length (take room ?lm) = 0" by simp
    then show False using sv save_dictionary_no_room by metis
  qed
  then have "save_dictionary L (Some ?lm) True True (room - length ?lm) s1 = Some (True, Some data)" using sv by simp
  moreover have "s_dictionary s1 = Some d" "is_utf8_mode s1 = package_mode force vocab" "s_alpha s1 = a" "s_beta s1 = b"
    using d(1) s0_eq mode by simp_all
  moreover have "filled_scorer L order fresh alphabet_file lm_path vocab force a b = Some s1"
    using s s0 s1 by (simp add: filled_scorer_def)
  ultimately show ?thesis using s lang by blast
qed


text \<open>A package for one word over an alphabet of one letter.\<close>

definition blank_alphabet :: alphabet where
  "blank_alphabet = \<lparr>asize = 0, space_label = 0, label_to_str = Map.empty, str_to_label = Map.empty\<rparr>"

definition lm_lib :: "unit lib" where
  "lm_lib = id_lib\<lparr>fst_write := (\<lambda>pos d. ''F''), file_contents := (\<lambda>p. ''LM''),
     LoadVirtual := (\<lambda>p. (LoadVirtual id_lib p)\<lparr>end_of_search_offset := 2\<rparr>)\<rparr>"

definition word_fst :: const_fst where
  "word_fst = the (s_dictionary (the (filled_scorer lm_lib id blank_alphabet (Some (Some ''a'')) ''lm'' ''a'' (Some False) (Fin 0 0) (Fin 0 0))))"

definition pack_lib :: "unit lib" where
  "pack_lib = lm_lib\<lparr>fst_read := (\<lambda>pos bs. Some word_fst),
     file_contents := (\<lambda>p. if p = ''lm'' then ''LM'' else ''LM'' @ package_header id_lib ab_scorer @ ''F'')\<rparr>"

lemma one_label:
  "Alphabet_init (Some ''a'') blank_alphabet =
     (0, \<lparr>asize = 1, space_label = - 2, label_to_str = [0 \<mapsto> ''a''], str_to_label = [''a'' \<mapsto> 0]\<rparr>)"
  by (simp add: Alphabet_init_def init_loop.simps getline_crossplatform_def init_line_def blank_alphabet_def Let_def)

lemma one_label_scorer:
  "\<exists>s :: unit scorer. package_scorer blank_alphabet (Some (Some ''a'')) False (Fin 0 0) (Fin 0 0) = Some s \<and> \<not> is_utf8_mode s
     \<and> s_alpha s = Fin 0 0 \<and> s_beta s = Fin 0 0"
  by (simp add: package_scorer_def one_label set_alphabet_def setup_char_map_def char_map_step_def DecodeSingle_def GetSize_def Scorer_new_def reset_params_def)

lemma pack_lm:
  "load_lm pack_lib ''lm'' s = Some (ds_code DS_ERR_SCORER_NO_TRIE, s\<lparr>language_model := Some (LoadVirtual lm_lib ''lm''), max_order := 3\<rparr>)"
  "load_lm lm_lib ''lm'' s = load_lm pack_lib ''lm'' s"
  by (simp_all add: load_lm_def pack_lib_def lm_lib_def id_lib_def Let_def)

lemma pack_fill: "fill_dictionary pack_lib ws s = fill_dictionary lm_lib ws s"
  by (simp add: fill_dictionary_def pack_lib_def)

lemma pack_simplifiers: "fst_simplifiers_ok lm_lib" "fst_simplifiers_ok pack_lib"
  by (simp_all add: fst_simplifiers_ok_def pack_lib_def lm_lib_def id_lib_def)


section \<open>Exit codes\<close>

text \<open>The tool's exit code says only whether the options were complete, not whether the package was
  made.\<close>

lemma package_main_exit:
  assumes "package_main create vm w = Some (code, w')" "\<not> po_help vm"
    and "po_lm vm \<noteq> None" "po_vocab vm \<noteq> None" "po_package vm \<noteq> None" "po_default_alpha vm \<noteq> None" "po_default_beta vm \<noteq> None"
  shows "code = 0"
  using assms by (auto simp: package_main_def split: Option.bind_splits)

lemma enumerate_lines: "enumerate_main 3 words = (0, Some (concat (map (\<lambda>w. w @ ''\<newline>'') words)))"
proof -
  have "fold (\<lambda>(i, w). RetrieveStrEnumerateVocab_Add i w) (enumerate n words) acc = acc @ words" for n acc
    by (induction words arbitrary: n acc) (simp_all add: RetrieveStrEnumerateVocab_Add_def)
  then show ?thesis by (simp add: enumerate_main_def)
qed

end
