(* ===== verification/Exec_Plan.thy ===== *)
theory Exec_Plan
  imports Prelude
begin

text \<open>
  \<^verbatim>\<open>TFLiteModelState::find_parent_node_ids\<close>: the nodes of the computation graph that a tensor
  depends on, in an order in which they can be run.

  A node is the pair of its input and output tensors; the graph is the list of nodes, and a node
  is named by its index.  The queue of the search only avoids tensors it currently holds, so a
  tensor may be visited again, and on a cyclic graph the search does not end: the loop is a
  partial function.
\<close>

section \<open>The search\<close>

type_synonym graph_node = "int list \<times> int list"

definition push_back_if_not_present :: "int list \<Rightarrow> int \<Rightarrow> int list" where
  "push_back_if_not_present xs v = (if v \<in> set xs then xs else xs @ [v])"

text \<open>The two innermost loops: the outputs of one node are compared with the tensor; every match
  adds the node to the front of the parents, and its inputs to the frontier.\<close>

fun scan_outputs :: "int \<Rightarrow> nat \<Rightarrow> int list \<Rightarrow> int list \<Rightarrow> nat list \<times> int list \<Rightarrow> nat list \<times> int list" where
  "scan_outputs t node_id inputs [] s = s"
| "scan_outputs t node_id inputs (out # outputs) (parents, frontier) =
     scan_outputs t node_id inputs outputs
       (if out = t then (node_id # parents, foldl push_back_if_not_present frontier inputs) else (parents, frontier))"

fun scan_nodes :: "int \<Rightarrow> nat \<Rightarrow> graph_node list \<Rightarrow> nat list \<times> int list \<Rightarrow> nat list \<times> int list" where
  "scan_nodes t node_id [] s = s"
| "scan_nodes t node_id (node # nodes) s = scan_nodes t (node_id + 1) nodes (scan_outputs t node_id (fst node) (snd node) s)"

partial_function (option) find_parents_loop :: "graph_node list \<Rightarrow> nat list \<Rightarrow> int list \<Rightarrow> nat list option" where
  "find_parents_loop nodes parents frontier =
     (case frontier of
        [] \<Rightarrow> Some parents
      | next_tensor_id # frontier \<Rightarrow>
          case scan_nodes next_tensor_id 0 nodes (parents, frontier) of
            (parents, frontier) \<Rightarrow> find_parents_loop nodes parents frontier)"

declare find_parents_loop.simps [code]

definition find_parent_node_ids :: "graph_node list \<Rightarrow> int \<Rightarrow> nat list option" where
  "find_parent_node_ids nodes tensor_id = find_parents_loop nodes [] [tensor_id]"

section \<open>One tensor\<close>

definition producers :: "graph_node list \<Rightarrow> int \<Rightarrow> nat set" where
  "producers nodes t = {n. n < length nodes \<and> t \<in> set (snd (nodes ! n))}"

definition inputs_of :: "graph_node list \<Rightarrow> nat \<Rightarrow> int set" where
  "inputs_of nodes n = set (fst (nodes ! n))"

lemma push_back_set [simp]: "set (push_back_if_not_present xs v) = insert v (set xs)"
  by (auto simp: push_back_if_not_present_def)

lemma foldl_push_back:
  "set (foldl push_back_if_not_present xs vs) = set xs \<union> set vs"
  "\<exists>K. mset (foldl push_back_if_not_present xs vs) = mset xs + K \<and> set_mset K \<subseteq> set vs"
proof -
  show "set (foldl push_back_if_not_present xs vs) = set xs \<union> set vs" by (induction vs arbitrary: xs) auto
  show "\<exists>K. mset (foldl push_back_if_not_present xs vs) = mset xs + K \<and> set_mset K \<subseteq> set vs"
  proof (induction vs arbitrary: xs)
    case Nil
    show ?case by simp
  next
    case (Cons v vs)
    from Cons [of "push_back_if_not_present xs v"] obtain K where
      K: "mset (foldl push_back_if_not_present (push_back_if_not_present xs v) vs) = mset (push_back_if_not_present xs v) + K" "set_mset K \<subseteq> set vs"
      by blast
    obtain J where J: "mset (push_back_if_not_present xs v) = mset xs + J" "set_mset J \<subseteq> {v}"
      by (cases "v \<in> set xs") (auto simp: push_back_if_not_present_def)
    show ?case using K J by (intro exI [of _ "J + K"]) auto
  qed
qed

text \<open>What visiting a tensor does: \<open>new\<close> are the nodes it adds, \<open>P\<close> the producers it found.\<close>

definition visited :: "graph_node list \<Rightarrow> nat set \<Rightarrow> nat list \<times> int list \<Rightarrow> nat list \<times> int list \<Rightarrow> bool" where
  "visited nodes P s s' \<longleftrightarrow>
     (\<exists>new K. fst s' = new @ fst s \<and> set new = P \<and> set (snd s') = set (snd s) \<union> (\<Union>n\<in>P. inputs_of nodes n)
        \<and> mset (snd s') = mset (snd s) + K \<and> set_mset K \<subseteq> (\<Union>n\<in>P. inputs_of nodes n))"

lemma visited_trans:
  assumes "visited nodes P s s'" "visited nodes Q s' s''"
  shows "visited nodes (P \<union> Q) s s''"
proof -
  obtain new K where 1: "fst s' = new @ fst s" "set new = P" "set (snd s') = set (snd s) \<union> (\<Union>n\<in>P. inputs_of nodes n)"
    "mset (snd s') = mset (snd s) + K" "set_mset K \<subseteq> (\<Union>n\<in>P. inputs_of nodes n)" using assms(1) unfolding visited_def by blast
  obtain new' K' where 2: "fst s'' = new' @ fst s'" "set new' = Q" "set (snd s'') = set (snd s') \<union> (\<Union>n\<in>Q. inputs_of nodes n)"
    "mset (snd s'') = mset (snd s') + K'" "set_mset K' \<subseteq> (\<Union>n\<in>Q. inputs_of nodes n)" using assms(2) unfolding visited_def by blast
  show ?thesis unfolding visited_def
    by (intro exI [of _ "new' @ new"] exI [of _ "K + K'"]) (use 1 2 in auto)
qed

lemma scan_outputs_visited:
  "n < length nodes \<Longrightarrow> visited nodes (if t \<in> set outs then {n} else {}) s (scan_outputs t n (fst (nodes ! n)) outs s)"
proof (induction outs arbitrary: s)
  case Nil
  show ?case by (simp add: visited_def)
next
  case (Cons x outs)
  obtain ps fr where s: "s = (ps, fr)" by (cases s)
  show ?case
  proof (cases "x = t")
    case True
    obtain K where K: "mset (foldl push_back_if_not_present fr (fst (nodes ! n))) = mset fr + K" "set_mset K \<subseteq> set (fst (nodes ! n))"
      using foldl_push_back(2) by blast
    have "visited nodes {n} s (n # ps, foldl push_back_if_not_present fr (fst (nodes ! n)))"
      unfolding visited_def s by (intro exI [of _ "[n]"] exI [of _ K]) (use K in \<open>simp add: foldl_push_back(1) inputs_of_def\<close>)
    from visited_trans [OF this Cons.IH [OF Cons.prems]] show ?thesis using True s by (simp split: if_splits)
  next
    case False
    then show ?thesis using Cons s by simp
  qed
qed

lemma scan_nodes_visited:
  "k + length ns = length nodes \<Longrightarrow> ns = drop k nodes \<Longrightarrow>
     visited nodes {n \<in> producers nodes t. k \<le> n} s (scan_nodes t k ns s)"
proof (induction ns arbitrary: k s)
  case Nil
  then have none: "{n \<in> producers nodes t. k \<le> n} = {}" by (auto simp: producers_def)
  show ?case unfolding none by (simp add: visited_def)
next
  case (Cons node ns)
  have k: "k < length nodes" using Cons.prems(1) by simp
  then have "drop k nodes = nodes ! k # drop (k + 1) nodes" by (simp add: Cons_nth_drop_Suc)
  then have node: "node = nodes ! k" and ns: "ns = drop (k + 1) nodes" using Cons.prems(2) by simp_all
  have "visited nodes (if t \<in> set (snd node) then {k} else {}) s (scan_outputs t k (fst node) (snd node) s)"
    using scan_outputs_visited [OF k, of t "snd node" s] node by simp
  moreover have "visited nodes {n \<in> producers nodes t. k + 1 \<le> n} (scan_outputs t k (fst node) (snd node) s) (scan_nodes t (k + 1) ns (scan_outputs t k (fst node) (snd node) s))"
    using Cons.IH [of "k + 1"] Cons.prems(1) ns by simp
  moreover have "(if t \<in> set (snd node) then {k} else {}) \<union> {n \<in> producers nodes t. k + 1 \<le> n} = {n \<in> producers nodes t. k \<le> n}"
    using k node by (auto simp: producers_def le_eq_less_or_eq)
  ultimately show ?case using visited_trans by fastforce
qed

lemma scan_visited: "visited nodes (producers nodes t) s (scan_nodes t 0 nodes s)"
  using scan_nodes_visited [of 0 nodes nodes t s] by simp


section \<open>The whole search\<close>

text \<open>The tensors a tensor depends on, and the nodes that compute them.\<close>

inductive needed :: "graph_node list \<Rightarrow> int \<Rightarrow> int \<Rightarrow> bool" for nodes t where
  needed_refl: "needed nodes t t"
| needed_input: "needed nodes t out \<Longrightarrow> n \<in> producers nodes out \<Longrightarrow> i \<in> inputs_of nodes n \<Longrightarrow> needed nodes t i"

definition ancestors :: "graph_node list \<Rightarrow> int \<Rightarrow> nat set" where
  "ancestors nodes t = {n. \<exists>out. needed nodes t out \<and> n \<in> producers nodes out}"

text \<open>A list of nodes can be run in order: the inputs of a node come from nodes before it.\<close>

definition runnable :: "graph_node list \<Rightarrow> nat list \<Rightarrow> bool" where
  "runnable nodes ps \<longleftrightarrow> (\<forall>xs n ys. ps = xs @ n # ys \<longrightarrow> (\<forall>i\<in>inputs_of nodes n. producers nodes i \<subseteq> set xs))"

definition acyclic_by :: "(int \<Rightarrow> nat) \<Rightarrow> graph_node list \<Rightarrow> bool" where
  "acyclic_by rank nodes \<longleftrightarrow> list_all (\<lambda>(ins, outs). list_all (\<lambda>i. list_all (\<lambda>out. rank i < rank out) outs) ins) nodes"

lemma acyclic_by_less:
  "acyclic_by rank nodes \<Longrightarrow> n \<in> producers nodes out \<Longrightarrow> i \<in> inputs_of nodes n \<Longrightarrow> rank i < rank out"
proof -
  assume a: "acyclic_by rank nodes" and n: "n \<in> producers nodes out" and i: "i \<in> inputs_of nodes n"
  then have "nodes ! n \<in> set nodes" by (simp add: producers_def)
  with a have "list_all (\<lambda>i. list_all (\<lambda>out. rank i < rank out) (snd (nodes ! n))) (fst (nodes ! n))"
    unfolding acyclic_by_def list_all_iff [of _ nodes] by (auto simp: split_beta)
  then show ?thesis using n i by (simp add: list_all_iff producers_def inputs_of_def)
qed

text \<open>The invariant: the search has only found ancestors, and what a found node still waits for
  is in the frontier.\<close>

definition search_inv :: "graph_node list \<Rightarrow> int \<Rightarrow> nat list \<times> int list \<Rightarrow> bool" where
  "search_inv nodes t s \<longleftrightarrow>
     (\<forall>x\<in>set (snd s). needed nodes t x) \<and> set (fst s) \<subseteq> ancestors nodes t \<and>
     (t \<in> set (snd s) \<or> producers nodes t \<subseteq> set (fst s)) \<and>
     (\<forall>xs n ys. fst s = xs @ n # ys \<longrightarrow> (\<forall>i\<in>inputs_of nodes n. i \<in> set (snd s) \<or> producers nodes i \<subseteq> set xs))"

lemma search_inv_step:
  assumes inv: "search_inv nodes t (ps, x # fr)" and v: "visited nodes (producers nodes x) (ps, fr) s'"
  shows "search_inv nodes t s'"
proof -
  obtain new where new: "fst s' = new @ ps" "set new = producers nodes x" "set (snd s') = set fr \<union> (\<Union>n\<in>producers nodes x. inputs_of nodes n)"
    using v unfolding visited_def by auto
  have x: "needed nodes t x" and fr: "\<And>y. y \<in> set fr \<Longrightarrow> needed nodes t y" and anc: "set ps \<subseteq> ancestors nodes t"
    and tt: "t = x \<or> t \<in> set fr \<or> producers nodes t \<subseteq> set ps"
    and wait: "\<And>xs n ys i. ps = xs @ n # ys \<Longrightarrow> i \<in> inputs_of nodes n \<Longrightarrow> i = x \<or> i \<in> set fr \<or> producers nodes i \<subseteq> set xs"
    using inv by (auto simp: search_inv_def)
  have need: "needed nodes t y" if "y \<in> set (snd s')" for y
    using that new(3) fr x by (auto intro: needed_input)
  have found: "set (fst s') \<subseteq> ancestors nodes t" using new anc x by (auto simp: ancestors_def)
  have target: "t \<in> set (snd s') \<or> producers nodes t \<subseteq> set (fst s')" using tt new by auto
  have "i \<in> set (snd s') \<or> producers nodes i \<subseteq> set xs" if split: "fst s' = xs @ n # ys" and i: "i \<in> inputs_of nodes n" for xs n ys i
  proof (cases "length xs < length new")
    case True
    then have "n \<in> set new" using split new(1) by (metis nth_append nth_append_length nth_mem)
    then show ?thesis using new(2,3) i by auto
  next
    case False
    then obtain zs where zs: "xs = new @ zs" "ps = zs @ n # ys"
      using split new(1) by (auto simp: append_eq_append_conv2)
    from wait [OF zs(2) i] show ?thesis using zs(1) new(2,3) by auto
  qed
  with need found target show ?thesis by (auto simp: search_inv_def)
qed

lemma search_inv_done:
  assumes "search_inv nodes t (ps, [])"
  shows "set ps = ancestors nodes t" "runnable nodes ps"
proof -
  have sub: "set ps \<subseteq> ancestors nodes t" and start: "producers nodes t \<subseteq> set ps"
    and wait: "\<And>xs n ys i. ps = xs @ n # ys \<Longrightarrow> i \<in> inputs_of nodes n \<Longrightarrow> producers nodes i \<subseteq> set xs"
    using assms by (auto simp: search_inv_def)
  show "runnable nodes ps" using wait by (simp add: runnable_def)
  have "producers nodes y \<subseteq> set ps" if "needed nodes t y" for y
    using that
  proof induction
    case needed_refl
    show ?case by (rule start)
  next
    case (needed_input out n i)
    then have "n \<in> set ps" by blast
    then obtain xs ys where ps: "ps = xs @ n # ys" by (metis split_list)
    show ?case using wait [OF ps needed_input.hyps(3)] ps by auto
  qed
  with sub show "set ps = ancestors nodes t" by (auto simp: ancestors_def)
qed

lemma find_parents_loop_total:
  assumes acyc: "acyclic_by rank nodes"
  shows "search_inv nodes t (ps, fr) \<Longrightarrow> \<exists>r. find_parents_loop nodes ps fr = Some r \<and> search_inv nodes t (r, [])"
proof (induction "mset fr" arbitrary: ps fr rule: wf_induct_rule [OF wf_mult [OF wf_measure [of rank]]])
  case 1
  show ?case
  proof (cases fr)
    case Nil
    then show ?thesis using "1.prems" by (simp add: find_parents_loop.simps)
  next
    case (Cons x fr')
    obtain ps1 fr1 where s1: "scan_nodes x 0 nodes (ps, fr') = (ps1, fr1)" by (cases "scan_nodes x 0 nodes (ps, fr')")
    then have v: "visited nodes (producers nodes x) (ps, fr') (ps1, fr1)" using scan_visited by metis
    have inv: "search_inv nodes t (ps1, fr1)" using search_inv_step [OF _ v] "1.prems" Cons by simp
    obtain K where K: "mset fr1 = mset fr' + K" "set_mset K \<subseteq> (\<Union>n\<in>producers nodes x. inputs_of nodes n)"
      using v unfolding visited_def by auto
    have "\<forall>k\<in>set_mset K. \<exists>j\<in>set_mset {#x#}. (k, j) \<in> measure rank"
      using K(2) acyclic_by_less [OF acyc] by auto
    from one_step_implies_mult [OF _ this, of "mset fr'"] have "(mset fr1, mset fr) \<in> mult (measure rank)"
      using K(1) Cons by simp
    from "1.hyps" [OF this inv] show ?thesis
      using Cons s1 by (simp add: find_parents_loop.simps [of nodes ps "x # fr'"])
  qed
qed

text \<open>
  C37: on an acyclic graph the search for the nodes a tensor depends on always ends; it finds
  exactly those nodes, and lists them so that every node comes after the nodes that produce
  its inputs: the list is an execution plan.
\<close>

theorem find_parent_node_ids_plan:
  assumes "acyclic_by rank nodes"
  shows "\<exists>plan. find_parent_node_ids nodes t = Some plan \<and> set plan = ancestors nodes t \<and> runnable nodes plan"
proof -
  have "search_inv nodes t ([], [t])" by (simp add: search_inv_def needed_refl)
  from find_parents_loop_total [OF assms this] show ?thesis
    using search_inv_done by (fastforce simp: find_parent_node_ids_def)
qed

text \<open>A diamond whose sides have different lengths: the source is visited twice and listed
  twice.\<close>

definition diamond :: "graph_node list" where
  "diamond = [([0], [1]), ([1], [2]), ([1, 2], [3])]"

theorem find_parent_node_ids_plan_witness:
  "\<exists>plan. find_parent_node_ids diamond 3 = Some plan \<and> set plan = ancestors diamond 3 \<and> runnable diamond plan"
  by (rule find_parent_node_ids_plan [of nat]) (simp add: acyclic_by_def diamond_def)

text \<open>The source of the diamond is in the plan twice.\<close>

lemma diamond_twice: "find_parent_node_ids diamond 3 = Some [0, 1, 0, 2]"
  by code_simp

end
