(* ===== verification/Tflite_Backend.thy ===== *)
theory Tflite_Backend
  imports Exec_Plan Streaming
begin

text \<open>
  \<^verbatim>\<open>native_client/tflitemodelstate.{h,cc}\<close>: a model that runs on a TensorFlow Lite interpreter.

  The interpreter is a record: the graph, and what running a plan does to the tensors.  A tensor
  of numbers is a list, and writing or reading beyond its end is \<open>None\<close>, as are a failed
  assertion and an index outside an array.  The interpreter's memory \<open>mem\<close> is part of the
  state.  Builds without delegates are modelled.
\<close>

section \<open>The interpreter\<close>

type_synonym tensors = "int \<Rightarrow> fval list"

record interpreter =
  ip_inputs :: "int list"
  ip_outputs :: "int list"
  tensor_name :: "int \<Rightarrow> string"
  tensor_dims :: "int \<Rightarrow> int list"
  ip_nodes :: "graph_node list"
  execution_plan :: "nat list"
  Invoke :: "nat list \<Rightarrow> tensors \<Rightarrow> tensors option"
  int_tensor :: "tensors \<Rightarrow> int \<Rightarrow> int option"
  string_tensor :: "tensors \<Rightarrow> int \<Rightarrow> string"

record 's tflite_state =
  tl_base :: "'s model_state"
  tl_interpreter :: interpreter
  mem :: tensors
  input_node_idx :: int
  previous_state_c_idx :: int
  previous_state_h_idx :: int
  input_samples_idx :: int
  logits_idx :: int
  new_state_c_idx :: int
  new_state_h_idx :: int
  mfccs_idx :: int
  acoustic_exec_plan :: "nat list"
  mfcc_exec_plan :: "nat list"

section \<open>Names and plans\<close>

text \<open>The last index whose name matches; \<open>-1\<close> fails the assertion, or is used as an index.\<close>

definition get_tensor_by_name :: "interpreter \<Rightarrow> int list \<Rightarrow> string \<Rightarrow> nat option" where
  "get_tensor_by_name ip xs name =
     fold (\<lambda>i rv. if tensor_name ip (xs ! i) = name then Some i else rv) [0..<length xs] None"

definition get_input_tensor_by_name :: "interpreter \<Rightarrow> string \<Rightarrow> int option" where
  "get_input_tensor_by_name ip name = do { idx \<leftarrow> get_tensor_by_name ip (ip_inputs ip) name; nth_opt (ip_inputs ip) idx }"

definition get_output_tensor_by_name :: "interpreter \<Rightarrow> string \<Rightarrow> int option" where
  "get_output_tensor_by_name ip name = do { idx \<leftarrow> get_tensor_by_name ip (ip_outputs ip) name; nth_opt (ip_outputs ip) idx }"

definition first_parent :: "interpreter \<Rightarrow> int \<Rightarrow> nat option" where
  "first_parent ip idx = do { ps \<leftarrow> find_parent_node_ids (ip_nodes ip) idx; nth_opt ps 0 }"

text \<open>The plan of the acoustic model: all nodes but those of the features and of the metadata.\<close>

definition acoustic_plan :: "nat list \<Rightarrow> nat list \<Rightarrow> nat list \<Rightarrow> nat list" where
  "acoustic_plan orig_plan mfcc_plan metadata_exec_plan =
     filter (\<lambda>elem. \<not> (elem \<in> set mfcc_plan \<or> elem \<in> set metadata_exec_plan)) orig_plan"

section \<open>Loading\<close>

text \<open>The length of a window in samples: a product in \<^verbatim>\<open>double\<close>, converted to \<^verbatim>\<open>unsigned\<close>.\<close>

definition window_samples :: "u32 \<Rightarrow> int \<Rightarrow> u32 option" where
  "window_samples rate ms = do {
     n \<leftarrow> ftrunc (fmul binary64 (of_integer binary64 (uint rate)) (fdiv binary64 (of_integer binary64 ms) (of_integer binary64 1000)));
     if 0 \<le> n \<and> n < 2 ^ 32 then Some (word_of_int n) else None
   }"

text \<open>The metadata read from the graph; \<open>Inl\<close> is an error code.  A null beam width is
  dereferenced.\<close>

definition read_metadata ::
    "bool \<Rightarrow> int \<Rightarrow> interpreter \<Rightarrow> tensors \<Rightarrow> int list \<Rightarrow> 's model_state \<Rightarrow> (int + 's model_state) option" where
  "read_metadata ndebug min_version ip m idxs M =
     (let (ver, rate, len, step, bw, al) = (idxs ! 0, idxs ! 1, idxs ! 2, idxs ! 3, idxs ! 4, idxs ! 5) in
      case int_tensor ip m ver of
        None \<Rightarrow> Some (Inl (ds_code DS_ERR_MODEL_INCOMPATIBLE))
      | Some graph_version \<Rightarrow>
          if graph_version < min_version then Some (Inl (ds_code DS_ERR_MODEL_INCOMPATIBLE))
          else (case int_tensor ip m rate of
            None \<Rightarrow> Some (Inl (ds_code DS_ERR_MODEL_INCOMPATIBLE))
          | Some model_sample_rate \<Rightarrow>
              let M = M\<lparr>sample_rate := word_of_int model_sample_rate\<rparr> in
              (case (int_tensor ip m len, int_tensor ip m step) of
                 (Some win_len_ms, Some win_step_ms) \<Rightarrow> do {
                   l \<leftarrow> window_samples (sample_rate M) win_len_ms;
                   s \<leftarrow> window_samples (sample_rate M) win_step_ms;
                   bwidth \<leftarrow> int_tensor ip m bw;
                   let M = M\<lparr>audio_win_len := l, audio_win_step := s, beam_width := word_of_int bwidth\<rparr>;
                   let (err, a) = Deserialize (string_tensor ip m al) (ms_alphabet M);
                   let M = M\<lparr>ms_alphabet := a\<rparr>;
                   if err \<noteq> 0 then Some (Inl (ds_code DS_ERR_INVALID_ALPHABET))
                   else do {
                     c_assert ndebug (sample_rate M > 0 \<and> audio_win_len M > 0 \<and> audio_win_step M > 0 \<and> beam_width M > 0 \<and>
                       GetSize (ms_alphabet M) > 0);
                     Some (Inr M)
                   }
                 }
               | _ \<Rightarrow> Some (Inl (ds_code DS_ERR_MODEL_INCOMPATIBLE)))))"

text \<open>The geometry read from the shapes.  \<open>state_size\<close> still has the value of the constructor when
  it is asserted to be positive.\<close>

definition read_shapes ::
    "bool \<Rightarrow> interpreter \<Rightarrow> int \<Rightarrow> int \<Rightarrow> int \<Rightarrow> int \<Rightarrow> 's model_state \<Rightarrow> (int + 's model_state) option" where
  "read_shapes ndebug ip input_node logits state_c state_h M = do {
     d1 \<leftarrow> nth_opt (tensor_dims ip input_node) 1;
     d2 \<leftarrow> nth_opt (tensor_dims ip input_node) 2;
     d3 \<leftarrow> nth_opt (tensor_dims ip input_node) 3;
     let M = M\<lparr>n_steps := word_of_int d1, n_context := word_of_int (sgn (d2 - 1) * (\<bar>d2 - 1\<bar> div 2)),
               n_features := word_of_int d3, mfcc_feats_per_timestep := word_of_int (d2 * d3)\<rparr>;
     l1 \<leftarrow> nth_opt (tensor_dims ip logits) 1;
     let final_dim_size = l1 - 1;
     if final_dim_size mod 2 ^ 64 \<noteq> int (GetSize (ms_alphabet M)) then Some (Inl (ds_code DS_ERR_INVALID_ALPHABET))
     else do {
       c1 \<leftarrow> nth_opt (tensor_dims ip state_c) 1;
       h1 \<leftarrow> nth_opt (tensor_dims ip state_h) 1;
       c_assert ndebug (c1 = h1);
       c_assert ndebug (state_size M > 0);
       Some (Inr (M\<lparr>state_size := word_of_int c1\<rparr>))
     }
   }"

text \<open>\<open>fbmodel\<close> says whether the file could be mapped, \<open>built\<close> is the interpreter with its tensors
  allocated.  The new state exists only without an error.\<close>

definition tflite_init ::
    "bool \<Rightarrow> int \<Rightarrow> bool \<Rightarrow> (interpreter \<times> tensors) option \<Rightarrow> 's model_state \<Rightarrow> (int + 's tflite_state) option" where
  "tflite_init ndebug min_version fbmodel built M =
     (if \<not> fbmodel then Some (Inl (ds_code DS_ERR_FAIL_INIT_MMAP))
      else case built of
        None \<Rightarrow> Some (Inl (ds_code DS_ERR_FAIL_INTERPRETER))
      | Some (ip, m) \<Rightarrow> do {
          input_node \<leftarrow> get_input_tensor_by_name ip ''input_node'';
          state_c \<leftarrow> get_input_tensor_by_name ip ''previous_state_c'';
          state_h \<leftarrow> get_input_tensor_by_name ip ''previous_state_h'';
          samples \<leftarrow> get_input_tensor_by_name ip ''input_samples'';
          logits \<leftarrow> get_output_tensor_by_name ip ''logits'';
          new_c \<leftarrow> get_output_tensor_by_name ip ''new_state_c'';
          new_h \<leftarrow> get_output_tensor_by_name ip ''new_state_h'';
          mfccs \<leftarrow> get_output_tensor_by_name ip ''mfccs'';
          ver \<leftarrow> get_output_tensor_by_name ip ''metadata_version'';
          rate \<leftarrow> get_output_tensor_by_name ip ''metadata_sample_rate'';
          len \<leftarrow> get_output_tensor_by_name ip ''metadata_feature_win_len'';
          step \<leftarrow> get_output_tensor_by_name ip ''metadata_feature_win_step'';
          bw \<leftarrow> get_output_tensor_by_name ip ''metadata_beam_width'';
          al \<leftarrow> get_output_tensor_by_name ip ''metadata_alphabet'';
          n0 \<leftarrow> first_parent ip ver;
          n1 \<leftarrow> first_parent ip rate;
          n2 \<leftarrow> first_parent ip len;
          n3 \<leftarrow> first_parent ip step;
          n4 \<leftarrow> first_parent ip bw;
          n5 \<leftarrow> first_parent ip al;
          let metadata_exec_plan = [n0, n1, n2, n3, n4, n5];
          mfcc_plan \<leftarrow> find_parent_node_ids (ip_nodes ip) mfccs;
          let acoustic = acoustic_plan (execution_plan ip) mfcc_plan metadata_exec_plan;
          case Invoke ip metadata_exec_plan m of
            None \<Rightarrow> Some (Inl (ds_code DS_ERR_FAIL_INTERPRETER))
          | Some m \<Rightarrow> do {
              r \<leftarrow> read_metadata ndebug min_version ip m [ver, rate, len, step, bw, al] M;
              case r of
                Inl err \<Rightarrow> Some (Inl err)
              | Inr M \<Rightarrow> do {
                  r \<leftarrow> read_shapes ndebug ip input_node logits state_c state_h M;
                  case r of
                    Inl err \<Rightarrow> Some (Inl err)
                  | Inr M \<Rightarrow> Some (Inr \<lparr>tl_base = M, tl_interpreter = ip, mem = m,
                      input_node_idx = input_node, previous_state_c_idx = state_c, previous_state_h_idx = state_h,
                      input_samples_idx = samples, logits_idx = logits, new_state_c_idx = new_c, new_state_h_idx = new_h,
                      mfccs_idx = mfccs, acoustic_exec_plan = acoustic, mfcc_exec_plan = mfcc_plan\<rparr>)
                }
            }
        })"

section \<open>Running\<close>

text \<open>\<^verbatim>\<open>copy_vector_to_tensor\<close>: the vector, then zeros up to \<open>num_elements\<close>; elements beyond both
  keep their values.\<close>

definition copy_vector_to_tensor :: "fval list \<Rightarrow> int \<Rightarrow> int \<Rightarrow> tensors \<Rightarrow> tensors option" where
  "copy_vector_to_tensor vec idx num_elements m =
     (let new = vec @ replicate (nat num_elements - length vec) (Fin 0 0) in
      if length (m idx) < length new then None
      else Some (m(idx := new @ drop (length new) (m idx))))"

definition tl_copy_tensor_to_vector :: "int \<Rightarrow> int \<Rightarrow> tensors \<Rightarrow> fval list \<Rightarrow> fval list option" where
  "tl_copy_tensor_to_vector idx num_elements m vec =
     (if int (length (m idx)) < num_elements then None else Some (vec @ take (nat num_elements) (m idx)))"

text \<open>The outputs are \<open>(logits, state_c, state_h)\<close>; the state vectors are also the inputs, and keep
  their values when running the graph fails.\<close>

definition tl_infer ::
    "bool \<Rightarrow> fval list \<Rightarrow> u32 \<Rightarrow> fval list \<Rightarrow> fval list \<Rightarrow> 's tflite_state \<Rightarrow> ((fval list \<times> fval list \<times> fval list) \<times> 's tflite_state) option" where
  "tl_infer ndebug mfcc n_frames c h T =
     (let M = tl_base T; num_classes = GetSize (ms_alphabet M) + 1; state_n = sint (state_size M) in do {
        m \<leftarrow> copy_vector_to_tensor mfcc (input_node_idx T) (sint (n_frames * mfcc_feats_per_timestep M)) (mem T);
        c_assert ndebug (length c = unat (state_size M));
        m \<leftarrow> copy_vector_to_tensor c (previous_state_c_idx T) state_n m;
        c_assert ndebug (length h = unat (state_size M));
        m \<leftarrow> copy_vector_to_tensor h (previous_state_h_idx T) state_n m;
        case Invoke (tl_interpreter T) (acoustic_exec_plan T) m of
          None \<Rightarrow> Some (([], c, h), T\<lparr>mem := m\<rparr>)
        | Some m \<Rightarrow> do {
            logits \<leftarrow> tl_copy_tensor_to_vector (logits_idx T) (sint (of_nat (unat (n_frames * of_nat BATCH_SIZE) * num_classes) :: u32)) m [];
            c' \<leftarrow> tl_copy_tensor_to_vector (new_state_c_idx T) state_n m [];
            h' \<leftarrow> tl_copy_tensor_to_vector (new_state_h_idx T) state_n m [];
            Some ((logits, c', h'), T\<lparr>mem := m\<rparr>)
          }
      })"

text \<open>\<open>plan_ok\<close> is the status of \<^verbatim>\<open>SetExecutionPlan\<close>.\<close>

definition tl_compute_mfcc :: "bool \<Rightarrow> bool \<Rightarrow> fval list \<Rightarrow> 's tflite_state \<Rightarrow> (fval list \<times> 's tflite_state) option" where
  "tl_compute_mfcc ndebug plan_ok samples T = do {
     m \<leftarrow> copy_vector_to_tensor samples (input_samples_idx T) (int (length samples)) (mem T);
     if \<not> plan_ok then Some ([], T\<lparr>mem := m\<rparr>)
     else (case Invoke (tl_interpreter T) (mfcc_exec_plan T) m of
        None \<Rightarrow> Some ([], T\<lparr>mem := m\<rparr>)
      | Some m \<Rightarrow>
          let n_windows = 1; n_features = n_features (tl_base T);
              num_elements = fold (*) (tensor_dims (tl_interpreter T) (mfccs_idx T)) 1
          in do {
            c_assert ndebug (uint (word_of_int num_elements :: u32) div uint n_features = n_windows);
            out \<leftarrow> tl_copy_tensor_to_vector (mfccs_idx T) (sint (word_of_int n_windows * n_features)) m [];
            Some (out, T\<lparr>mem := m\<rparr>)
          })
   }"

end
