(* ===== verification/Tflite_Spec.thy ===== *)
theory Tflite_Spec
  imports Tflite_Backend Api_Spec
begin

text \<open>
  What the TensorFlow Lite backend guarantees: a model it has loaded has the geometry that the
  streaming interface needs, and a run of the graph returns vectors of the right sizes.
\<close>

section \<open>Loading\<close>

lemma uint_of_small: "0 \<le> k \<Longrightarrow> k < 2 ^ 32 \<Longrightarrow> uint (word_of_int k :: u32) = k"
  by (simp add: unsigned_of_int take_bit_int_eq_self)

lemma unat_of_small: "0 \<le> k \<Longrightarrow> k < 2 ^ 32 \<Longrightarrow> unat (word_of_int k :: u32) = nat k"
  using uint_of_small [of k] unfolding unat_eq_nat_uint by simp

lemma rows_word: "k < 2 ^ 31 \<Longrightarrow> sint (of_nat k :: u32) = int k"
proof -
  assume k: "k < 2 ^ 31"
  then have "unat (of_nat k :: u32) = k" by (intro u32_unat_of_nat) simp
  then show ?thesis using sint_small [of "of_nat k"] k by metis
qed

text \<open>A shape the acoustic model's input can have: an odd number of frames per time step.\<close>

definition input_shape_ok :: "int list \<Rightarrow> bool" where
  "input_shape_ok dims \<longleftrightarrow> 4 \<le> length dims \<and> 0 < dims ! 1 \<and> 0 < dims ! 2 \<and> odd (dims ! 2) \<and> 0 < dims ! 3 \<and>
     dims ! 1 * (dims ! 2 * dims ! 3) < 2 ^ 31"

lemma read_shapes_geometry:
  assumes "read_shapes ndebug ip input_node logits state_c state_h M = Some (Inr M')" and "input_shape_ok (tensor_dims ip input_node)"
  shows "unat (mfcc_feats_per_timestep M') = (2 * unat (n_context M') + 1) * unat (n_features M')"
    "batch_capacity M' = unat (n_steps M') * unat (mfcc_feats_per_timestep M')"
    "mfcc_ok M'" "batch_ok M'"
    "\<exists>l. nth_opt (tensor_dims ip logits) 1 = Some l \<and> (l - 1) mod 2 ^ 64 = int (GetSize (ms_alphabet M'))"
    "audio_win_len M' = audio_win_len M" "audio_win_step M' = audio_win_step M" "beam_width M' = beam_width M"
    "ms_alphabet M' = ms_alphabet M"
proof -
  define d1 d2 d3 where "d1 = tensor_dims ip input_node ! 1" and "d2 = tensor_dims ip input_node ! 2" and "d3 = tensor_dims ip input_node ! 3"
  have sh: "0 < d1" "0 < d2" "odd d2" "0 < d3" "d1 * (d2 * d3) < 2 ^ 31" "4 \<le> length (tensor_dims ip input_node)"
    using assms(2) by (simp_all add: input_shape_ok_def d1_def d2_def d3_def)
  obtain l c1 where l: "nth_opt (tensor_dims ip logits) 1 = Some l" "(l - 1) mod 2 ^ 64 = int (GetSize (ms_alphabet M))"
    and M': "M' = M\<lparr>n_steps := word_of_int d1, n_context := word_of_int (sgn (d2 - 1) * (\<bar>d2 - 1\<bar> div 2)),
               n_features := word_of_int d3, mfcc_feats_per_timestep := word_of_int (d2 * d3), state_size := word_of_int c1\<rparr>"
    using assms(1) sh(6) by (auto simp: read_shapes_def Let_def d1_def d2_def d3_def split: Option.bind_splits if_splits)
  obtain c where c: "d2 = 2 * c + 1" "0 \<le> c" using sh(2,3) by (auto elim!: oddE)
  then have ctx: "sgn (d2 - 1) * (\<bar>d2 - 1\<bar> div 2) = c" by (auto simp: sgn_if)
  have grow: "a \<le> b * a" if "0 < a" "0 < b" for a b :: int using mult_right_mono [of 1 b a] that by simp
  have pos: "0 < d2 * d3" using sh by simp
  have big: "d2 * d3 \<le> d1 * (d2 * d3)" "d3 \<le> d2 * d3" "d2 \<le> d2 * d3" "d1 \<le> d1 * (d2 * d3)"
    using grow [OF pos sh(1)] grow [OF sh(4,2)] grow [OF sh(2,4)] grow [OF sh(1) pos] by (simp_all add: mult.commute)
  have small: "d2 * d3 < 2 ^ 31" "d3 < 2 ^ 31" "c < 2 ^ 31" "d1 < 2 ^ 31" using big sh(5) c by linarith+
  have words: "unat (n_steps M') = nat d1" "unat (n_context M') = nat c" "unat (n_features M') = nat d3"
    "unat (mfcc_feats_per_timestep M') = nat (d2 * d3)"
    unfolding M' ctx using small sh c(2) pos unat_of_small [of d1] unat_of_small [of c] unat_of_small [of d3] unat_of_small [of "d2 * d3"]
    by (simp_all del: of_int_mult)
  show "ms_alphabet M' = ms_alphabet M" "audio_win_len M' = audio_win_len M" "audio_win_step M' = audio_win_step M" "beam_width M' = beam_width M"
    by (simp_all add: M')
  show "\<exists>l. nth_opt (tensor_dims ip logits) 1 = Some l \<and> (l - 1) mod 2 ^ 64 = int (GetSize (ms_alphabet M'))" using l by (simp add: M')
  show feats: "unat (mfcc_feats_per_timestep M') = (2 * unat (n_context M') + 1) * unat (n_features M')"
    unfolding words using c sh(4) by (simp add: nat_mult_distrib nat_add_distrib)
  have "n_steps M' * mfcc_feats_per_timestep M' = word_of_int (d1 * (d2 * d3))" by (simp add: M')
  then have "batch_capacity M' = nat (d1 * (d2 * d3))"
    unfolding batch_capacity_def using sh(1,5) pos unat_of_small [of "d1 * (d2 * d3)"] by (simp del: of_int_mult)
  then show cap: "batch_capacity M' = unat (n_steps M') * unat (mfcc_feats_per_timestep M')"
    unfolding words using sh(1) by (simp add: nat_mult_distrib)
  have "0 < d1 * (d2 * d3)" using sh(1) pos by simp
  then show "batch_ok M'" using \<open>batch_capacity M' = nat (d1 * (d2 * d3))\<close> sh(5) by (simp add: batch_ok_def nat_less_iff)
  have "nat d3 \<le> nat (d2 * d3)" using big(2) by (rule nat_mono)
  moreover have "0 < nat d3" "nat (d2 * d3) < 2 ^ 31" using sh(4) small(1) pos by (simp_all add: nat_less_iff)
  ultimately show "mfcc_ok M'" by (simp add: mfcc_ok_def word_le_nat_alt word_less_nat_alt words)
qed



section \<open>Running\<close>

text \<open>The tensors are as large as the geometry says, before and after running the acoustic model.\<close>

definition tensors_fit :: "'s tflite_state \<Rightarrow> bool" where
  "tensors_fit T \<longleftrightarrow>
     (let M = tl_base T; st = unat (state_size M); ids = [input_node_idx T, previous_state_c_idx T, previous_state_h_idx T] in
      distinct ids \<and> batch_capacity M \<le> length (mem T (input_node_idx T)) \<and> st \<le> length (mem T (previous_state_c_idx T)) \<and>
      st \<le> length (mem T (previous_state_h_idx T)) \<and>
      (\<forall>m m'. (\<forall>i. length (m i) = length (mem T i)) \<longrightarrow> Invoke (tl_interpreter T) (acoustic_exec_plan T) m = Some m' \<longrightarrow>
         unat (n_steps M) * (GetSize (ms_alphabet M) + 1) \<le> length (m' (logits_idx T)) \<and>
         st \<le> length (m' (new_state_c_idx T)) \<and> st \<le> length (m' (new_state_h_idx T))))"

lemma copy_vector_exact:
  assumes "length vec \<le> length (m idx)" "num = int (length vec)"
  shows "copy_vector_to_tensor vec idx num m = Some (m(idx := vec @ drop (length vec) (m idx)))"
  using assms by (simp add: copy_vector_to_tensor_def Let_def)

lemma tl_copy_exact: "k \<le> length (m idx) \<Longrightarrow> tl_copy_tensor_to_vector idx (int k) m [] = Some (take k (m idx))"
  by (simp add: tl_copy_tensor_to_vector_def)

lemma tl_infer_total:
  assumes "model_ok (tl_base T)" and "tensors_fit T" and "n \<le> n_steps (tl_base T)"
    and "length mfcc = unat n * unat (mfcc_feats_per_timestep (tl_base T))"
    and "length c = unat (state_size (tl_base T))" and "length h = unat (state_size (tl_base T))" and "unat (state_size (tl_base T)) < 2 ^ 31"
    and "unat (n_steps (tl_base T)) * (GetSize (ms_alphabet (tl_base T)) + 1) < 2 ^ 31"
  shows "\<exists>logits c' h' T'. tl_infer ndebug mfcc n c h T = Some ((logits, c', h'), T') \<and> tl_base T' = tl_base T
    \<and> (length logits = unat n * (GetSize (ms_alphabet (tl_base T)) + 1)
         \<and> length c' = unat (state_size (tl_base T)) \<and> length h' = unat (state_size (tl_base T))
       \<or> logits = [] \<and> c' = c \<and> h' = h)"
proof -
  let ?M = "tl_base T" and ?i = "input_node_idx T" and ?c = "previous_state_c_idx T" and ?h = "previous_state_h_idx T"
  let ?k = "GetSize (ms_alphabet ?M) + 1" and ?st = "unat (state_size ?M)"
  note ok = model_okD [OF assms(1)]
  have n: "unat n \<le> unat (n_steps ?M)" using assms(3) by (simp add: word_le_nat_alt)
  have cap: "batch_capacity ?M = unat (n_steps ?M) * unat (mfcc_feats_per_timestep ?M)" "batch_capacity ?M < 2 ^ 31"
    using assms(1) unfolding model_ok_def batch_ok_def by blast+
  have len: "length mfcc \<le> batch_capacity ?M" unfolding cap(1) assms(4) using n by (rule mult_le_mono1)
  have prod: "unat (n * mfcc_feats_per_timestep ?M) = length mfcc"
    using len cap(2) assms(4) by (simp add: unat_word_ariths)
  then have frames: "sint (n * mfcc_feats_per_timestep ?M) = int (length mfcc)" using sint_small [of "n * mfcc_feats_per_timestep ?M"] len cap(2) by simp
  have state: "sint (state_size ?M) = int ?st" using sint_small [of "state_size ?M"] assms(7) by simp
  have rows: "unat n * ?k < 2 ^ 31" using assms(8) n by (meson le_less_trans mult_le_mono1)
  have logits_n: "sint (of_nat (unat (n * of_nat BATCH_SIZE) * ?k) :: u32) = int (unat n * ?k)"
    using rows_word [OF rows] by (simp only: BATCH_SIZE_def of_nat_1 mult_1_right)
  have fit: "distinct [?i, ?c, ?h]" "batch_capacity ?M \<le> length (mem T ?i)" "?st \<le> length (mem T ?c)" "?st \<le> length (mem T ?h)"
    using assms(2) by (simp_all add: tensors_fit_def Let_def)
  define m1 where "m1 = (mem T)(?i := mfcc @ drop (length mfcc) (mem T ?i))"
  define m2 where "m2 = m1(?c := c @ drop (length c) (m1 ?c))"
  define m where "m = m2(?h := h @ drop (length h) (m2 ?h))"
  have sizes1: "length (m1 i) = length (mem T i)" for i using fit(2) len by (simp add: m1_def)
  have sizes2: "length (m2 i) = length (mem T i)" for i using fit(3) assms(5) sizes1 by (simp add: m2_def)
  have sizes: "\<forall>i. length (m i) = length (mem T i)" using fit(4) assms(6) sizes2 by (simp add: m_def)
  have "copy_vector_to_tensor mfcc ?i (int (length mfcc)) (mem T) = Some m1"
    unfolding m1_def by (rule copy_vector_exact) (use fit(2) len in simp_all)
  moreover have "copy_vector_to_tensor c ?c (int ?st) m1 = Some m2"
    unfolding m2_def by (rule copy_vector_exact) (use fit(3) assms(5) sizes1 in simp_all)
  moreover have "copy_vector_to_tensor h ?h (int ?st) m2 = Some m"
    unfolding m_def by (rule copy_vector_exact) (use fit(4) assms(6) sizes2 in simp_all)
  ultimately have feed: "tl_infer ndebug mfcc n c h T = (case Invoke (tl_interpreter T) (acoustic_exec_plan T) m of
      None \<Rightarrow> Some (([], c, h), T\<lparr>mem := m\<rparr>)
    | Some m \<Rightarrow> do {
        logits \<leftarrow> tl_copy_tensor_to_vector (logits_idx T) (int (unat n * ?k)) m [];
        c' \<leftarrow> tl_copy_tensor_to_vector (new_state_c_idx T) (int ?st) m [];
        h' \<leftarrow> tl_copy_tensor_to_vector (new_state_h_idx T) (int ?st) m [];
        Some ((logits, c', h'), T\<lparr>mem := m\<rparr>)
      })"
    unfolding tl_infer_def Let_def frames state logits_n using assms(5,6) by (simp add: c_assert_def)
  show ?thesis
  proof (cases "Invoke (tl_interpreter T) (acoustic_exec_plan T) m")
    case None
    then show ?thesis using feed by simp
  next
    case (Some m')
    have out: "unat (n_steps ?M) * ?k \<le> length (m' (logits_idx T))" "?st \<le> length (m' (new_state_c_idx T))" "?st \<le> length (m' (new_state_h_idx T))"
      using assms(2) Some sizes unfolding tensors_fit_def Let_def by blast+
    have "unat n * ?k \<le> length (m' (logits_idx T))" using n out(1) by (meson le_trans mult_le_mono1)
    then have "tl_infer ndebug mfcc n c h T =
        Some ((take (unat n * ?k) (m' (logits_idx T)), take ?st (m' (new_state_c_idx T)), take ?st (m' (new_state_h_idx T))), T\<lparr>mem := m'\<rparr>)"
      using feed Some out(2,3) by (simp only: tl_copy_exact option.case bind.bind_lunit)
    then show ?thesis using \<open>unat n * ?k \<le> length (m' (logits_idx T))\<close> out(2,3) by simp
  qed
qed

text \<open>
  The acoustic model run on a batch of \<open>n\<close> time steps returns \<open>n\<close> rows of one number per
  class and recurrent states of the right size, or, when the interpreter fails, no rows and
  the recurrent states it was given.
\<close>

lemma tl_infer_shape:
  assumes "model_ok (tl_base T)" and "tensors_fit T" and "n \<le> n_steps (tl_base T)"
    and "length mfcc = unat n * unat (mfcc_feats_per_timestep (tl_base T))"
    and "length c = unat (state_size (tl_base T))" and "length h = unat (state_size (tl_base T))" and "unat (state_size (tl_base T)) < 2 ^ 31"
    and "unat (n_steps (tl_base T)) * (GetSize (ms_alphabet (tl_base T)) + 1) < 2 ^ 31"
  shows "\<exists>logits c' h' T'. tl_infer ndebug mfcc n c h T = Some ((logits, c', h'), T') \<and> tl_base T' = tl_base T
    \<and> (length logits = unat n * (GetSize (ms_alphabet (tl_base T)) + 1)
         \<and> length c' = unat (state_size (tl_base T)) \<and> length h' = unat (state_size (tl_base T))
       \<or> logits = [] \<and> c' = c \<and> h' = h)"
  by (rule tl_infer_total [OF assms])


section \<open>A small graph\<close>

definition toy_names :: "(int \<times> string) list" where
  "toy_names = zip [0, 1, 2, 3, 10, 11, 12, 13, 14, 15, 16, 17, 18, 19]
     [''input_node'', ''previous_state_c'', ''previous_state_h'', ''input_samples'', ''logits'', ''new_state_c'', ''new_state_h'', ''mfccs'', ''metadata_version'', ''metadata_sample_rate'', ''metadata_feature_win_len'',
      ''metadata_feature_win_step'', ''metadata_beam_width'', ''metadata_alphabet'']"

definition toy_dims :: "int \<Rightarrow> int list" where
  "toy_dims i = (if i = 0 then [1, 2, 3, 1] else if i = 10 then [2, 3] else [1, 1])"

definition ab_bytes :: string where
  "ab_bytes = [CHR 0x02, CHR 0x00, CHR 0x00, CHR 0x00, CHR 0x01, CHR 0x00, CHR ''a'', CHR 0x01, CHR 0x00, CHR 0x01, CHR 0x00, CHR ''b'']"

definition toy_ip :: interpreter where
  "toy_ip = \<lparr>ip_inputs = [0, 1, 2, 3], ip_outputs = [10, 11, 12, 13, 14, 15, 16, 17, 18, 19], tensor_name = (\<lambda>i. case map_of toy_names i of Some s \<Rightarrow> s | None \<Rightarrow> []),
     tensor_dims = toy_dims,
     ip_nodes = [([], [14]), ([], [15]), ([], [16]), ([], [17]), ([], [18]), ([], [19]), ([3], [13]), ([0, 1, 2], [10, 11, 12])],
     execution_plan = [0..<8], Invoke = (\<lambda>plan m. Some m),
     int_tensor = (\<lambda>m i. map_of [(14, 6), (15, 16000), (16, 32), (17, 20), (18, 500)] i),
     string_tensor = (\<lambda>m i. ab_bytes)\<rparr>"

definition toy_mem :: tensors where
  "toy_mem i = (if i = 0 \<or> i = 10 then replicate 6 (Fin 0 0) else [Fin 0 0])"

lemma toy_inputs:
  "get_input_tensor_by_name toy_ip ''input_node'' = Some 0" "get_input_tensor_by_name toy_ip ''previous_state_c'' = Some 1"
  "get_input_tensor_by_name toy_ip ''previous_state_h'' = Some 2" "get_input_tensor_by_name toy_ip ''input_samples'' = Some 3"
  by (simp_all add: get_input_tensor_by_name_def get_tensor_by_name_def toy_ip_def toy_names_def upt_rec)

lemma toy_outputs:
  "get_output_tensor_by_name toy_ip ''logits'' = Some 10" "get_output_tensor_by_name toy_ip ''new_state_c'' = Some 11"
  "get_output_tensor_by_name toy_ip ''new_state_h'' = Some 12" "get_output_tensor_by_name toy_ip ''mfccs'' = Some 13"
  "get_output_tensor_by_name toy_ip ''metadata_version'' = Some 14" "get_output_tensor_by_name toy_ip ''metadata_sample_rate'' = Some 15"
  "get_output_tensor_by_name toy_ip ''metadata_feature_win_len'' = Some 16" "get_output_tensor_by_name toy_ip ''metadata_feature_win_step'' = Some 17"
  "get_output_tensor_by_name toy_ip ''metadata_beam_width'' = Some 18" "get_output_tensor_by_name toy_ip ''metadata_alphabet'' = Some 19"
  by (simp_all add: get_output_tensor_by_name_def get_tensor_by_name_def toy_ip_def toy_names_def upt_rec)

lemma toy_plans:
  "first_parent toy_ip 14 = Some 0" "first_parent toy_ip 15 = Some 1" "first_parent toy_ip 16 = Some 2" "first_parent toy_ip 17 = Some 3"
  "first_parent toy_ip 18 = Some 4" "first_parent toy_ip 19 = Some 5" "find_parent_node_ids (ip_nodes toy_ip) 13 = Some [6]"
  by (simp_all add: first_parent_def find_parent_node_ids_def find_parents_loop.simps toy_ip_def push_back_if_not_present_def)

lemma toy_windows: "window_samples 16000 32 = Some 512" "window_samples 16000 20 = Some 320"
  by code_simp+

lemma toy_alphabet:
  "fst (Deserialize ab_bytes a) = 0" "asize (snd (Deserialize ab_bytes a)) = 2"
  by (simp_all add: ab_bytes_def Deserialize_def un_le16_def Let_def numeral_2_eq_2)


lemma toy_init:
  "\<exists>T. tflite_init True 6 True (Some (toy_ip, toy_mem)) tiny_model = Some (Inr T) \<and> input_node_idx T = 0 \<and> logits_idx T = 10
     \<and> audio_win_len (tl_base T) = 512 \<and> audio_win_step (tl_base T) = 320 \<and> tl_interpreter T = toy_ip \<and> mem T = toy_mem
     \<and> previous_state_c_idx T = 1 \<and> previous_state_h_idx T = 2 \<and> new_state_c_idx T = 11 \<and> new_state_h_idx T = 12
     \<and> state_size (tl_base T) = 1 \<and> n_steps (tl_base T) = 2 \<and> asize (ms_alphabet (tl_base T)) = 2 \<and> mfcc_feats_per_timestep (tl_base T) = 3"
proof -
  have bytes: "string_tensor toy_ip toy_mem i = ab_bytes" "Invoke toy_ip p toy_mem = Some toy_mem" for i p by (simp_all add: toy_ip_def)
  have ints: "int_tensor toy_ip toy_mem 14 = Some 6" "int_tensor toy_ip toy_mem 15 = Some 16000" "int_tensor toy_ip toy_mem 16 = Some 32"
    "int_tensor toy_ip toy_mem 17 = Some 20" "int_tensor toy_ip toy_mem 18 = Some 500" by (simp_all add: toy_ip_def)
  have dims: "tensor_dims toy_ip 0 = [1, 2, 3, 1]" "tensor_dims toy_ip 10 = [2, 3]" "tensor_dims toy_ip 1 = [1, 1]" "tensor_dims toy_ip 2 = [1, 1]"
    by (simp_all add: toy_ip_def toy_dims_def)
  have meta: "read_metadata True 6 toy_ip toy_mem [14, 15, 16, 17, 18, 19] tiny_model =
      Some (Inr (tiny_model\<lparr>sample_rate := 16000, audio_win_len := 512, audio_win_step := 320, beam_width := 500,
        ms_alphabet := snd (Deserialize ab_bytes (ms_alphabet tiny_model))\<rparr>))"
    using toy_alphabet(1) [of "ms_alphabet tiny_model"]
    by (simp add: read_metadata_def ints bytes toy_windows c_assert_def Let_def split_beta)
  show ?thesis
    unfolding tflite_init_def
    by (simp add: toy_inputs toy_outputs toy_plans bytes meta read_shapes_def dims c_assert_def GetSize_def toy_alphabet nth_opt_def Let_def)
qed



lemma toy_state:
  "\<exists>T. tflite_init True 6 True (Some (toy_ip, toy_mem)) tiny_model = Some (Inr T) \<and> model_ok (tl_base T) \<and> input_node_idx T = 0 \<and> logits_idx T = 10
     \<and> tl_interpreter T = toy_ip \<and> mem T = toy_mem
     \<and> previous_state_c_idx T = 1 \<and> previous_state_h_idx T = 2 \<and> new_state_c_idx T = 11 \<and> new_state_h_idx T = 12
     \<and> state_size (tl_base T) = 1 \<and> n_steps (tl_base T) = 2 \<and> asize (ms_alphabet (tl_base T)) = 2 \<and> mfcc_feats_per_timestep (tl_base T) = 3"
proof -
  obtain T where T: "tflite_init True 6 True (Some (toy_ip, toy_mem)) tiny_model = Some (Inr T)" "input_node_idx T = 0" "logits_idx T = 10"
    "audio_win_len (tl_base T) = 512" "audio_win_step (tl_base T) = 320" "tl_interpreter T = toy_ip" "mem T = toy_mem"
    "previous_state_c_idx T = 1" "previous_state_h_idx T = 2" "new_state_c_idx T = 11" "new_state_h_idx T = 12"
    "state_size (tl_base T) = 1" "n_steps (tl_base T) = 2" "asize (ms_alphabet (tl_base T)) = 2" "mfcc_feats_per_timestep (tl_base T) = 3"
    using toy_init by blast
  have "input_shape_ok (tensor_dims toy_ip (input_node_idx T))" by (simp add: T(2) toy_ip_def toy_dims_def input_shape_ok_def)
  moreover obtain c h M1 where "read_shapes True toy_ip (input_node_idx T) (logits_idx T) c h M1 = Some (Inr (tl_base T))"
    using T(1) by (auto simp: tflite_init_def Let_def split: option.splits sum.splits Option.bind_splits)
  ultimately have ok: "model_ok (tl_base T)"
    using read_shapes_geometry T(4,5) by (auto simp: model_ok_def audio_ok_def)
  show ?thesis by (rule exI [of _ T]) (simp add: T ok)
qed

lemma toy_invoke: "Invoke toy_ip p m = Some m' \<longleftrightarrow> m' = m"
  by (auto simp: toy_ip_def)

lemma tl_infer_shape_witness:
  "\<exists>T logits c h T'. tflite_init True 6 True (Some (toy_ip, toy_mem)) tiny_model = Some (Inr T)
     \<and> tl_infer True [Fin 1 0, Fin 3 0, Fin 5 0] 1 [Fin 0 0] [Fin 0 0] T = Some ((logits, c, h), T') \<and> (length logits = 3 \<or> logits = [])"
proof -
  obtain T where T: "tflite_init True 6 True (Some (toy_ip, toy_mem)) tiny_model = Some (Inr T)" "model_ok (tl_base T)" "input_node_idx T = 0" "logits_idx T = 10"
    "tl_interpreter T = toy_ip" "mem T = toy_mem"
    "previous_state_c_idx T = 1" "previous_state_h_idx T = 2" "new_state_c_idx T = 11" "new_state_h_idx T = 12"
    "state_size (tl_base T) = 1" "n_steps (tl_base T) = 2" "asize (ms_alphabet (tl_base T)) = 2" "mfcc_feats_per_timestep (tl_base T) = 3"
    using toy_state by blast
  have fit: "tensors_fit T" unfolding tensors_fit_def Let_def T(5) toy_invoke
    by (auto simp: T toy_mem_def GetSize_def batch_capacity_def)
  show ?thesis
    using tl_infer_shape [OF T(2) fit, of 1 "[Fin 1 0, Fin 3 0, Fin 5 0]" "[Fin 0 0]" "[Fin 0 0]" True] T(1)
    by (auto simp: T GetSize_def)
qed

text \<open>The frames of an earlier batch stay in the input tensor behind a shorter last batch.\<close>

lemma input_tail_kept:
  assumes "length mfcc \<le> length (m idx)"
  shows "\<exists>m'. copy_vector_to_tensor mfcc idx (int (length mfcc)) m = Some m' \<and> drop (length mfcc) (m' idx) = drop (length mfcc) (m idx)"
  using assms by (simp add: copy_vector_exact)

text \<open>The product that gives the length of a window is rounded twice and then truncated: nine
  milliseconds at 48 kHz are one sample short of 432.\<close>

lemma window_one_short: "window_samples 48000 9 = Some 431"
  by code_simp

end
