(* ===== verification/Tf_Backend.thy ===== *)
theory Tf_Backend
  imports Tflite_Spec
begin

text \<open>
  \<^verbatim>\<open>native_client/tfmodelstate.{h,cc}\<close>: a model that runs in a TensorFlow session.

  The session is the function that runs it: from named input tensors and the names of outputs
  to the output tensors, or nothing when the status is an error.  The steps before that, which
  can fail too, are flags of the record \<open>tf_world\<close>.  Reading a tensor as another type than it
  has, or beyond its end, is \<open>None\<close>.
\<close>

section \<open>Definitions\<close>

datatype tf_tensor = FloatT "fval list" | IntT "int list" | StringT string

type_synonym session = "(string \<times> tf_tensor) list \<Rightarrow> string list \<Rightarrow> tf_tensor list option"

text \<open>A node of the graph definition: its name, its shape and its value, when it has them.\<close>

record node_def =
  nd_name :: string
  nd_shape :: "int list option"
  nd_value :: "int list option option"

record tf_world =
  mmap_ok :: bool
  NewSession_ok :: bool
  ReadBinaryProto :: "node_def list option"
  Create_ok :: bool
  session_Run :: session

fun int_scalar :: "tf_tensor \<Rightarrow> int option" where
  "int_scalar (IntT [x]) = Some x"
| "int_scalar _ = None"

fun string_scalar :: "tf_tensor \<Rightarrow> string option" where
  "string_scalar (StringT s) = Some s"
| "string_scalar _ = None"

fun float_flat :: "tf_tensor \<Rightarrow> fval list option" where
  "float_flat (FloatT xs) = Some xs"
| "float_flat _ = None"

text \<open>One iteration of the loop over the nodes; \<open>Inl\<close> is the early return.\<close>

definition init_node :: "node_def \<Rightarrow> 's model_state \<Rightarrow> (int + 's model_state) option" where
  "init_node node M =
     (if nd_name node = ''input_node'' then do {
        shape \<leftarrow> nd_shape node;
        d1 \<leftarrow> nth_opt shape 1;
        d2 \<leftarrow> nth_opt shape 2;
        d3 \<leftarrow> nth_opt shape 3;
        Some (Inr (M\<lparr>n_steps := word_of_int d1, n_context := word_of_int (sgn (d2 - 1) * (\<bar>d2 - 1\<bar> div 2)),
          n_features := word_of_int d3, mfcc_feats_per_timestep := word_of_int (d2 * d3)\<rparr>))
      }
      else if nd_name node = ''previous_state_c'' then do {
        shape \<leftarrow> nd_shape node;
        d1 \<leftarrow> nth_opt shape 1;
        Some (Inr (M\<lparr>state_size := word_of_int d1\<rparr>))
      }
      else if nd_name node = ''logits_shape'' then do {
        v \<leftarrow> nd_value node;
        case v of
          None \<Rightarrow> Some (Inr M)
        | Some logits_shape \<Rightarrow> do {
            l2 \<leftarrow> nth_opt logits_shape 2;
            if (l2 - 1) mod 2 ^ 64 \<noteq> int (GetSize (ms_alphabet M)) then Some (Inl (ds_code DS_ERR_INVALID_ALPHABET)) else Some (Inr M)
          }
      }
      else Some (Inr M))"

fun init_nodes :: "node_def list \<Rightarrow> 's model_state \<Rightarrow> (int + 's model_state) option" where
  "init_nodes [] M = Some (Inr M)"
| "init_nodes (node # nodes) M = do {
     r \<leftarrow> init_node node M;
     case r of Inl err \<Rightarrow> Some (Inl err) | Inr M \<Rightarrow> init_nodes nodes M
   }"

text \<open>The metadata; the session has been created.\<close>

definition tf_metadata :: "bool \<Rightarrow> int \<Rightarrow> session \<Rightarrow> 's model_state \<Rightarrow> (int + 's model_state) option" where
  "tf_metadata ndebug min_version run M =
     (case run [] [''metadata_version''] of
        None \<Rightarrow> Some (Inl (ds_code DS_ERR_MODEL_INCOMPATIBLE))
      | Some version_output \<Rightarrow> do {
          v \<leftarrow> nth_opt version_output 0;
          graph_version \<leftarrow> int_scalar v;
          if graph_version < min_version then Some (Inl (ds_code DS_ERR_MODEL_INCOMPATIBLE))
          else (case run [] [''metadata_sample_rate'', ''metadata_feature_win_len'', ''metadata_feature_win_step'',
                             ''metadata_beam_width'', ''metadata_alphabet''] of
             None \<Rightarrow> Some (Inl (ds_code DS_ERR_MODEL_INCOMPATIBLE))
           | Some outs \<Rightarrow> do {
               t0 \<leftarrow> nth_opt outs 0;
               rate \<leftarrow> int_scalar t0;
               t1 \<leftarrow> nth_opt outs 1;
               win_len_ms \<leftarrow> int_scalar t1;
               t2 \<leftarrow> nth_opt outs 2;
               win_step_ms \<leftarrow> int_scalar t2;
               l \<leftarrow> window_samples (word_of_int rate) win_len_ms;
               s \<leftarrow> window_samples (word_of_int rate) win_step_ms;
               t3 \<leftarrow> nth_opt outs 3;
               bw \<leftarrow> int_scalar t3;
               t4 \<leftarrow> nth_opt outs 4;
               serialized_alphabet \<leftarrow> string_scalar t4;
               let (err, a) = Deserialize serialized_alphabet (ms_alphabet M);
               let M = M\<lparr>sample_rate := word_of_int rate, audio_win_len := l, audio_win_step := s, beam_width := word_of_int bw,
                         ms_alphabet := a\<rparr>;
               if err \<noteq> 0 then Some (Inl (ds_code DS_ERR_INVALID_ALPHABET))
               else do {
                 c_assert ndebug (sample_rate M > 0 \<and> audio_win_len M > 0 \<and> audio_win_step M > 0 \<and> beam_width M > 0 \<and>
                   GetSize (ms_alphabet M) > 0);
                 Some (Inr M)
               }
             })
        })"

definition tf_init :: "bool \<Rightarrow> int \<Rightarrow> tf_world \<Rightarrow> string \<Rightarrow> 's model_state \<Rightarrow> (int + 's model_state) option" where
  "tf_init ndebug min_version W model_path M =
     (let is_mmap = contains_str ''.pbmm'' model_path in
      if is_mmap \<and> \<not> mmap_ok W then Some (Inl (ds_code DS_ERR_FAIL_INIT_MMAP))
      else if \<not> NewSession_ok W then Some (Inl (ds_code DS_ERR_FAIL_INIT_SESS))
      else case ReadBinaryProto W of
        None \<Rightarrow> Some (Inl (ds_code DS_ERR_FAIL_READ_PROTOBUF))
      | Some graph_def \<Rightarrow>
          if \<not> Create_ok W then Some (Inl (ds_code DS_ERR_FAIL_CREATE_SESS))
          else do {
            r \<leftarrow> tf_metadata ndebug min_version (session_Run W) M;
            case r of
              Inl err \<Rightarrow> Some (Inl err)
            | Inr M \<Rightarrow> do {
                r \<leftarrow> init_nodes graph_def M;
                case r of
                  Inl err \<Rightarrow> Some (Inl err)
                | Inr M \<Rightarrow> Some (if n_context M = - 1 \<or> n_features M = - 1 then Inl (ds_code DS_ERR_INVALID_SHAPE) else Inr M)
              }
          })"

text \<open>A tensor of the given number of elements: the vector, then zeros.\<close>

definition tensor_from_vector :: "fval list \<Rightarrow> nat \<Rightarrow> tf_tensor option" where
  "tensor_from_vector vec num_elements =
     (if num_elements < length vec then None else Some (FloatT (vec @ replicate (num_elements - length vec) (Fin 0 0))))"

text \<open>The default argument \<open>-1\<close> stands for all elements.\<close>

definition tf_copy_tensor_to_vector :: "tf_tensor \<Rightarrow> fval list \<Rightarrow> int \<Rightarrow> fval list option" where
  "tf_copy_tensor_to_vector tensor vec num_elements = do {
     xs \<leftarrow> float_flat tensor;
     let n = (if num_elements = - 1 then int (length xs) else num_elements);
     if int (length xs) < n then None else Some (vec @ take (nat n) xs)
   }"

definition tf_infer ::
    "session \<Rightarrow> 's model_state \<Rightarrow> fval list \<Rightarrow> u32 \<Rightarrow> fval list \<Rightarrow> fval list \<Rightarrow> (fval list \<times> fval list \<times> fval list) option" where
  "tf_infer run M mfcc n_frames c h =
     (let num_classes = GetSize (ms_alphabet M) + 1 in do {
        input \<leftarrow> tensor_from_vector mfcc (BATCH_SIZE * unat (n_steps M) * unat (2 * n_context M + 1) * unat (n_features M));
        c_t \<leftarrow> tensor_from_vector c (BATCH_SIZE * unat (state_size M));
        h_t \<leftarrow> tensor_from_vector h (BATCH_SIZE * unat (state_size M));
        case run [(''input_node'', input), (''input_lengths'', IntT [sint n_frames]), (''previous_state_c'', c_t), (''previous_state_h'', h_t)]
               [''logits'', ''new_state_c'', ''new_state_h''] of
          None \<Rightarrow> Some ([], c, h)
        | Some outputs \<Rightarrow> do {
            t0 \<leftarrow> nth_opt outputs 0;
            logits \<leftarrow> tf_copy_tensor_to_vector t0 [] (sint (of_nat (unat (n_frames * of_nat BATCH_SIZE) * num_classes) :: u32));
            t1 \<leftarrow> nth_opt outputs 1;
            c' \<leftarrow> tf_copy_tensor_to_vector t1 [] (- 1);
            t2 \<leftarrow> nth_opt outputs 2;
            h' \<leftarrow> tf_copy_tensor_to_vector t2 [] (- 1);
            Some (logits, c', h')
          }
      })"

definition tf_compute_mfcc :: "bool \<Rightarrow> session \<Rightarrow> 's model_state \<Rightarrow> fval list \<Rightarrow> fval list option" where
  "tf_compute_mfcc ndebug run M samples = do {
     input \<leftarrow> tensor_from_vector samples (unat (audio_win_len M));
     case run [(''input_samples'', input)] [''mfccs''] of
       None \<Rightarrow> Some []
     | Some outputs \<Rightarrow> do {
         t0 \<leftarrow> nth_opt outputs 0;
         xs \<leftarrow> float_flat t0;
         c_assert ndebug (int (length xs) div uint (n_features M) = 1);
         tf_copy_tensor_to_vector t0 [] (- 1)
       }
   }"

section \<open>Running\<close>

lemma tf_copy_exact: "k \<le> length xs \<Longrightarrow> tf_copy_tensor_to_vector (FloatT xs) [] (int k) = Some (take k xs)"
  by (simp add: tf_copy_tensor_to_vector_def)

text \<open>What the graph promises: given a full batch, it returns a row per time step and recurrent
  states of the size of the model.\<close>

definition session_ok :: "session \<Rightarrow> 's model_state \<Rightarrow> bool" where
  "session_ok run M \<longleftrightarrow> (\<forall>ins outs. run ins [''logits'', ''new_state_c'', ''new_state_h''] = Some outs \<longrightarrow>
     (\<exists>l c h. outs = [FloatT l, FloatT c, FloatT h] \<and> unat (n_steps M) * (GetSize (ms_alphabet M) + 1) \<le> length l \<and>
        length c = unat (state_size M) \<and> length h = unat (state_size M)))"

lemma tf_infer_total:
  assumes "model_ok M" and "session_ok run M" and "n \<le> n_steps M"
    and "length mfcc = unat n * unat (mfcc_feats_per_timestep M)"
    and "length c = unat (state_size M)" and "length h = unat (state_size M)"
    and "unat (n_steps M) * (GetSize (ms_alphabet M) + 1) < 2 ^ 31"
  shows "\<exists>logits c' h'. tf_infer run M mfcc n c h = Some (logits, c', h')
    \<and> (case run [(''input_node'', FloatT (mfcc @ replicate (batch_capacity M - length mfcc) (Fin 0 0))), (''input_lengths'', IntT [sint n]),
           (''previous_state_c'', FloatT c), (''previous_state_h'', FloatT h)] [''logits'', ''new_state_c'', ''new_state_h''] of
         None \<Rightarrow> logits = [] \<and> c' = c \<and> h' = h
       | Some outs \<Rightarrow> length logits = unat n * (GetSize (ms_alphabet M) + 1) \<and> length c' = unat (state_size M) \<and> length h' = unat (state_size M)
           \<and> outs ! 1 = FloatT c' \<and> outs ! 2 = FloatT h')"
proof -
  let ?k = "GetSize (ms_alphabet M) + 1"
  have n: "unat n \<le> unat (n_steps M)" using assms(3) by (simp add: word_le_nat_alt)
  have feats: "unat (mfcc_feats_per_timestep M) = (2 * unat (n_context M) + 1) * unat (n_features M)" "0 < unat (n_features M)"
    and cap: "batch_capacity M = unat (n_steps M) * unat (mfcc_feats_per_timestep M)"
    using assms(1) stages_ok(2) [OF model_okD(2) [OF assms(1)]] unfolding model_ok_def by blast+
  have "(2 * unat (n_context M) + 1) * 1 \<le> (2 * unat (n_context M) + 1) * unat (n_features M)"
    by (rule mult_le_mono2) (use feats(2) in simp)
  then have "2 * unat (n_context M) + 1 \<le> unat (mfcc_feats_per_timestep M)" by (simp only: mult_1_right feats(1))
  also have "\<dots> < 2 ^ 32" by (rule u32_unat_less)
  finally have ctx: "unat (2 * n_context M + 1) = 2 * unat (n_context M) + 1" by (simp add: unat_word_ariths)
  have total: "BATCH_SIZE * unat (n_steps M) * unat (2 * n_context M + 1) * unat (n_features M) = batch_capacity M"
    unfolding cap feats(1) ctx by (simp add: BATCH_SIZE_def algebra_simps)
  have len: "length mfcc \<le> batch_capacity M" unfolding cap assms(4) using n by (rule mult_le_mono1)
  have rows: "unat n * ?k < 2 ^ 31" using assms(7) n by (meson le_less_trans mult_le_mono1)
  have num: "sint (of_nat (unat (n * of_nat BATCH_SIZE) * ?k) :: u32) = int (unat n * ?k)"
    using rows_word [OF rows] by (simp only: BATCH_SIZE_def of_nat_1 mult_1_right)
  let ?ins = "[(''input_node'', FloatT (mfcc @ replicate (batch_capacity M - length mfcc) (Fin 0 0))), (''input_lengths'', IntT [sint n]),
           (''previous_state_c'', FloatT c), (''previous_state_h'', FloatT h)]" and ?outs = "[''logits'', ''new_state_c'', ''new_state_h'']"
  show ?thesis
  proof (cases "run ?ins ?outs")
    case None
    then show ?thesis using len assms(5,6) unfolding tf_infer_def Let_def total
      by (simp add: tensor_from_vector_def BATCH_SIZE_def)
  next
    case (Some outs)
    then obtain l c' h' where outs: "outs = [FloatT l, FloatT c', FloatT h']" "unat (n_steps M) * ?k \<le> length l"
      "length c' = unat (state_size M)" "length h' = unat (state_size M)"
      using assms(2) unfolding session_ok_def by blast
    have l: "unat n * ?k \<le> length l" using n outs(2) by (meson le_trans mult_le_mono1)
    then have "tf_copy_tensor_to_vector (FloatT l) [] (int (unat n * ?k)) = Some (take (unat n * ?k) l)"
      by (rule tf_copy_exact)
    then have "tf_infer run M mfcc n c h = Some (take (unat n * ?k) l, c', h')"
      using Some len assms(5,6) outs(1) unfolding tf_infer_def Let_def total num
      by (simp add: tensor_from_vector_def BATCH_SIZE_def tf_copy_tensor_to_vector_def nth_opt_def)
    then show ?thesis using Some outs l by simp
  qed
qed

text \<open>
  The acoustic model run on a batch of \<open>n\<close> time steps is given the batch padded with zeros to
  a full one and the number of time steps; the result is \<open>n\<close> rows of one number per class and
  recurrent states of the right size, or, when the session fails, no rows and the recurrent
  states it was given.
\<close>

lemma tf_infer_padded:
  assumes "model_ok M" and "session_ok run M" and "n \<le> n_steps M"
    and "length mfcc = unat n * unat (mfcc_feats_per_timestep M)"
    and "length c = unat (state_size M)" and "length h = unat (state_size M)"
    and "unat (n_steps M) * (GetSize (ms_alphabet M) + 1) < 2 ^ 31"
  shows "\<exists>logits c' h'. tf_infer run M mfcc n c h = Some (logits, c', h')
    \<and> (case run [(''input_node'', FloatT (mfcc @ replicate (batch_capacity M - length mfcc) (Fin 0 0))), (''input_lengths'', IntT [sint n]),
           (''previous_state_c'', FloatT c), (''previous_state_h'', FloatT h)] [''logits'', ''new_state_c'', ''new_state_h''] of
         None \<Rightarrow> logits = [] \<and> c' = c \<and> h' = h
       | Some outs \<Rightarrow> length logits = unat n * (GetSize (ms_alphabet M) + 1) \<and> length c' = unat (state_size M) \<and> length h' = unat (state_size M)
           \<and> outs ! 1 = FloatT c' \<and> outs ! 2 = FloatT h')"
  by (rule tf_infer_total [OF assms])


definition row_session :: session where
  "row_session ins outs = Some [FloatT (replicate 6 (Fin 1 0)), FloatT [Fin 1 0], FloatT [Fin 1 0]]"

lemma tf_infer_padded_witness:
  "\<exists>logits c h. tf_infer row_session tiny_model [Fin 1 0, Fin 3 0, Fin 5 0] 1 [Fin 0 0] [Fin 0 0] = Some (logits, c, h) \<and> length logits = 3 \<and> c = [Fin 1 0]"
proof -
  have "session_ok row_session tiny_model"
    by (simp add: session_ok_def row_session_def tiny_model_def ModelState_new_def GetSize_def ab_alphabet_def)
  from tf_infer_padded [OF tiny_model_ok this, of 1 "[Fin 1 0, Fin 3 0, Fin 5 0]" "[Fin 0 0]" "[Fin 0 0]"] show ?thesis
    by (auto simp: row_session_def tiny_model_def ModelState_new_def GetSize_def ab_alphabet_def)
qed

section \<open>Loading\<close>

text \<open>The two backends agree on how the input shape becomes the geometry; here the error codes of the
  steps before it.\<close>

lemma tf_init_code:
  assumes "tf_init ndebug min_version W path M = Some (Inl code)"
  shows "code \<in> ds_code ` {DS_ERR_FAIL_INIT_MMAP, DS_ERR_FAIL_INIT_SESS, DS_ERR_FAIL_READ_PROTOBUF, DS_ERR_FAIL_CREATE_SESS,
      DS_ERR_MODEL_INCOMPATIBLE, DS_ERR_INVALID_ALPHABET, DS_ERR_INVALID_SHAPE}"
proof -
  have nodes: "init_nodes ns M = Some (Inl e) \<Longrightarrow> e = ds_code DS_ERR_INVALID_ALPHABET" for ns and M :: "'a model_state" and e
  proof (induction ns arbitrary: M)
    case Nil
    then show ?case by simp
  next
    case (Cons node ns)
    then show ?case
      by (auto simp: init_node_def Let_def split: Option.bind_splits if_splits option.splits sum.splits)
  qed
  have meta: "tf_metadata ndebug min_version (session_Run W) M = Some (Inl e) \<Longrightarrow>
      e = ds_code DS_ERR_MODEL_INCOMPATIBLE \<or> e = ds_code DS_ERR_INVALID_ALPHABET" for e
    by (auto simp: tf_metadata_def Let_def split: option.splits Option.bind_splits if_splits prod.splits)
  show ?thesis
    using assms by (auto simp: tf_init_def Let_def split: if_splits option.splits Option.bind_splits sum.splits dest!: meta nodes)
qed

end
