(* ===== verification/Backend_Interface.thy ===== *)
theory Backend_Interface
  imports Tf_Backend
begin

text \<open>
  The interface between the streaming code and a backend: \<^verbatim>\<open>infer\<close> is a virtual method of
  \<^verbatim>\<open>ModelState\<close>.  A locale states what the streaming code needs of it, and both backends are
  instances.
\<close>

section \<open>The contract\<close>

type_synonym 'b infer_method = "'b \<Rightarrow> fval list \<Rightarrow> u32 \<Rightarrow> fval list \<Rightarrow> fval list \<Rightarrow> ((fval list \<times> fval list \<times> fval list) \<times> 'b) option"

text \<open>The calls of \<^verbatim>\<open>infer\<close> for a sequence of batches, with the recurrent state kept between them.  The
  result is the logits of every batch.\<close>

fun infer_batches :: "'b infer_method \<Rightarrow> (fval list \<times> nat) list \<Rightarrow> 'b \<times> fval list \<times> fval list \<Rightarrow> (fval list list \<times> 'b \<times> fval list \<times> fval list) option" where
  "infer_batches infm [] s = Some ([], s)"
| "infer_batches infm ((buf, n) # batches) (b, c, h) = do {
     ((logits, c, h), b) \<leftarrow> infm b buf (of_nat n) c h;
     (rest, s) \<leftarrow> infer_batches infm batches (b, c, h);
     Some (logits # rest, s)
   }"

text \<open>The logits of a batch of \<open>n\<close> frames: a row for every frame, or nothing when the backend reports
  an error.\<close>

definition batch_result :: "'s model_state \<Rightarrow> nat \<Rightarrow> fval list \<Rightarrow> bool" where
  "batch_result M n logits \<longleftrightarrow> logits = [] \<or> length logits = n * (GetSize (ms_alphabet M) + 1)"

locale acoustic_backend =
  fixes geometry :: "'b \<Rightarrow> 's model_state"
    and ready :: "'b \<Rightarrow> bool"
    and infm :: "'b infer_method"
  assumes ready_geometry: "ready b \<Longrightarrow> model_ok (geometry b)"
    and infer_total: "\<lbrakk>ready b; n \<le> n_steps (geometry b); length mfcc = unat n * unat (mfcc_feats_per_timestep (geometry b));
        length c = unat (state_size (geometry b)); length h = unat (state_size (geometry b))\<rbrakk>
      \<Longrightarrow> \<exists>logits c' h' b'. infm b mfcc n c h = Some ((logits, c', h'), b') \<and> ready b' \<and> geometry b' = geometry b
        \<and> batch_result (geometry b) (unat n) logits \<and> length c' = length c \<and> length h' = length h"
begin

lemma infer_batches_total:
  assumes "ready b" "length c = unat (state_size (geometry b))" "length h = unat (state_size (geometry b))"
    and "list_all (\<lambda>(buf, n). length buf = n * unat (mfcc_feats_per_timestep (geometry b)) \<and> 0 < n \<and> n \<le> unat (n_steps (geometry b))) batches"
  shows "\<exists>outs b' c' h'. infer_batches infm batches (b, c, h) = Some (outs, b', c', h') \<and> ready b' \<and> geometry b' = geometry b
    \<and> list_all2 (\<lambda>(buf, n) logits. batch_result (geometry b) n logits) batches outs"
  using assms
proof (induction batches arbitrary: b c h)
  case Nil
  then show ?case by simp
next
  case (Cons batch batches)
  obtain buf n where batch: "batch = (buf, n)" by force
  have n: "length buf = n * unat (mfcc_feats_per_timestep (geometry b))" "n \<le> unat (n_steps (geometry b))" using Cons.prems(4) batch by simp_all
  then have small: "unat (of_nat n :: u32) = n" using u32_unat_less [of "n_steps (geometry b)"] by simp
  then have "of_nat n \<le> n_steps (geometry b)" using n(2) by (simp add: word_le_nat_alt)
  from infer_total [OF Cons.prems(1) this _ Cons.prems(2,3), of buf] obtain logits c' h' b' where one:
    "infm b buf (of_nat n) c h = Some ((logits, c', h'), b')" "ready b'" "geometry b' = geometry b" "batch_result (geometry b) n logits"
    "length c' = length c" "length h' = length h" using n(1) small by auto
  from Cons.IH [OF one(2), of c' h'] obtain outs b'' c'' h'' where
    "infer_batches infm batches (b', c', h') = Some (outs, b'', c'', h'')" "ready b''" "geometry b'' = geometry b"
    "list_all2 (\<lambda>(buf, n) logits. batch_result (geometry b) n logits) batches outs"
    using one Cons.prems by auto
  then show ?case using one batch by simp
qed

text \<open>Every batch of a recording is within the contract.\<close>

lemma recording_total:
  assumes "ready b"
  defines "M \<equiv> geometry b"
  shows "\<exists>outs b' c' h'. infer_batches infm (recording_batches M samples)
      (b, replicate (unat (state_size M)) (Fin 0 0), replicate (unat (state_size M)) (Fin 0 0)) = Some (outs, b', c', h')
    \<and> list_all2 (\<lambda>(buf, n) logits. batch_result M n logits) (recording_batches M samples) outs"
  using infer_batches_total [OF assms(1), of "replicate (unat (state_size M)) (Fin 0 0)" "replicate (unat (state_size M)) (Fin 0 0)" "recording_batches M samples"]
    recording_batches_shape(1) [OF ready_geometry [OF assms(1)], of samples]
  by (auto simp: M_def)

end

section \<open>The TensorFlow backend\<close>

definition tf_ready :: "session \<times> 's model_state \<Rightarrow> bool" where
  "tf_ready b \<longleftrightarrow> model_ok (snd b) \<and> session_ok (fst b) (snd b) \<and> unat (n_steps (snd b)) * (GetSize (ms_alphabet (snd b)) + 1) < 2 ^ 31"

definition tf_infer_method :: "(session \<times> 's model_state) infer_method" where
  "tf_infer_method b mfcc n c h = map_option (\<lambda>r. (r, b)) (tf_infer (fst b) (snd b) mfcc n c h)"

interpretation tf: acoustic_backend snd tf_ready tf_infer_method
proof
  fix b :: "session \<times> 's model_state" and n :: u32 and mfcc c h :: "fval list"
  assume a: "tf_ready b" "n \<le> n_steps (snd b)" "length mfcc = unat n * unat (mfcc_feats_per_timestep (snd b))"
    "length c = unat (state_size (snd b))" "length h = unat (state_size (snd b))"
  have "model_ok (snd b)" "session_ok (fst b) (snd b)" "unat (n_steps (snd b)) * (GetSize (ms_alphabet (snd b)) + 1) < 2 ^ 31"
    using a(1) by (simp_all add: tf_ready_def)
  from tf_infer_total [OF this(1,2) a(2-5) this(3)] a(1,4,5)
  show "\<exists>logits c' h' b'. tf_infer_method b mfcc n c h = Some ((logits, c', h'), b') \<and> tf_ready b' \<and> snd b' = snd b
      \<and> batch_result (snd b) (unat n) logits \<and> length c' = length c \<and> length h' = length h"
    by (auto simp: tf_infer_method_def batch_result_def split: option.splits)
qed (simp add: tf_ready_def)

section \<open>The TFLite backend\<close>

text \<open>The tensors are allocated once; running the graph does not change their sizes.\<close>

definition lite_ready :: "(int \<Rightarrow> nat) \<Rightarrow> 's tflite_state \<Rightarrow> bool" where
  "lite_ready sizes T \<longleftrightarrow>
     (let M = tl_base T; st = unat (state_size M); rows = unat (n_steps M) * (GetSize (ms_alphabet M) + 1) in
      model_ok M \<and> st < 2 ^ 31 \<and> rows < 2 ^ 31 \<and> (\<forall>i. length (mem T i) = sizes i)
      \<and> distinct [input_node_idx T, previous_state_c_idx T, previous_state_h_idx T]
      \<and> batch_capacity M \<le> sizes (input_node_idx T) \<and> st \<le> sizes (previous_state_c_idx T) \<and> st \<le> sizes (previous_state_h_idx T)
      \<and> rows \<le> sizes (logits_idx T) \<and> st \<le> sizes (new_state_c_idx T) \<and> st \<le> sizes (new_state_h_idx T)
      \<and> (\<forall>p m m'. (\<forall>i. length (m i) = sizes i) \<longrightarrow> Invoke (tl_interpreter T) p m = Some m' \<longrightarrow> (\<forall>i. length (m' i) = sizes i)))"

definition tl_infer_method :: "bool \<Rightarrow> 's tflite_state infer_method" where
  "tl_infer_method ndebug T mfcc n c h = tl_infer ndebug mfcc n c h T"

lemma copy_keeps_sizes: "copy_vector_to_tensor vec idx k m = Some m' \<Longrightarrow> length (m' i) = length (m i)"
  by (auto simp: copy_vector_to_tensor_def Let_def split: if_splits)

lemma tl_infer_frame:
  assumes "tl_infer ndebug mfcc n c h T = Some (r, T')" "lite_ready sizes T"
  shows "lite_ready sizes T' \<and> tl_base T' = tl_base T"
proof -
  have inv: "\<And>p m m' i. (\<forall>i. length (m i) = sizes i) \<Longrightarrow> Invoke (tl_interpreter T) p m = Some m' \<Longrightarrow> length (m' i) = sizes i"
    and mem: "\<And>i. length (mem T i) = sizes i" using assms(2) by (auto simp: lite_ready_def Let_def)
  obtain m1 m2 m3 where m: "copy_vector_to_tensor mfcc (input_node_idx T) (sint (n * mfcc_feats_per_timestep (tl_base T))) (mem T) = Some m1"
    "copy_vector_to_tensor c (previous_state_c_idx T) (sint (state_size (tl_base T))) m1 = Some m2"
    "copy_vector_to_tensor h (previous_state_h_idx T) (sint (state_size (tl_base T))) m2 = Some m3"
    "T' = T\<lparr>mem := m3\<rparr> \<or> (\<exists>m. Invoke (tl_interpreter T) (acoustic_exec_plan T) m3 = Some m \<and> T' = T\<lparr>mem := m\<rparr>)"
    using assms(1) by (auto simp: tl_infer_def Let_def split: Option.bind_splits option.splits)
  have "length (m3 i) = sizes i" for i using copy_keeps_sizes [OF m(1)] copy_keeps_sizes [OF m(2)] copy_keeps_sizes [OF m(3)] mem by simp
  then obtain m where "T' = T\<lparr>mem := m\<rparr>" "\<And>i. length (m i) = sizes i" using m(4) inv by blast
  then show ?thesis using assms(2) by (simp add: lite_ready_def Let_def batch_capacity_def)
qed

interpretation lite: acoustic_backend tl_base "lite_ready sizes" "tl_infer_method ndebug"
proof
  fix T :: "'s tflite_state" and n :: u32 and mfcc c h :: "fval list"
  assume a: "lite_ready sizes T" "n \<le> n_steps (tl_base T)" "length mfcc = unat n * unat (mfcc_feats_per_timestep (tl_base T))"
    "length c = unat (state_size (tl_base T))" "length h = unat (state_size (tl_base T))"
  have ok: "model_ok (tl_base T)" "tensors_fit T" "unat (state_size (tl_base T)) < 2 ^ 31"
    "unat (n_steps (tl_base T)) * (GetSize (ms_alphabet (tl_base T)) + 1) < 2 ^ 31"
    using a(1) by (auto simp: lite_ready_def tensors_fit_def Let_def)
  from tl_infer_total [OF ok(1,2) a(2-5) ok(3,4), of ndebug] obtain logits c' h' T' where
    r: "tl_infer ndebug mfcc n c h T = Some ((logits, c', h'), T')"
    and shape: "length logits = unat n * (GetSize (ms_alphabet (tl_base T)) + 1) \<and> length c' = unat (state_size (tl_base T)) \<and> length h' = unat (state_size (tl_base T))
      \<or> logits = [] \<and> c' = c \<and> h' = h" by blast
  have "batch_result (tl_base T) (unat n) logits \<and> length c' = length c \<and> length h' = length h"
    using shape a(4,5) unfolding batch_result_def by presburger
  then show "\<exists>logits c' h' T'. tl_infer_method ndebug T mfcc n c h = Some ((logits, c', h'), T') \<and> lite_ready sizes T' \<and> tl_base T' = tl_base T
      \<and> batch_result (tl_base T) (unat n) logits \<and> length c' = length c \<and> length h' = length h"
    using r tl_infer_frame [OF r a(1)] unfolding tl_infer_method_def by blast
qed (simp add: lite_ready_def Let_def)

end
