(* ===== verification/Cde_Log.thy ===== *)
theory Cde_Log
  imports Prelude
begin

text \<open>
  \<^verbatim>\<open>deepspeech-jni/src/cde_log.c\<close>: logging and hex dumps of the Android library.

  Character buffers are arrays of fixed length: lists with the zero bytes in place.  A write outside
  of a buffer is \<open>None\<close>.  The global variables are a record; what is printed is collected in it.  The
  message of a log call is an argument, already formatted.
\<close>

section \<open>Strings in buffers\<close>

abbreviation NUL :: char where
  "NUL \<equiv> CHR 0x00"

definition write_at :: "string \<Rightarrow> nat \<Rightarrow> string \<Rightarrow> string option" where
  "write_at buf i s = (if i + length s \<le> length buf then Some (take i buf @ s @ drop (i + length s) buf) else None)"

text \<open>The position of the terminator, found by stepping to the first zero byte.\<close>

definition end_of_string :: "string \<Rightarrow> nat option" where
  "end_of_string buf = (if NUL \<in> set buf then Some (length (takeWhile (\<lambda>c. c \<noteq> NUL) buf)) else None)"

definition cde_strcat :: "string \<Rightarrow> string \<Rightarrow> string option" where
  "cde_strcat dst src = do { i \<leftarrow> end_of_string dst; write_at dst i (src @ [NUL]) }"

definition cde_memset :: "char \<Rightarrow> nat \<Rightarrow> string \<Rightarrow> string option" where
  "cde_memset c n buf = write_at buf 0 (replicate n c)"

text \<open>The string from the last occurrence of \<open>c\<close>.\<close>

fun cde_strrchr :: "string \<Rightarrow> char \<Rightarrow> string option" where
  "cde_strrchr [] c = (if c = NUL then Some [] else None)"
| "cde_strrchr (d # s) c = (case cde_strrchr s c of Some r \<Rightarrow> Some r | None \<Rightarrow> if d = c then Some (d # s) else None)"

text \<open>One unsigned comparison for both ends of the range.\<close>

definition cde_isprint :: "int \<Rightarrow> bool" where
  "cde_isprint c \<longleftrightarrow> uint (word_of_int (c - 32) :: u32) < 127 - 32"

text \<open>\<^verbatim>\<open>snprintf\<close> into a buffer: at most \<open>n - 1\<close> characters and a terminator; and the string it leaves in a
  buffer of its own.\<close>

definition snprintf_at :: "string \<Rightarrow> nat \<Rightarrow> nat \<Rightarrow> string \<Rightarrow> string option" where
  "snprintf_at buf off n text = (if n = 0 then Some buf else write_at buf off (take (n - 1) text @ [NUL]))"

definition snprintf_str :: "nat \<Rightarrow> string \<Rightarrow> string" where
  "snprintf_str n text = take (n - 1) text"

definition c_string :: "string \<Rightarrow> string" where
  "c_string buf = takeWhile (\<lambda>c. c \<noteq> NUL) buf"

text \<open>\<^verbatim>\<open>%d\<close> and \<^verbatim>\<open>%0wx\<close>.\<close>

definition digit :: "nat \<Rightarrow> char" where
  "digit n = (if n < 10 then char_of (48 + n) else char_of (87 + n))"

fun digits :: "nat \<Rightarrow> nat \<Rightarrow> string" where
  "digits base n = (if base < 2 \<or> n < base then [digit n] else digits base (n div base) @ [digit (n mod base)])"

declare digits.simps [simp del]

definition dec :: "int \<Rightarrow> string" where
  "dec n = (if n < 0 then ''-'' @ digits 10 (nat (- n)) else digits 10 (nat n))"

definition hex :: "nat \<Rightarrow> nat \<Rightarrow> string" where
  "hex w n = replicate (w - length (digits 16 n)) (CHR ''0'') @ digits 16 n"

section \<open>Settings\<close>

record module_log_prop =
  szModuleName :: string
  bModuleEnabled :: int
  szFileName :: string
  bFileEnabled :: int

record log_state =
  gAllowedLogEnabled :: int
  gAllowedLogLevel :: int
  gMaxDumpCounts :: int
  gLogDumpCounts :: int
  gLogPropConfs :: "module_log_prop list"
  log_out :: "string list"

definition CDE_LOG_DEFAULT :: int where "CDE_LOG_DEFAULT = 1"

definition CDE_LOG_SILENT :: int where "CDE_LOG_SILENT = 8"

definition LOG_BUF_LEN :: nat where "LOG_BUF_LEN = 4096"

definition log_start :: log_state where
  "log_start = \<lparr>gAllowedLogEnabled = 1, gAllowedLogLevel = CDE_LOG_DEFAULT, gMaxDumpCounts = 0, gLogDumpCounts = 0,
     gLogPropConfs =
       [\<lparr>szModuleName = ''ijkplayer'', bModuleEnabled = 1, szFileName = ''ijkplayer.c'', bFileEnabled = 1\<rparr>,
        \<lparr>szModuleName = ''live555'', bModuleEnabled = 1, szFileName = ''DynamicRTSPServer.cpp'', bFileEnabled = 1\<rparr>],
     log_out = []\<rparr>"

definition cdelog_setGlobalLogEnabled :: "int \<Rightarrow> log_state \<Rightarrow> log_state" where
  "cdelog_setGlobalLogEnabled bEnable s = s\<lparr>gAllowedLogEnabled := (if bEnable \<noteq> 0 then 1 else 0), gMaxDumpCounts := 0\<rparr>"

text \<open>\<^verbatim>\<open>memcmp(a, b, strlen(b))\<close> on two strings: \<open>None\<close> when \<open>a\<close> with its terminator is shorter.\<close>

definition memcmp_equal :: "string \<Rightarrow> string \<Rightarrow> bool option" where
  "memcmp_equal a b = (if length b \<le> length a + 1 then Some (take (length b) (a @ [NUL]) = b) else None)"

fun set_module :: "string \<Rightarrow> int \<Rightarrow> module_log_prop list \<Rightarrow> module_log_prop list option" where
  "set_module moduleName bEnabled [] = Some []"
| "set_module moduleName bEnabled (p # ps) = do {
     eq \<leftarrow> memcmp_equal moduleName (szModuleName p);
     if eq then Some (p\<lparr>bModuleEnabled := bEnabled\<rparr> # ps) else map_option ((#) p) (set_module moduleName bEnabled ps)
   }"

definition cdelog_setGlobalLogModule :: "string option \<Rightarrow> int \<Rightarrow> log_state \<Rightarrow> log_state option" where
  "cdelog_setGlobalLogModule moduleName bEnabled s =
     (case moduleName of
        None \<Rightarrow> Some s
      | Some name \<Rightarrow> map_option (\<lambda>ps. s\<lparr>gLogPropConfs := ps\<rparr>) (set_module name bEnabled (gLogPropConfs s)))"

definition cdelog_setGlobalLogLevel :: "int \<Rightarrow> log_state \<Rightarrow> log_state" where
  "cdelog_setGlobalLogLevel level s =
     s\<lparr>gAllowedLogLevel := (if level \<ge> 0 then level else CDE_LOG_SILENT), gMaxDumpCounts := 0, gLogDumpCounts := 0\<rparr>"

definition cdelog_validateLogLevel :: "int \<Rightarrow> log_state \<Rightarrow> bool" where
  "cdelog_validateLogLevel prio s \<longleftrightarrow> prio \<ge> gAllowedLogLevel s"

definition cdelog_setGlobalDumpCounts :: "int \<Rightarrow> log_state \<Rightarrow> log_state" where
  "cdelog_setGlobalDumpCounts dumpCounts s = s\<lparr>gMaxDumpCounts := dumpCounts, gLogDumpCounts := 0\<rparr>"

section \<open>Messages\<close>

definition esc :: "string \<Rightarrow> string" where
  "esc code = CHR 0x1B # ''['' @ code @ ''m''"

definition log_color :: "int \<Rightarrow> string" where
  "log_color priority =
     (if priority = 2 then esc ''1;35'' else if priority = 3 then esc ''1;33'' else if priority = 4 then esc ''1;32''
      else if priority = 5 then esc ''0;31'' else if priority = 6 then esc ''1;31'' else esc ''1;37'')"

text \<open>The file name without its directories.\<close>

definition base_name :: "string \<Rightarrow> string" where
  "base_name path = (case cde_strrchr path (CHR ''/'') of Some r \<Rightarrow> tl r | None \<Rightarrow> path)"

definition log_prefix :: "int \<Rightarrow> string \<Rightarrow> string \<Rightarrow> u32 \<Rightarrow> string" where
  "log_prefix priority path func line = log_color priority @ ''['' @ base_name path @ '', '' @ func @ '', '' @ dec (sint line) @ '']: ''"

text \<open>A size computed as an \<^verbatim>\<open>int\<close> and passed as a \<^verbatim>\<open>size_t\<close>.\<close>

definition size_arg :: "int \<Rightarrow> nat" where
  "size_arg n = nat (n mod 2 ^ 64)"

text \<open>The buffer after the prefix, the message and the end of line were written one behind the other.\<close>

definition fill_log_buf :: "string \<Rightarrow> string \<Rightarrow> string option" where
  "fill_log_buf prefix content = do {
     buf \<leftarrow> cde_memset NUL LOG_BUF_LEN (replicate LOG_BUF_LEN NUL);
     buf \<leftarrow> snprintf_at buf 0 LOG_BUF_LEN prefix;
     let len_prefix = length prefix;
     buf \<leftarrow> snprintf_at buf len_prefix (size_arg (int LOG_BUF_LEN - int len_prefix)) content;
     let len_content = length content;
     snprintf_at buf (len_prefix + len_content) (size_arg (int LOG_BUF_LEN - int len_prefix - int len_content)) [CHR 0x0A]
   }"

definition print_message :: "string \<Rightarrow> string \<Rightarrow> u32 \<Rightarrow> int \<Rightarrow> string \<Rightarrow> log_state \<Rightarrow> log_state option" where
  "print_message path func line priority content s = do {
     buf \<leftarrow> fill_log_buf (log_prefix priority path func line) content;
     Some (s\<lparr>log_out := log_out s @ [c_string buf, esc ''0'']\<rparr>)
   }"

text \<open>The search for the module of a message; the tag was overwritten before.\<close>

fun module_allows :: "string \<Rightarrow> string \<Rightarrow> module_log_prop list \<Rightarrow> bool option" where
  "module_allows tag path [] = Some False"
| "module_allows tag path (p # ps) = do {
     green \<leftarrow> memcmp_equal ''ijkplayer'' (szModuleName p);
     if green then Some True
     else do {
       eq \<leftarrow> memcmp_equal tag (szModuleName p);
       if eq \<and> bModuleEnabled p = 0 then Some False
       else if eq \<and> contains_str (szFileName p) path then Some (bFileEnabled p \<noteq> 0)
       else module_allows tag path ps
     }
   }"

definition dump_limit_reached :: "log_state \<Rightarrow> bool" where
  "dump_limit_reached s \<longleftrightarrow> gMaxDumpCounts s \<noteq> 0 \<and> gLogDumpCounts s \<ge> gMaxDumpCounts s"

text \<open>\<open>kantv_debug\<close> is the value of the macro \<^verbatim>\<open>KANTV_DEBUG\<close>, zero when it is not defined.\<close>

definition LOG_PRI_ORIG_IMPL :: "int \<Rightarrow> string \<Rightarrow> string \<Rightarrow> u32 \<Rightarrow> int \<Rightarrow> string \<Rightarrow> log_state \<Rightarrow> log_state option" where
  "LOG_PRI_ORIG_IMPL kantv_debug path func line priority content s =
     (if kantv_debug = 0 then Some s
      else if gAllowedLogEnabled s = 0 then Some s
      else if dump_limit_reached s then Some s
      else if \<not> cdelog_validateLogLevel priority s then Some s
      else do {
        bOutput \<leftarrow> module_allows ''KANTV'' path (gLogPropConfs s);
        s \<leftarrow> (if bOutput \<and> gAllowedLogEnabled s \<noteq> 0 then print_message path func line priority content s else Some s);
        Some (s\<lparr>gLogDumpCounts := gLogDumpCounts s + 1\<rparr>)
      })"

definition LOG_PRI_ZWG_IMPL :: "string \<Rightarrow> string \<Rightarrow> u32 \<Rightarrow> int \<Rightarrow> string \<Rightarrow> log_state \<Rightarrow> log_state option" where
  "LOG_PRI_ZWG_IMPL path func line priority content s = print_message path func line priority content s"

section \<open>Hex dumps\<close>

text \<open>A line of the dump; the buffer has 128 bytes and pieces are formatted in one of 32 bytes.\<close>

definition hex_column :: "string \<Rightarrow> nat \<Rightarrow> nat \<Rightarrow> nat \<Rightarrow> string \<Rightarrow> string option" where
  "hex_column data len offset i sline = do {
     sline \<leftarrow> (if i = 8 then cde_strcat sline (snprintf_str 32 '' '') else Some sline);
     if offset + i \<ge> len then cde_strcat sline ''   ''
     else do {
       c \<leftarrow> nth_opt data (offset + i);
       cde_strcat sline (snprintf_str 32 (hex 2 (of_char c) @ '' ''))
     }
   }"

fun text_columns :: "string \<Rightarrow> nat \<Rightarrow> nat \<Rightarrow> nat list \<Rightarrow> string \<Rightarrow> string option" where
  "text_columns data len offset [] sline = Some sline"
| "text_columns data len offset (i # rest) sline =
     (if offset + i \<ge> len then Some sline
      else do {
        c \<leftarrow> nth_opt data (offset + i);
        sline \<leftarrow> cde_strcat sline (snprintf_str 32 (if cde_isprint (of_char c) then [c] else ''.''));
        text_columns data len offset rest sline
      })"

definition dump_line :: "string \<Rightarrow> nat \<Rightarrow> nat \<Rightarrow> string option" where
  "dump_line data len offset = do {
     sline \<leftarrow> cde_memset NUL 128 (replicate 128 NUL);
     sline \<leftarrow> cde_strcat sline (snprintf_str 32 (hex 8 offset @ '':  ''));
     sline \<leftarrow> mfold (hex_column data len offset) [0..<16] sline;
     sline \<leftarrow> cde_strcat sline (snprintf_str 32 '' '');
     sline \<leftarrow> text_columns data len offset [0..<16] sline;
     Some (c_string sline)
   }"

text \<open>The loop over the lines: the middle of a long dump is skipped once.  The new offset is an
  \<^verbatim>\<open>int\<close> product that must not overflow.\<close>

function dump_loop :: "string \<Rightarrow> nat \<Rightarrow> bool \<Rightarrow> nat \<Rightarrow> string list \<Rightarrow> string list option" where
  "dump_loop data len should_skip offset out =
     (if offset < len then do {
        l \<leftarrow> dump_line data len offset;
        let out = out @ [l];
        let offset = offset + 16;
        if len > 160 \<and> should_skip \<and> offset \<ge> 80 then
          let n = int (len div 16); next = (n - 2) * 16 in
          if next \<ge> 2 ^ 31 then None
          else dump_loop data len False (nat next) (out @ [''........''])
        else dump_loop data len should_skip offset out
      }
      else Some out)"
  by pat_completeness auto
termination
  by (relation "measures [\<lambda>(data, len, should_skip, offset, out). if should_skip then 1 else 0, \<lambda>(data, len, should_skip, offset, out). len - offset]") auto

declare dump_loop.simps [simp del]

definition left3 :: "string \<Rightarrow> string" where
  "left3 s = s @ replicate (3 - length s) (CHR '' '')"

definition dump_prefix :: "string \<Rightarrow> string \<Rightarrow> u32 \<Rightarrow> (string \<times> u32) option \<Rightarrow> string \<Rightarrow> nat \<Rightarrow> string" where
  "dump_prefix path func line index data_name len =
     ''['' @ base_name path @ '', '' @ func @ '', '' @ dec (sint line) @ ''] ''
     @ (case index of Some (index_name, i) \<Rightarrow> index_name @ ''-'' @ left3 (dec (sint i)) @ '', '' | None \<Rightarrow> [])
     @ ''dump '' @ data_name @ ''(len='' @ dec (sint (of_nat len :: u32)) @ ''): ''"

definition HEXDUMP_PRI_ORIG_IMPL ::
    "string \<Rightarrow> string \<Rightarrow> u32 \<Rightarrow> (string \<times> u32) option \<Rightarrow> string \<Rightarrow> string \<Rightarrow> u32 \<Rightarrow> int \<Rightarrow> int \<Rightarrow> log_state \<Rightarrow> log_state option" where
  "HEXDUMP_PRI_ORIG_IMPL path func line index data_name data len have_prefix should_skip s =
     (if dump_limit_reached s then Some s
      else do {
        let pre = (if have_prefix = 1 then [snprintf_str 512 (dump_prefix path func line index data_name (unat len)) @ [CHR 0x0A]] else []);
        lines \<leftarrow> dump_loop data (unat len) (should_skip = 1) 0 [];
        Some (s\<lparr>log_out := log_out s @ pre @ lines\<rparr>)
      })"

end
