(* ===== verification/Api_Memory.thy ===== *)
theory Api_Memory
  imports Api_Spec Cde_Log
begin

text \<open>
  The C interface of \<^verbatim>\<open>deepspeech.cc\<close> and \<^verbatim>\<open>modelstate.cc\<close> with its memory: who allocates what, and who
  frees it.

  A heap maps addresses to blocks.  \<open>new\<close> is the allocator: for a heap it names the address of the next block,
  which must not be in use (\<open>malloc_ok\<close>).  Array elements are uninitialised (\<open>None\<close>) until they are written.
  Freeing an address that holds no block, reading through such an address, and reading an uninitialised
  element are \<open>None\<close>.  The counts in the structures are natural numbers: a count beyond 32 bits
  would take more than a year of sound.
\<close>

section \<open>Blocks\<close>

record c_token =
  ctk_text :: addr
  ctk_timestep :: u32
  ctk_start_time :: fval

record c_transcript =
  ctr_tokens :: addr
  ctr_num_tokens :: nat
  ctr_confidence :: fval

record c_metadata =
  cmd_transcripts :: addr
  cmd_num_transcripts :: nat

datatype 's block =
    Text string
  | Tokens "c_token option list"
  | Transcripts "c_transcript option list"
  | Result c_metadata
  | Stream "'s streaming_state"
  | Model "'s model_state"

type_synonym 's c_heap = "addr \<rightharpoonup> 's block"

definition malloc_ok :: "('s c_heap \<Rightarrow> addr) \<Rightarrow> bool" where
  "malloc_ok new \<longleftrightarrow> (\<forall>h. finite (dom h) \<longrightarrow> new h \<notin> dom h)"

definition c_malloc :: "('s c_heap \<Rightarrow> addr) \<Rightarrow> 's block \<Rightarrow> 's c_heap \<Rightarrow> addr \<times> 's c_heap" where
  "c_malloc new b h = (new h, h(new h \<mapsto> b))"

definition c_free :: "addr \<Rightarrow> 's c_heap \<Rightarrow> 's c_heap option" where
  "c_free a h = (if h a = None then None else Some (h(a := None)))"

fun read_text :: "'s c_heap \<Rightarrow> addr \<Rightarrow> string option" where
  "read_text h a = (case h a of Some (Text s) \<Rightarrow> Some s | _ \<Rightarrow> None)"

fun read_token :: "'s c_heap \<Rightarrow> addr \<Rightarrow> nat \<Rightarrow> c_token option" where
  "read_token h a j = (case h a of Some (Tokens ts) \<Rightarrow> Option.bind (nth_opt ts j) id | _ \<Rightarrow> None)"

fun read_transcript :: "'s c_heap \<Rightarrow> addr \<Rightarrow> nat \<Rightarrow> c_transcript option" where
  "read_transcript h a i = (case h a of Some (Transcripts ts) \<Rightarrow> Option.bind (nth_opt ts i) id | _ \<Rightarrow> None)"

fun read_result :: "'s c_heap \<Rightarrow> addr \<Rightarrow> c_metadata option" where
  "read_result h a = (case h a of Some (Result m) \<Rightarrow> Some m | _ \<Rightarrow> None)"

fun read_stream :: "'s c_heap \<Rightarrow> addr \<Rightarrow> 's streaming_state option" where
  "read_stream h a = (case h a of Some (Stream st) \<Rightarrow> Some st | _ \<Rightarrow> None)"

fun write_token :: "addr \<Rightarrow> nat \<Rightarrow> c_token \<Rightarrow> 's c_heap \<Rightarrow> 's c_heap option" where
  "write_token a j t h = (case h a of Some (Tokens ts) \<Rightarrow> if j < length ts then Some (h(a \<mapsto> Tokens (ts[j := Some t]))) else None | _ \<Rightarrow> None)"

fun write_transcript :: "addr \<Rightarrow> nat \<Rightarrow> c_transcript \<Rightarrow> 's c_heap \<Rightarrow> 's c_heap option" where
  "write_transcript a i t h = (case h a of Some (Transcripts ts) \<Rightarrow> if i < length ts then Some (h(a \<mapsto> Transcripts (ts[i := Some t]))) else None | _ \<Rightarrow> None)"

section \<open>Making metadata\<close>

definition fill_token :: "('s c_heap \<Rightarrow> addr) \<Rightarrow> 's model_state \<Rightarrow> Output \<Rightarrow> addr \<Rightarrow> nat \<Rightarrow> 's c_heap \<Rightarrow> 's c_heap option" where
  "fill_token new M out toks j h = do {
     ts \<leftarrow> nth_opt (out_timesteps out) j;
     token \<leftarrow> token_of M (tokens out ! j) ts;
     let (text, h) = c_malloc new (Text (tm_text token)) h;
     write_token toks j \<lparr>ctk_text = text, ctk_timestep = tm_timestep token, ctk_start_time = tm_start_time token\<rparr> h
   }"

definition fill_transcript :: "('s c_heap \<Rightarrow> addr) \<Rightarrow> 's model_state \<Rightarrow> Output list \<Rightarrow> addr \<Rightarrow> nat \<Rightarrow> 's c_heap \<Rightarrow> 's c_heap option" where
  "fill_transcript new M outs transcripts i h = do {
     let out = outs ! i;
     let n = length (tokens out);
     let (toks, h) = c_malloc new (Tokens (replicate n None)) h;
     h \<leftarrow> mfold (fill_token new M out toks) [0..<n] h;
     write_transcript transcripts i \<lparr>ctr_tokens = toks, ctr_num_tokens = n, ctr_confidence = confidence out\<rparr> h
   }"

definition decode_metadata_mem ::
    "cxx \<Rightarrow> ('s c_heap \<Rightarrow> addr) \<Rightarrow> 's model_state \<Rightarrow> 's decoder_state \<Rightarrow> nat \<Rightarrow> 's c_heap \<Rightarrow> (addr \<times> 's c_heap) option" where
  "decode_metadata_mem env new M state num_results h = do {
     outs \<leftarrow> DecoderState_decode env state num_results;
     let num_returned = length outs;
     let (transcripts, h) = c_malloc new (Transcripts (replicate num_returned None)) h;
     h \<leftarrow> mfold (fill_transcript new M outs transcripts) [0..<num_returned] h;
     Some (c_malloc new (Result \<lparr>cmd_transcripts = transcripts, cmd_num_transcripts = num_returned\<rparr>) h)
   }"

definition decode_mem ::
    "cxx \<Rightarrow> ('s c_heap \<Rightarrow> addr) \<Rightarrow> 's model_state \<Rightarrow> 's decoder_state \<Rightarrow> 's c_heap \<Rightarrow> (addr \<times> 's c_heap) option" where
  "decode_mem env new M state h = do { s \<leftarrow> ModelState_decode env M state; Some (c_malloc new (Text s) h) }"

section \<open>Releasing\<close>

text \<open>A null pointer is \<open>None\<close>.\<close>

definition DS_FreeString :: "addr option \<Rightarrow> 's c_heap \<Rightarrow> 's c_heap option" where
  "DS_FreeString str h = (case str of None \<Rightarrow> Some h | Some a \<Rightarrow> c_free a h)"

definition DS_FreeStream :: "addr option \<Rightarrow> 's c_heap \<Rightarrow> 's c_heap option" where
  "DS_FreeStream ctx h = (case ctx of None \<Rightarrow> Some h | Some a \<Rightarrow> do { read_stream h a; c_free a h })"

definition DS_FreeModel :: "addr option \<Rightarrow> 's c_heap \<Rightarrow> 's c_heap option" where
  "DS_FreeModel ctx h = (case ctx of None \<Rightarrow> Some h | Some a \<Rightarrow> (case h a of Some (Model M) \<Rightarrow> c_free a h | _ \<Rightarrow> None))"

definition free_transcript :: "addr \<Rightarrow> nat \<Rightarrow> 's c_heap \<Rightarrow> 's c_heap option" where
  "free_transcript transcripts i h = do {
     tr \<leftarrow> read_transcript h transcripts i;
     h \<leftarrow> mfold (\<lambda>j h. do { t \<leftarrow> read_token h (ctr_tokens tr) j; c_free (ctk_text t) h }) [0..<ctr_num_tokens tr] h;
     c_free (ctr_tokens tr) h
   }"

definition DS_FreeMetadata :: "addr option \<Rightarrow> 's c_heap \<Rightarrow> 's c_heap option" where
  "DS_FreeMetadata m h =
     (case m of
        None \<Rightarrow> Some h
      | Some a \<Rightarrow> do {
          md \<leftarrow> read_result h a;
          h \<leftarrow> mfold (free_transcript (cmd_transcripts md)) [0..<cmd_num_transcripts md] h;
          h \<leftarrow> c_free (cmd_transcripts md) h;
          c_free a h
        })"

text \<open>The version is printed into a static buffer of 128 bytes.\<close>

definition DS_Version :: "string \<Rightarrow> string \<Rightarrow> string \<Rightarrow> string \<Rightarrow> string" where
  "DS_Version tflite_version version build_date build_time =
     snprintf_str 128 (''Google TensorFlow '' @ tflite_version @ '', DeepSpeech '' @ version @ '', build time:'' @ build_date @ '','' @ build_time)"

section \<open>Streams\<close>

definition CreateStream_mem :: "('s c_heap \<Rightarrow> addr) \<Rightarrow> 's model_state \<Rightarrow> 's c_heap \<Rightarrow> int \<times> addr option \<times> 's c_heap" where
  "CreateStream_mem new M h =
     (case DS_CreateStream M of
        (status, None) \<Rightarrow> (status, None, h)
      | (status, Some st) \<Rightarrow> let (a, h) = c_malloc new (Stream st) h in (status, Some a, h))"

definition FeedAudioContent_mem :: "cxx \<Rightarrow> 's model_state \<Rightarrow> 16 word list \<Rightarrow> addr \<Rightarrow> 's c_heap \<Rightarrow> 's c_heap option" where
  "FeedAudioContent_mem env M samples ctx h = do {
     st \<leftarrow> read_stream h ctx;
     st \<leftarrow> DS_FeedAudioContent env M samples st;
     Some (h(ctx \<mapsto> Stream st))
   }"

definition IntermediateDecode_mem :: "cxx \<Rightarrow> ('s c_heap \<Rightarrow> addr) \<Rightarrow> 's model_state \<Rightarrow> addr \<Rightarrow> 's c_heap \<Rightarrow> (addr \<times> 's c_heap) option" where
  "IntermediateDecode_mem env new M ctx h = do { st \<leftarrow> read_stream h ctx; decode_mem env new M (stream_decoder st) h }"

definition IntermediateDecodeWithMetadata_mem ::
    "cxx \<Rightarrow> ('s c_heap \<Rightarrow> addr) \<Rightarrow> 's model_state \<Rightarrow> u32 \<Rightarrow> addr \<Rightarrow> 's c_heap \<Rightarrow> (addr \<times> 's c_heap) option" where
  "IntermediateDecodeWithMetadata_mem env new M aNumResults ctx h = do {
     st \<leftarrow> read_stream h ctx;
     decode_metadata_mem env new M (stream_decoder st) (unat aNumResults) h
   }"

definition finalizeStream_mem :: "cxx \<Rightarrow> 's model_state \<Rightarrow> addr \<Rightarrow> 's c_heap \<Rightarrow> ('s decoder_state \<times> 's c_heap) option" where
  "finalizeStream_mem env M ctx h = do {
     st \<leftarrow> read_stream h ctx;
     st \<leftarrow> finalizeStream env M st;
     Some (stream_decoder st, h(ctx \<mapsto> Stream st))
   }"

definition FinishStream_mem :: "cxx \<Rightarrow> ('s c_heap \<Rightarrow> addr) \<Rightarrow> 's model_state \<Rightarrow> addr \<Rightarrow> 's c_heap \<Rightarrow> (addr \<times> 's c_heap) option" where
  "FinishStream_mem env new M ctx h = do {
     (state, h) \<leftarrow> finalizeStream_mem env M ctx h;
     (str, h) \<leftarrow> decode_mem env new M state h;
     h \<leftarrow> DS_FreeStream (Some ctx) h;
     Some (str, h)
   }"

definition FinishStreamWithMetadata_mem ::
    "cxx \<Rightarrow> ('s c_heap \<Rightarrow> addr) \<Rightarrow> 's model_state \<Rightarrow> u32 \<Rightarrow> addr \<Rightarrow> 's c_heap \<Rightarrow> (addr \<times> 's c_heap) option" where
  "FinishStreamWithMetadata_mem env new M aNumResults ctx h = do {
     (state, h) \<leftarrow> finalizeStream_mem env M ctx h;
     (result, h) \<leftarrow> decode_metadata_mem env new M state (unat aNumResults) h;
     h \<leftarrow> DS_FreeStream (Some ctx) h;
     Some (result, h)
   }"

text \<open>The null pointer that \<^verbatim>\<open>CreateStreamAndFeedAudioContent\<close> can return is dereferenced by its callers.\<close>

definition CreateStreamAndFeed_mem ::
    "cxx \<Rightarrow> ('s c_heap \<Rightarrow> addr) \<Rightarrow> 's model_state \<Rightarrow> 16 word list \<Rightarrow> 's c_heap \<Rightarrow> (addr \<times> 's c_heap) option" where
  "CreateStreamAndFeed_mem env new M samples h =
     (case CreateStream_mem new M h of (status, ctx, h) \<Rightarrow>
        if status \<noteq> ds_code DS_ERR_OK then None
        else do {
          ctx \<leftarrow> ctx;
          h \<leftarrow> FeedAudioContent_mem env M samples ctx h;
          Some (ctx, h)
        })"

definition SpeechToText_mem ::
    "cxx \<Rightarrow> ('s c_heap \<Rightarrow> addr) \<Rightarrow> 's model_state \<Rightarrow> 16 word list \<Rightarrow> 's c_heap \<Rightarrow> (addr \<times> 's c_heap) option" where
  "SpeechToText_mem env new M samples h = do {
     (ctx, h) \<leftarrow> CreateStreamAndFeed_mem env new M samples h;
     FinishStream_mem env new M ctx h
   }"

definition SpeechToTextWithMetadata_mem ::
    "cxx \<Rightarrow> ('s c_heap \<Rightarrow> addr) \<Rightarrow> 's model_state \<Rightarrow> 16 word list \<Rightarrow> u32 \<Rightarrow> 's c_heap \<Rightarrow> (addr \<times> 's c_heap) option" where
  "SpeechToTextWithMetadata_mem env new M samples aNumResults h = do {
     (ctx, h) \<leftarrow> CreateStreamAndFeed_mem env new M samples h;
     FinishStreamWithMetadata_mem env new M aNumResults ctx h
   }"

end
