(* ===== verification/Memory_Spec.thy ===== *)
theory Memory_Spec
  imports Api_Memory
begin

text \<open>
  What the C interface does with memory: metadata in the heap are the metadata of the decoder, and releasing
  them gives back exactly the blocks that were allocated for them.
\<close>

section \<open>Metadata in the heap\<close>

text \<open>What a caller reads through the pointers.\<close>

definition token_at :: "'s c_heap \<Rightarrow> addr \<Rightarrow> nat \<Rightarrow> token_metadata option" where
  "token_at h toks j = do {
     t \<leftarrow> read_token h toks j;
     s \<leftarrow> read_text h (ctk_text t);
     Some \<lparr>tm_text = s, tm_timestep = ctk_timestep t, tm_start_time = ctk_start_time t\<rparr>
   }"

definition transcript_at :: "'s c_heap \<Rightarrow> addr \<Rightarrow> nat \<Rightarrow> candidate_transcript option" where
  "transcript_at h transcripts i = do {
     tr \<leftarrow> read_transcript h transcripts i;
     toks \<leftarrow> map_option_list (token_at h (ctr_tokens tr)) [0..<ctr_num_tokens tr];
     Some \<lparr>ct_tokens = toks, ct_confidence = ctr_confidence tr\<rparr>
   }"

definition metadata_at :: "'s c_heap \<Rightarrow> addr \<Rightarrow> metadata option" where
  "metadata_at h a = do {
     md \<leftarrow> read_result h a;
     map_option_list (transcript_at h (cmd_transcripts md)) [0..<cmd_num_transcripts md]
   }"

text \<open>The blocks that hold a token, a transcript, and metadata; \<open>A\<close> is the set of all their addresses.\<close>

definition token_rep :: "'s c_heap \<Rightarrow> c_token \<Rightarrow> token_metadata \<Rightarrow> bool" where
  "token_rep h t m \<longleftrightarrow> h (ctk_text t) = Some (Text (tm_text m)) \<and> ctk_timestep t = tm_timestep m \<and> ctk_start_time t = tm_start_time m"

definition tokens_rep :: "'s c_heap \<Rightarrow> c_token list \<Rightarrow> token_metadata list \<Rightarrow> bool" where
  "tokens_rep h ts ms \<longleftrightarrow> length ts = length ms \<and> (\<forall>i<length ms. token_rep h (ts ! i) (ms ! i)) \<and> distinct (map ctk_text ts)"

definition transcript_rep :: "'s c_heap \<Rightarrow> c_transcript \<Rightarrow> candidate_transcript \<Rightarrow> addr set \<Rightarrow> bool" where
  "transcript_rep h c tr A \<longleftrightarrow> (\<exists>ts. h (ctr_tokens c) = Some (Tokens (map Some ts)) \<and> ctr_num_tokens c = length ts
     \<and> ctr_confidence c = ct_confidence tr \<and> tokens_rep h ts (ct_tokens tr) \<and> ctr_tokens c \<notin> ctk_text ` set ts
     \<and> A = insert (ctr_tokens c) (ctk_text ` set ts))"

definition transcripts_rep :: "'s c_heap \<Rightarrow> c_transcript list \<Rightarrow> metadata \<Rightarrow> addr set list \<Rightarrow> bool" where
  "transcripts_rep h cs md As \<longleftrightarrow> length cs = length md \<and> length As = length md
     \<and> (\<forall>i<length md. transcript_rep h (cs ! i) (md ! i) (As ! i)) \<and> (\<forall>i<length md. \<forall>j<i. As ! j \<inter> As ! i = {})"

definition metadata_rep :: "'s c_heap \<Rightarrow> addr \<Rightarrow> metadata \<Rightarrow> addr set \<Rightarrow> bool" where
  "metadata_rep h a md A \<longleftrightarrow> (\<exists>base cs As. h a = Some (Result \<lparr>cmd_transcripts = base, cmd_num_transcripts = length md\<rparr>)
     \<and> h base = Some (Transcripts (map Some cs)) \<and> transcripts_rep h cs md As \<and> base \<notin> \<Union> (set As) \<and> a \<notin> insert base (\<Union> (set As))
     \<and> A = insert a (insert base (\<Union> (set As))))"

lemma tokens_rep_frame:
  assumes "tokens_rep h ts ms" "\<And>x. x \<in> ctk_text ` set ts \<Longrightarrow> h' x = h x"
  shows "tokens_rep h' ts ms"
  using assms by (auto simp: tokens_rep_def token_rep_def)

lemma transcript_rep_frame:
  assumes "transcript_rep h c tr A" "\<And>x. x \<in> A \<Longrightarrow> h' x = h x"
  shows "transcript_rep h' c tr A"
proof -
  from assms(1) obtain ts where ts: "h (ctr_tokens c) = Some (Tokens (map Some ts))" "ctr_num_tokens c = length ts"
    "ctr_confidence c = ct_confidence tr" "tokens_rep h ts (ct_tokens tr)" "ctr_tokens c \<notin> ctk_text ` set ts"
    "A = insert (ctr_tokens c) (ctk_text ` set ts)" unfolding transcript_rep_def by blast
  have "tokens_rep h' ts (ct_tokens tr)" using tokens_rep_frame [OF ts(4)] assms(2) ts(6) by blast
  then show ?thesis using ts assms(2) by (auto simp: transcript_rep_def)
qed

lemma map_option_list_uptI:
  assumes "length ys = n" "\<And>i. i < n \<Longrightarrow> f i = Some (ys ! i)"
  shows "map_option_list f [0..<n] = Some ys"
  unfolding map_option_list_eq by (rule nth_equalityI) (use assms in auto)

lemma transcript_rep_at:
  assumes "transcript_rep h c tr A" "read_transcript h base i = Some c"
  shows "transcript_at h base i = Some tr"
proof -
  from assms(1) obtain ts where ts: "h (ctr_tokens c) = Some (Tokens (map Some ts))" "ctr_num_tokens c = length ts"
    "ctr_confidence c = ct_confidence tr" "tokens_rep h ts (ct_tokens tr)" unfolding transcript_rep_def by blast
  have "map_option_list (token_at h (ctr_tokens c)) [0..<length ts] = Some (ct_tokens tr)"
    by (rule map_option_list_uptI) (use ts in \<open>auto simp: token_at_def tokens_rep_def token_rep_def\<close>)
  then show ?thesis using assms(2) ts(2,3) by (simp add: transcript_at_def del: read_transcript.simps)
qed

lemma metadata_rep_at:
  assumes "metadata_rep h a md A"
  shows "metadata_at h a = Some md"
proof -
  from assms obtain base cs As where r: "h a = Some (Result \<lparr>cmd_transcripts = base, cmd_num_transcripts = length md\<rparr>)"
    "h base = Some (Transcripts (map Some cs))" "transcripts_rep h cs md As" unfolding metadata_rep_def by blast
  have "transcript_at h base i = Some (md ! i)" if "i < length md" for i
    using transcript_rep_at [of h "cs ! i" "md ! i" "As ! i" base i] r(2,3) that by (simp add: transcripts_rep_def)
  then show ?thesis using r(1) map_option_list_uptI [of md "length md" "transcript_at h base"] by (simp add: metadata_at_def)
qed

section \<open>Releasing metadata\<close>

lemma free_texts:
  assumes "h base = Some (Tokens (map Some ts))" "tokens_rep h ts ms" "base \<notin> ctk_text ` set ts"
  shows "mfold (\<lambda>j h. do { t \<leftarrow> read_token h base j; c_free (ctk_text t) h }) [0..<length ts] h = Some (h |` (- (ctk_text ` set ts)))"
proof -
  have "\<exists>h'. mfold (\<lambda>j h. do { t \<leftarrow> read_token h base j; c_free (ctk_text t) h }) [0..<length ts] h = Some h'
      \<and> h' = h |` (- (ctk_text ` set (take (length ts) ts)))"
  proof (rule mfold_upt)
    fix i h' assume i: "i < length ts" and h': "h' = h |` (- (ctk_text ` set (take i ts)))"
    have "ctk_text (ts ! i) \<notin> ctk_text ` set (take i ts)"
    proof
      assume "ctk_text (ts ! i) \<in> ctk_text ` set (take i ts)"
      then obtain j where "j < i" "ctk_text (ts ! j) = ctk_text (ts ! i)" using i by (auto simp: in_set_conv_nth)
      then show False using assms(2) i nth_eq_iff_index_eq [of "map ctk_text ts" j i] by (simp add: tokens_rep_def)
    qed
    moreover have "base \<notin> ctk_text ` set (take i ts)" using assms(3) by (auto dest: in_set_takeD)
    moreover have "h (ctk_text (ts ! i)) \<noteq> None" using assms(2) i by (auto simp: tokens_rep_def token_rep_def)
    moreover have "ctk_text ` set (take (Suc i) ts) = insert (ctk_text (ts ! i)) (ctk_text ` set (take i ts))"
      using i by (simp add: take_Suc_conv_app_nth)
    moreover from this have "h'(ctk_text (ts ! i) := None) = h |` (- (ctk_text ` set (take (Suc i) ts)))"
      by (auto simp: h' restrict_map_def fun_eq_iff)
    ultimately show "\<exists>s'. do { t \<leftarrow> read_token h' base i; c_free (ctk_text t) h' } = Some s' \<and> s' = h |` (- (ctk_text ` set (take (Suc i) ts)))"
      using assms(1) i by (simp add: c_free_def) (simp add: h')
  qed (simp add: restrict_map_def)
  then show ?thesis by simp
qed

lemma free_transcript_rep:
  assumes "transcript_rep h c tr A" "read_transcript h base i = Some c"
  shows "free_transcript base i h = Some (h |` (- A))"
proof -
  from assms(1) obtain ts where ts: "h (ctr_tokens c) = Some (Tokens (map Some ts))" "ctr_num_tokens c = length ts"
    "tokens_rep h ts (ct_tokens tr)" "ctr_tokens c \<notin> ctk_text ` set ts"
    "A = insert (ctr_tokens c) (ctk_text ` set ts)" unfolding transcript_rep_def by blast
  have "(h |` (- (ctk_text ` set ts)))(ctr_tokens c := None) = h |` (- A)" using ts(5) by (auto simp: restrict_map_def fun_eq_iff)
  then show ?thesis using free_texts [OF ts(1,3,4)] assms(2) ts(1,2,4)
    by (simp add: free_transcript_def c_free_def del: read_transcript.simps read_token.simps)
qed

lemma free_transcripts:
  assumes "h base = Some (Transcripts (map Some cs))" "transcripts_rep h cs md As" "base \<notin> \<Union> (set As)"
  shows "mfold (free_transcript base) [0..<length md] h = Some (h |` (- \<Union> (set As)))"
proof -
  have len: "length As = length md" "length cs = length md" using assms(2) by (simp_all add: transcripts_rep_def)
  have "\<exists>h'. mfold (free_transcript base) [0..<length md] h = Some h' \<and> h' = h |` (- \<Union> (set (take (length md) As)))"
  proof (rule mfold_upt)
    fix i h' assume i: "i < length md" and h': "h' = h |` (- \<Union> (set (take i As)))"
    have rep: "transcript_rep h (cs ! i) (md ! i) (As ! i)" using assms(2) i by (simp add: transcripts_rep_def)
    have disj: "As ! i \<inter> \<Union> (set (take i As)) = {}"
      using assms(2) i len by (fastforce simp: transcripts_rep_def in_set_conv_nth)
    have "transcript_rep h' (cs ! i) (md ! i) (As ! i)" by (intro transcript_rep_frame [OF rep]) (use disj in \<open>auto simp: h' restrict_map_def\<close>)
    moreover have "base \<notin> \<Union> (set (take i As))" using assms(3) by (auto dest: in_set_takeD)
    then have "read_transcript h' base i = Some (cs ! i)" using assms(1) i len by (simp add: h')
    moreover have "h' |` (- (As ! i)) = h |` (- \<Union> (set (take (Suc i) As)))"
      using i len by (auto simp: h' take_Suc_conv_app_nth restrict_map_def fun_eq_iff)
    ultimately show "\<exists>s'. free_transcript base i h' = Some s' \<and> s' = h |` (- \<Union> (set (take (Suc i) As)))"
      using free_transcript_rep by metis
  qed (simp add: restrict_map_def)
  then show ?thesis using len by simp
qed

lemma free_metadata_rep:
  assumes "metadata_rep h a md A"
  shows "DS_FreeMetadata (Some a) h = Some (h |` (- A))"
proof -
  from assms obtain base cs As where r: "h a = Some (Result \<lparr>cmd_transcripts = base, cmd_num_transcripts = length md\<rparr>)"
    "h base = Some (Transcripts (map Some cs))" "transcripts_rep h cs md As" "base \<notin> \<Union> (set As)" "a \<notin> insert base (\<Union> (set As))"
    "A = insert a (insert base (\<Union> (set As)))" unfolding metadata_rep_def by blast
  have "(h |` (- \<Union> (set As)))(base := None, a := None) = h |` (- A)" using r(6) by (auto simp: restrict_map_def fun_eq_iff)
  then show ?thesis using r(1,2,4,5) free_transcripts [OF r(2-4)] by (simp add: DS_FreeMetadata_def c_free_def)
qed

section \<open>Making metadata\<close>

lemma map_option_list_uptD:
  assumes "map_option_list f [0..<n] = Some ys"
  shows "length ys = n" "\<And>i. i < n \<Longrightarrow> f i = Some (ys ! i)"
proof -
  have m: "map f [0..<n] = map Some ys" using assms by (simp only: map_option_list_eq)
  show len: "length ys = n" using arg_cong [OF m, of length] by simp
  show "f i = Some (ys ! i)" if "i < n" for i using arg_cong [OF m, of "\<lambda>xs. xs ! i"] that len by simp
qed

lemma fill_tokens:
  assumes "malloc_ok new" "finite (dom h)" "h base = Some (Tokens (replicate n None))" "n = length (tokens out)"
    and "map_option_list (\<lambda>j. do { ts \<leftarrow> nth_opt (out_timesteps out) j; token_of M (tokens out ! j) ts }) [0..<n] = Some ms"
  shows "\<exists>h' ts. mfold (fill_token new M out base) [0..<n] h = Some h' \<and> finite (dom h')
    \<and> h' base = Some (Tokens (map Some ts)) \<and> tokens_rep h' ts ms \<and> ctk_text ` set ts \<inter> dom h = {}
    \<and> (\<forall>x. x \<noteq> base \<and> x \<notin> ctk_text ` set ts \<longrightarrow> h' x = h x)"
proof -
  note ms = map_option_list_uptD [OF assms(5)]
  define P where "P j h' \<longleftrightarrow> finite (dom h') \<and> (\<exists>ts. length ts = j \<and> h' base = Some (Tokens (map Some ts @ replicate (n - j) None))
    \<and> tokens_rep h' ts (take j ms) \<and> ctk_text ` set ts \<inter> dom h = {} \<and> (\<forall>x. x \<noteq> base \<and> x \<notin> ctk_text ` set ts \<longrightarrow> h' x = h x))" for j h'
  have "\<exists>h'. mfold (fill_token new M out base) [0..<n] h = Some h' \<and> P n h'"
  proof (rule mfold_upt)
    show "P 0 h" using assms(2,3) by (simp add: P_def tokens_rep_def)
    fix j h' assume j: "j < n" and P: "P j h'"
    obtain ts where ts: "length ts = j" "h' base = Some (Tokens (map Some ts @ replicate (n - j) None))" "tokens_rep h' ts (take j ms)"
      "ctk_text ` set ts \<inter> dom h = {}" "\<And>x. x \<noteq> base \<Longrightarrow> x \<notin> ctk_text ` set ts \<Longrightarrow> h' x = h x" 
      using P unfolding P_def by blast
    have fin: "finite (dom h')" using P by (simp add: P_def)
    have new: "h' (new h') = None" using assms(1) fin by (auto simp: malloc_ok_def)
    have old: "ctk_text t \<in> dom h'" if "t \<in> set ts" for t
      using ts(1,3) that ms(1) j by (fastforce simp: tokens_rep_def token_rep_def in_set_conv_nth)
    have fresh: "new h' \<notin> ctk_text ` set ts" "new h' \<noteq> base" using new ts(2) by (auto dest!: old)
    then have "new h' \<notin> dom h" using ts(5) [of "new h'"] new by auto
    note fresh = fresh this
    obtain t s where t: "nth_opt (out_timesteps out) j = Some s" "token_of M (tokens out ! j) s = Some t" "t = ms ! j"
      using ms(2) [OF j] by (auto simp: Option.bind_eq_Some_conv)
    let ?c = "\<lparr>ctk_text = new h', ctk_timestep = tm_timestep t, ctk_start_time = tm_start_time t\<rparr>"
    let ?h = "h'(new h' \<mapsto> Text (tm_text t), base \<mapsto> Tokens (map Some (ts @ [?c]) @ replicate (n - Suc j) None))"
    have "(map Some ts @ replicate (n - j) None)[j := Some ?c] = map Some (ts @ [?c]) @ replicate (n - Suc j) None"
      using ts(1) j by (cases "n - j") (simp_all add: list_update_append Suc_diff_Suc [symmetric])
    then have step: "fill_token new M out base j h' = Some ?h"
      using t ts(1,2) fresh(2) j by (simp add: fill_token_def c_malloc_def)
    have base: "base \<notin> ctk_text ` set ts" using ts(4) assms(3) by auto
    have "tokens_rep ?h ts (take j ms)" by (rule tokens_rep_frame [OF ts(3)]) (metis fresh(1) base fun_upd_other)
    then have "tokens_rep ?h (ts @ [?c]) (take (Suc j) ms)"
      using fresh(1,2) ts(1) ms(1) j t(3) by (auto simp: tokens_rep_def token_rep_def nth_append take_Suc_conv_app_nth less_Suc_eq)
    then have "P (Suc j) ?h" unfolding P_def using ts fresh fin
      by (intro conjI exI [of _ "ts @ [?c]"]) auto
    then show "\<exists>s'. fill_token new M out base j h' = Some s' \<and> P (Suc j) s'" using step by blast
  qed
  then show ?thesis using ms(1) unfolding P_def by fastforce
qed

text \<open>One transcript takes new blocks only, and one element of the array.\<close>

lemma fill_transcript_adds:
  assumes "malloc_ok new" "finite (dom h)" "h base = Some (Transcripts (map Some cs @ replicate (n - i) None))"
    and "transcript_of M (outs ! i) = Some tr" "length cs = i" "i < n"
  shows "\<exists>h' c A. fill_transcript new M outs base i h = Some h' \<and> finite (dom h')
    \<and> h' base = Some (Transcripts (map Some (cs @ [c]) @ replicate (n - Suc i) None))
    \<and> transcript_rep h' c tr A \<and> A \<inter> dom h = {} \<and> (\<forall>x. x \<noteq> base \<and> x \<notin> A \<longrightarrow> h' x = h x)"
proof -
  let ?out = "outs ! i" and ?a = "new h"
  let ?n = "length (tokens ?out)"
  let ?h1 = "h(?a \<mapsto> Tokens (replicate ?n None))"
  obtain ms where ms: "map_option_list (\<lambda>j. do { ts \<leftarrow> nth_opt (out_timesteps ?out) j; token_of M (tokens ?out ! j) ts }) [0..<?n] = Some ms"
    "tr = \<lparr>ct_tokens = ms, ct_confidence = confidence ?out\<rparr>"
    using assms(4) by (auto simp: transcript_of_def split: Option.bind_splits)
  have new: "h ?a = None" using assms(1,2) by (auto simp: malloc_ok_def)
  then have nb: "?a \<noteq> base" using assms(3) by auto
  have fin1: "finite (dom ?h1)" using assms(2) by simp
  have b1: "?h1 ?a = Some (Tokens (replicate ?n None))" by simp
  obtain h2 ts where h2: "mfold (fill_token new M ?out ?a) [0..<?n] ?h1 = Some h2" "finite (dom h2)"
    "h2 ?a = Some (Tokens (map Some ts))" "tokens_rep h2 ts ms" "ctk_text ` set ts \<inter> dom ?h1 = {}"
    "\<forall>x. x \<noteq> ?a \<and> x \<notin> ctk_text ` set ts \<longrightarrow> h2 x = ?h1 x"
    using fill_tokens [OF assms(1) fin1 b1 refl ms(1)] by blast
  let ?c = "\<lparr>ctr_tokens = ?a, ctr_num_tokens = ?n, ctr_confidence = confidence ?out\<rparr>"
  let ?h' = "h2(base \<mapsto> Transcripts (map Some (cs @ [?c]) @ replicate (n - Suc i) None))"
  have nbt: "base \<notin> ctk_text ` set ts" "?a \<notin> ctk_text ` set ts" using h2(5) assms(3) by auto
  have b2: "h2 base = h base" using h2(6) nbt(1) nb by auto
  have "(map Some cs @ replicate (n - i) None)[i := Some ?c] = map Some (cs @ [?c]) @ replicate (n - Suc i) None"
    using assms(5,6) by (cases "n - i") (simp_all add: list_update_append Suc_diff_Suc [symmetric])
  then have step: "fill_transcript new M outs base i h = Some ?h'"
    using h2(1) b2 assms(3,5,6) by (simp add: fill_transcript_def c_malloc_def Let_def)
  have "length ts = ?n" using h2(4) map_option_list_uptD(1) [OF ms(1)] by (simp add: tokens_rep_def)
  moreover have "tokens_rep ?h' ts ms" by (rule tokens_rep_frame [OF h2(4)]) (use nbt(1) in auto)
  ultimately have "transcript_rep ?h' ?c tr (insert ?a (ctk_text ` set ts))"
    unfolding transcript_rep_def using h2(3) nb nbt(2) ms(2) by (intro exI [of _ ts]) simp
  moreover have "insert ?a (ctk_text ` set ts) \<inter> dom h = {}" using h2(5) new by auto
  moreover have "\<forall>x. x \<noteq> base \<and> x \<notin> insert ?a (ctk_text ` set ts) \<longrightarrow> ?h' x = h x" using h2(6) by simp
  moreover have "finite (dom ?h')" using h2(2) by simp
  moreover have "?h' base = Some (Transcripts (map Some (cs @ [?c]) @ replicate (n - Suc i) None))" by simp
  ultimately show ?thesis using step by blast
qed

lemma transcript_rep_dom: "transcript_rep h c tr A \<Longrightarrow> A \<subseteq> dom h"
  by (force simp: transcript_rep_def tokens_rep_def token_rep_def in_set_conv_nth)

lemma transcripts_rep_snoc:
  assumes "transcripts_rep h cs md As" "h base = Some (Transcripts xs)" "A \<inter> dom h = {}" "\<And>x. x \<noteq> base \<Longrightarrow> x \<notin> A \<Longrightarrow> h' x = h x"
    and "transcript_rep h' c tr A" "md' = md @ [tr]"
  shows "transcripts_rep h' (cs @ [c]) md' (As @ [A])"
proof -
  have len: "length cs = length md" "length As = length md" using assms(1) by (simp_all add: transcripts_rep_def)
  have sub: "As ! i \<subseteq> dom h" "base \<notin> As ! i" "transcript_rep h (cs ! i) (md ! i) (As ! i)" if "i < length md" for i
  proof -
    show rep: "transcript_rep h (cs ! i) (md ! i) (As ! i)" using assms(1) that by (simp add: transcripts_rep_def)
    show "As ! i \<subseteq> dom h" by (rule transcript_rep_dom [OF rep])
    show "base \<notin> As ! i" using rep assms(2)
      by (force simp: transcript_rep_def tokens_rep_def token_rep_def in_set_conv_nth)
  qed
  have "transcript_rep h' (cs ! i) (md ! i) (As ! i)" if "i < length md" for i
  proof (rule transcript_rep_frame [OF sub(3) [OF that]])
    fix x assume x: "x \<in> As ! i"
    then have "x \<noteq> base" "x \<notin> A" using sub(1,2) [OF that] assms(3) by auto
    then show "h' x = h x" by (rule assms(4))
  qed
  moreover have "As ! i \<inter> A = {}" if "i < length md" for i using sub(1) [OF that] assms(3) by blast
  ultimately show ?thesis using assms(1,5) len
    by (auto simp: transcripts_rep_def nth_append less_Suc_eq assms(6))
qed

lemma fill_transcripts:
  assumes "malloc_ok new" "finite (dom h)" "h base = Some (Transcripts (replicate (length outs) None))"
    and "map_option_list (transcript_of M) outs = Some md"
  shows "\<exists>h' cs As. mfold (fill_transcript new M outs base) [0..<length outs] h = Some h' \<and> finite (dom h')
    \<and> h' base = Some (Transcripts (map Some cs)) \<and> transcripts_rep h' cs md As \<and> \<Union> (set As) \<inter> dom h = {}
    \<and> (\<forall>x. x \<noteq> base \<and> x \<notin> \<Union> (set As) \<longrightarrow> h' x = h x)"
proof -
  let ?n = "length outs"
  have mo: "map (transcript_of M) outs = map Some md" using assms(4) by (simp only: map_option_list_eq)
  have len: "length md = ?n" using arg_cong [OF mo, of length] by simp
  have tr: "transcript_of M (outs ! i) = Some (md ! i)" if "i < ?n" for i using arg_cong [OF mo, of "\<lambda>xs. xs ! i"] that len by simp
  define P where "P i h' \<longleftrightarrow> finite (dom h') \<and> (\<exists>cs As. length cs = i \<and> h' base = Some (Transcripts (map Some cs @ replicate (?n - i) None))
    \<and> transcripts_rep h' cs (take i md) As \<and> \<Union> (set As) \<inter> dom h = {} \<and> (\<forall>x. x \<noteq> base \<and> x \<notin> \<Union> (set As) \<longrightarrow> h' x = h x))" for i h'
  have "\<exists>h'. mfold (fill_transcript new M outs base) [0..<?n] h = Some h' \<and> P ?n h'"
  proof (rule mfold_upt)
    show "P 0 h" using assms(2,3) by (auto simp: P_def transcripts_rep_def intro!: exI [of _ "[]"])
    fix i h' assume i: "i < ?n" and P: "P i h'"
    obtain cs As where cs: "length cs = i" "h' base = Some (Transcripts (map Some cs @ replicate (?n - i) None))"
      "transcripts_rep h' cs (take i md) As" "\<Union> (set As) \<inter> dom h = {}" "\<And>x. x \<noteq> base \<Longrightarrow> x \<notin> \<Union> (set As) \<Longrightarrow> h' x = h x"
      using P unfolding P_def by blast
    have fin: "finite (dom h')" using P by (simp add: P_def)
    have "\<exists>h'' c A. fill_transcript new M outs base i h' = Some h'' \<and> finite (dom h'')
      \<and> h'' base = Some (Transcripts (map Some (cs @ [c]) @ replicate (?n - Suc i) None))
      \<and> transcript_rep h'' c (md ! i) A \<and> A \<inter> dom h' = {} \<and> (\<forall>x. x \<noteq> base \<and> x \<notin> A \<longrightarrow> h'' x = h' x)"
      by (rule fill_transcript_adds [OF assms(1) fin cs(2) tr [OF i] cs(1) i])
    then obtain h'' c A where step: "fill_transcript new M outs base i h' = Some h''" and fin': "finite (dom h'')"
      and b: "h'' base = Some (Transcripts (map Some (cs @ [c]) @ replicate (?n - Suc i) None))"
      and rep: "transcript_rep h'' c (md ! i) A" and A: "A \<inter> dom h' = {}" "\<And>x. x \<noteq> base \<Longrightarrow> x \<notin> A \<Longrightarrow> h'' x = h' x" by blast
    have "transcripts_rep h'' (cs @ [c]) (take (Suc i) md) (As @ [A])"
      by (rule transcripts_rep_snoc [OF cs(3,2) A rep]) (use i len in \<open>simp_all add: take_Suc_conv_app_nth\<close>)
    moreover have "dom h \<subseteq> dom h'"
    proof
      fix x assume x: "x \<in> dom h"
      then have "x \<notin> \<Union> (set As)" using cs(4) by blast
      then show "x \<in> dom h'" using x cs(2) cs(5) [of x] by (cases "x = base") auto
    qed
    then have "\<Union> (set (As @ [A])) \<inter> dom h = {}" using A(1) cs(4) by auto
    moreover have "\<forall>x. x \<noteq> base \<and> x \<notin> \<Union> (set (As @ [A])) \<longrightarrow> h'' x = h x" using A(2) cs(5) by simp
    ultimately have "P (Suc i) h''" unfolding P_def using b fin' cs(1)
      by (intro conjI exI [of _ "cs @ [c]"] exI [of _ "As @ [A]"]) simp_all
    then show "\<exists>s'. fill_transcript new M outs base i h' = Some s' \<and> P (Suc i) s'" using step by blast
  qed
  then obtain h' where h': "mfold (fill_transcript new M outs base) [0..<?n] h = Some h'" "P ?n h'" by blast
  then show ?thesis using len by (simp add: P_def) blast
qed

lemma decode_metadata_rep:
  assumes "malloc_ok new" "finite (dom h)" "decode_metadata env M state k = Some md"
  shows "\<exists>a h' A. decode_metadata_mem env new M state k h = Some (a, h') \<and> metadata_rep h' a md A
    \<and> A \<inter> dom h = {} \<and> (\<forall>x. x \<notin> A \<longrightarrow> h' x = h x) \<and> finite (dom h')"
proof -
  obtain outs where outs: "DecoderState_decode env state k = Some outs" "map_option_list (transcript_of M) outs = Some md"
    using assms(3) by (auto simp: decode_metadata_def split: Option.bind_splits)
  have len: "length outs = length md" using arg_cong [OF iffD1 [OF map_option_list_eq outs(2)], of length] by simp
  let ?base = "new h"
  let ?h1 = "h(?base \<mapsto> Transcripts (replicate (length outs) None))"
  have new1: "h ?base = None" using assms(1,2) by (auto simp: malloc_ok_def)
  have fin1: "finite (dom ?h1)" and b1: "?h1 ?base = Some (Transcripts (replicate (length outs) None))" using assms(2) by simp_all
  obtain h2 cs As where h2: "mfold (fill_transcript new M outs ?base) [0..<length outs] ?h1 = Some h2" "finite (dom h2)"
    "h2 ?base = Some (Transcripts (map Some cs))" "transcripts_rep h2 cs md As" "\<Union> (set As) \<inter> dom ?h1 = {}"
    "\<forall>x. x \<noteq> ?base \<and> x \<notin> \<Union> (set As) \<longrightarrow> h2 x = ?h1 x"
    using fill_transcripts [OF assms(1) fin1 b1 outs(2)] by blast
  let ?a = "new h2"
  let ?h' = "h2(?a \<mapsto> Result \<lparr>cmd_transcripts = ?base, cmd_num_transcripts = length md\<rparr>)"
  let ?A = "insert ?a (insert ?base (\<Union> (set As)))"
  have new2: "h2 ?a = None" using assms(1) h2(2) by (auto simp: malloc_ok_def)
  have sub: "\<Union> (set As) \<subseteq> dom h2"
    using h2(4) transcript_rep_dom by (fastforce simp: transcripts_rep_def in_set_conv_nth)
  have a: "?a \<noteq> ?base" "?a \<notin> \<Union> (set As)" using new2 h2(3) sub by auto
  have base: "?base \<notin> \<Union> (set As)" using h2(5) by auto
  have "transcripts_rep ?h' cs md As" using h2(4) transcript_rep_frame [of h2 _ _ _ ?h'] a(2)
    by (fastforce simp: transcripts_rep_def)
  then have "metadata_rep ?h' ?a md ?A" unfolding metadata_rep_def using a base h2(3) by fastforce
  moreover have "?A \<inter> dom h = {}" using a h2(5,6) new1 new2 by auto
  moreover have "\<forall>x. x \<notin> ?A \<longrightarrow> ?h' x = h x" using h2(6) by simp
  moreover have "decode_metadata_mem env new M state k h = Some (?a, ?h')"
    using outs(1) h2(1) len by (simp add: decode_metadata_mem_def c_malloc_def Let_def)
  moreover have "finite (dom ?h')" using h2(2) by simp
  ultimately show ?thesis by blast
qed

text \<open>The blocks of a result can be taken away from any heap that holds them.\<close>

lemma metadata_released:
  assumes "metadata_rep h' a md A" "\<And>x. x \<notin> A \<Longrightarrow> h' x = h x" "A \<inter> dom h = {}"
  shows "DS_FreeMetadata (Some a) h' = Some h"
proof -
  have "h' |` (- A) = h"
  proof
    fix x show "(h' |` (- A)) x = h x" using assms(2) [of x] assms(3) by (cases "x \<in> A") (auto simp: domIff disjoint_iff)
  qed
  then show ?thesis using free_metadata_rep [OF assms(1)] by simp
qed

lemma metadata_rep_frame:
  assumes "metadata_rep h a md A" "\<And>x. x \<in> A \<Longrightarrow> h' x = h x"
  shows "metadata_rep h' a md A"
proof -
  from assms(1) obtain base cs As where r: "h a = Some (Result \<lparr>cmd_transcripts = base, cmd_num_transcripts = length md\<rparr>)"
    "h base = Some (Transcripts (map Some cs))" "transcripts_rep h cs md As" "base \<notin> \<Union> (set As)" "a \<notin> insert base (\<Union> (set As))"
    "A = insert a (insert base (\<Union> (set As)))" unfolding metadata_rep_def by blast
  have "transcript_rep h' (cs ! i) (md ! i) (As ! i)" if i: "i < length md" for i
  proof (rule transcript_rep_frame)
    show "transcript_rep h (cs ! i) (md ! i) (As ! i)" using r(3) i by (simp add: transcripts_rep_def)
    have "As ! i \<in> set As" using r(3) i by (simp add: transcripts_rep_def)
    then show "h' x = h x" if "x \<in> As ! i" for x using assms(2) r(6) that by blast
  qed
  then have "transcripts_rep h' cs md As" using r(3) by (simp add: transcripts_rep_def)
  moreover have "h' a = h a" "h' base = h base" using assms(2) r(6) by simp_all
  ultimately show ?thesis unfolding metadata_rep_def using r by metis
qed

text \<open>
  C13: metadata live in memory as promised.  Whenever the decoder has results, \<^verbatim>\<open>decode_metadata\<close> allocates
  and fills its blocks without touching any other; what a caller reads through the returned pointer are the
  transcripts of the decoder; and \<^verbatim>\<open>DS_FreeMetadata\<close> gives back exactly these blocks: nothing leaks, nothing
  is freed twice.
\<close>

theorem metadata_memory:
  assumes "malloc_ok new" and "finite (dom h)" and "decode_metadata env M state k = Some md"
  shows "\<exists>a h'. decode_metadata_mem env new M state k h = Some (a, h') \<and> h \<subseteq>\<^sub>m h'
    \<and> metadata_at h' a = Some md \<and> DS_FreeMetadata (Some a) h' = Some h"
proof -
  obtain a h' A where r: "decode_metadata_mem env new M state k h = Some (a, h')" "metadata_rep h' a md A"
    "A \<inter> dom h = {}" "\<forall>x. x \<notin> A \<longrightarrow> h' x = h x" using decode_metadata_rep [OF assms] by blast
  have "h \<subseteq>\<^sub>m h'" unfolding map_le_def using r(3,4) by (metis IntI empty_iff)
  moreover have "DS_FreeMetadata (Some a) h' = Some h" by (rule metadata_released [OF r(2)]) (use r(3,4) in simp_all)
  ultimately show ?thesis using r(1) metadata_rep_at [OF r(2)] by blast
qed

definition first_free :: "'s c_heap \<Rightarrow> addr" where
  "first_free h = (if dom h = {} then 0 else Suc (Max (dom h)))"

lemma first_free_ok: "malloc_ok (first_free :: 's c_heap \<Rightarrow> addr)"
proof -
  have "first_free h \<notin> dom h" if "finite (dom h)" for h :: "'s c_heap"
    using Max_ge [OF that, of "Suc (Max (dom h))"] unfolding first_free_def by (metis Suc_n_not_le_n empty_iff)
  then show ?thesis by (simp add: malloc_ok_def)
qed

theorem metadata_memory_witness:
  "\<exists>a h'. decode_metadata_mem ref_cxx first_free silent_model (stream_decoder (new_stream silent_model)) 1 Map.empty = Some (a, h')
    \<and> metadata_at h' a = Some [\<lparr>ct_tokens = [], ct_confidence = Fin 0 0\<rparr>] \<and> DS_FreeMetadata (Some a) h' = Some Map.empty"
proof -
  have "decode_metadata ref_cxx silent_model (stream_decoder (new_stream silent_model)) 1 = Some [\<lparr>ct_tokens = [], ct_confidence = Fin 0 0\<rparr>]"
    using silent_decode by (simp add: decode_metadata_def transcript_of_def)
  from metadata_memory [OF first_free_ok _ this, of Map.empty] show ?thesis by auto
qed

text \<open>The buffer of the version is not on the heap: passing it to \<^verbatim>\<open>DS_FreeString\<close> frees what was never allocated.\<close>

lemma free_version_undefined: "h version_buffer = None \<Longrightarrow> DS_FreeString (Some version_buffer) h = None"
  by (simp add: DS_FreeString_def c_free_def)

end
