(* ===== verification/Getopt_Win.thy ===== *)
theory Getopt_Win
  imports Prelude "HOL-Library.Signed_Division"
begin

text \<open>
  \<^verbatim>\<open>native_client/getopt_win.h\<close>: the option parser that the client is built with on Windows.

  The global variables are a record, with the argument vector that the parser permutes.  A string
  of the vector is a list of characters without the terminator, and a pointer into a string is the
  rest of it from there.  \<open>place\<close> points into the argument \<open>nargv[optind]\<close> or to an empty string;
  \<open>place_off\<close> is its distance from the start of the argument, so that the test
  \<^verbatim>\<open>place != nargv[optind]\<close> reads the distance.  \<open>None\<close> is an access outside of the vector or a
  division by zero.
\<close>

unbundle bit_operations_syntax

section \<open>The state\<close>

record long_option =
  opt_name :: string
  has_arg :: int
  opt_flag :: "nat option"
  opt_val :: int

definition no_argument :: int where "no_argument = 0"

definition required_argument :: int where "required_argument = 1"

definition optional_argument :: int where "optional_argument = 2"

definition FLAG_PERMUTE :: int where "FLAG_PERMUTE = 1"

definition FLAG_ALLARGS :: int where "FLAG_ALLARGS = 2"

definition FLAG_LONGONLY :: int where "FLAG_LONGONLY = 4"

record getopt_state =
  opterr :: int
  optind :: int
  optopt :: int
  optreset :: int
  optarg :: "string option"
  place :: string
  place_off :: nat
  nonopt_start :: int
  nonopt_end :: int
  posixly_correct :: int
  nargv :: "string list"
  flag_vars :: "nat \<Rightarrow> int"
  longindex :: int
  warnings :: "string list"

definition getopt_start :: "string list \<Rightarrow> getopt_state" where
  "getopt_start argv = \<lparr>opterr = 1, optind = 1, optopt = 63, optreset = 0, optarg = None, place = [], place_off = 0,
     nonopt_start = -1, nonopt_end = -1, posixly_correct = -1, nargv = argv, flag_vars = (\<lambda>_. 0), longindex = 0, warnings = []\<rparr>"

text \<open>\<^verbatim>\<open>nargv[i]\<close>: the vector ends with a null pointer.\<close>

definition argv_at :: "string list \<Rightarrow> int \<Rightarrow> string option option" where
  "argv_at v i = (if 0 \<le> i \<and> i < int (length v) then Some (Some (v ! nat i)) else if i = int (length v) then Some None else None)"

text \<open>\<^verbatim>\<open>strchr\<close>: the string from the first occurrence; the terminator is found at the end.\<close>

definition strchr :: "string \<Rightarrow> char \<Rightarrow> string option" where
  "strchr s c = (case dropWhile (\<lambda>d. d \<noteq> c) s of [] \<Rightarrow> if c = CHR 0x00 then Some [] else None | r \<Rightarrow> Some r)"

text \<open>The value of a signed \<^verbatim>\<open>char\<close>.\<close>

definition char_int :: "char \<Rightarrow> int" where
  "char_int c = (let n = of_char c in if n < 128 then n else n - 256)"

definition first_is :: "string \<Rightarrow> char \<Rightarrow> bool" where
  "first_is s c = (case s of [] \<Rightarrow> False | d # _ \<Rightarrow> d = c)"

definition BADCH :: int where "BADCH = 63"

definition BADARG :: "string \<Rightarrow> int" where
  "BADARG options = (if first_is options (CHR '':'') then 58 else 63)"

definition warnx :: "string \<Rightarrow> string \<Rightarrow> getopt_state \<Rightarrow> getopt_state" where
  "warnx options msg s =
     (if opterr s \<noteq> 0 \<and> \<not> first_is options (CHR '':'')
      then s\<lparr>warnings := warnings s @ [(case nargv s of [] \<Rightarrow> [] | prog # _ \<Rightarrow> prog) @ '': '' @ msg]\<rparr> else s)"

section \<open>Exchanging two blocks of the vector\<close>

text \<open>\<^verbatim>\<open>%\<close> truncates towards zero.  The loop of \<^verbatim>\<open>gcd\<close> has the invariant \<open>c = a % b\<close>.\<close>

function gcd_loop :: "int \<Rightarrow> int \<Rightarrow> int" where
  "gcd_loop b c = (if c \<noteq> 0 then gcd_loop c (b smod c) else b)"
  by pat_completeness auto
termination
  by (relation "measure (\<lambda>(b, c). nat \<bar>c\<bar>)") (auto simp: signed_modulo_int_def signed_divide_int_def abs_mult sgn_mult_abs minus_mult_div_eq_mod)

declare gcd_loop.simps [simp del]

definition gcd_c :: "int \<Rightarrow> int \<Rightarrow> int option" where
  "gcd_c a b = (if b = 0 then None else Some (gcd_loop b (a smod b)))"

definition read_arg :: "string list \<Rightarrow> int \<Rightarrow> string option" where
  "read_arg v i = (if 0 \<le> i then nth_opt v (nat i) else None)"

text \<open>One iteration of the inner loop; its state is \<open>(pos, nargv)\<close>.\<close>

fun swap_step :: "int \<Rightarrow> int \<Rightarrow> int \<Rightarrow> int \<Rightarrow> int \<times> string list \<Rightarrow> (int \<times> string list) option" where
  "swap_step panonopt_end nnonopts nopts cstart (pos, v) =
     (let pos = (if pos \<ge> panonopt_end then pos - nnonopts else pos + nopts) in do {
        swap \<leftarrow> read_arg v pos;
        other \<leftarrow> read_arg v cstart;
        Some (pos, (v[nat pos := other])[nat cstart := swap])
      })"

definition permute_cycle :: "int \<Rightarrow> int \<Rightarrow> int \<Rightarrow> int \<Rightarrow> nat \<Rightarrow> string list \<Rightarrow> string list option" where
  "permute_cycle panonopt_end nnonopts nopts cyclelen i v =
     (let cstart = panonopt_end + int i in
      map_option snd (mfold (\<lambda>j. swap_step panonopt_end nnonopts nopts cstart) [0..<nat cyclelen] (cstart, v)))"

definition permute_args :: "int \<Rightarrow> int \<Rightarrow> int \<Rightarrow> string list \<Rightarrow> string list option" where
  "permute_args panonopt_start panonopt_end opt_end v = do {
     let nnonopts = panonopt_end - panonopt_start;
     let nopts = opt_end - panonopt_end;
     ncycle \<leftarrow> gcd_c nnonopts nopts;
     let cyclelen = (opt_end - panonopt_start) sdiv ncycle;
     mfold (permute_cycle panonopt_end nnonopts nopts cyclelen) [0..<nat ncycle] v
   }"

section \<open>Long options\<close>

definition IDENTICAL_INTERPRETATION :: "long_option \<Rightarrow> long_option \<Rightarrow> bool" where
  "IDENTICAL_INTERPRETATION x y \<longleftrightarrow> has_arg x = has_arg y \<and> opt_flag x = opt_flag y \<and> opt_val x = opt_val y"

text \<open>The search among the options that are left; \<open>i\<close> is the position and \<open>(found, ambiguous)\<close> the
  result so far.\<close>

fun match_loop :: "long_option list \<Rightarrow> string \<Rightarrow> nat \<Rightarrow> bool \<Rightarrow> nat \<Rightarrow> long_option list \<Rightarrow> nat option \<times> bool \<Rightarrow> nat option \<times> bool" where
  "match_loop long_options current_argv len short_too i [] r = r"
| "match_loop long_options current_argv len short_too i (o1 # os) (found, ambiguous) =
     (if take len current_argv \<noteq> take len (opt_name o1) then match_loop long_options current_argv len short_too (i + 1) os (found, ambiguous)
      else if length (opt_name o1) = len then (Some i, False)
      else if short_too \<and> len = 1 then match_loop long_options current_argv len short_too (i + 1) os (found, ambiguous)
      else (case found of
          None \<Rightarrow> match_loop long_options current_argv len short_too (i + 1) os (Some i, ambiguous)
        | Some m \<Rightarrow> match_loop long_options current_argv len short_too (i + 1) os
            (found, ambiguous \<or> \<not> IDENTICAL_INTERPRETATION o1 (long_options ! m))))"

definition bad_optopt :: "long_option \<Rightarrow> int" where
  "bad_optopt opt = (if opt_flag opt = None then opt_val opt else 0)"

text \<open>The option was found at position \<open>m\<close>.\<close>

definition use_long_option :: "long_option list \<Rightarrow> string \<Rightarrow> bool \<Rightarrow> string \<Rightarrow> nat \<Rightarrow> string option \<Rightarrow> nat \<Rightarrow> getopt_state \<Rightarrow> (int \<times> getopt_state) option" where
  "use_long_option long_options options idx current_argv len has_equal m s =
     (let opt = long_options ! m in
      if has_arg opt = no_argument \<and> has_equal \<noteq> None then
        Some (BADARG options, (warnx options (''option doesn't take an argument -- '' @ take len current_argv) s)\<lparr>optopt := bad_optopt opt\<rparr>)
      else do {
        s \<leftarrow> (if has_arg opt = required_argument \<or> has_arg opt = optional_argument then
               (case has_equal of
                  Some a \<Rightarrow> Some (s\<lparr>optarg := Some a\<rparr>)
                | None \<Rightarrow>
                    if has_arg opt = required_argument then do {
                      a \<leftarrow> argv_at (nargv s) (optind s);
                      Some (s\<lparr>optarg := a, optind := optind s + 1\<rparr>)
                    }
                    else Some s)
             else Some s);
        if has_arg opt = required_argument \<and> optarg s = None then
          Some (BADARG options, (warnx options (''option requires an argument -- '' @ current_argv) s)\<lparr>optopt := bad_optopt opt, optind := optind s - 1\<rparr>)
        else
          let s = (if idx then s\<lparr>longindex := int m\<rparr> else s) in
          (case opt_flag opt of
             Some p \<Rightarrow> Some (0, s\<lparr>flag_vars := (flag_vars s)(p := opt_val opt)\<rparr>)
           | None \<Rightarrow> Some (opt_val opt, s))
      })"

definition parse_long_options :: "string \<Rightarrow> long_option list \<Rightarrow> bool \<Rightarrow> bool \<Rightarrow> getopt_state \<Rightarrow> (int \<times> getopt_state) option" where
  "parse_long_options options long_options idx short_too s =
     (let current_argv = place s;
          s = s\<lparr>optind := optind s + 1\<rparr>;
          eq = strchr current_argv (CHR ''='');
          len = (case eq of Some r \<Rightarrow> length current_argv - length r | None \<Rightarrow> length current_argv);
          has_equal = map_option tl eq
      in case match_loop long_options current_argv len short_too 0 long_options (None, False) of
        (found, ambiguous) \<Rightarrow>
          if ambiguous then Some (BADCH, (warnx options (''ambiguous option -- '' @ take len current_argv) s)\<lparr>optopt := 0\<rparr>)
          else (case found of
              Some m \<Rightarrow> use_long_option long_options options idx current_argv len has_equal m s
            | None \<Rightarrow>
                if short_too then Some (-1, s\<lparr>optind := optind s - 1\<rparr>)
                else Some (BADCH, (warnx options (''unknown option -- '' @ current_argv) s)\<lparr>optopt := 0\<rparr>)))"

section \<open>The next option\<close>

text \<open>The block from the label \<open>start\<close>: find the next argument that is an option.  The result is the
  value returned, if the call returns here.\<close>

definition finish_permutation :: "getopt_state \<Rightarrow> getopt_state option" where
  "finish_permutation s = do {
     v \<leftarrow> permute_args (nonopt_start s) (nonopt_end s) (optind s) (nargv s);
     Some (s\<lparr>nargv := v, optind := optind s - (nonopt_end s - nonopt_start s)\<rparr>)
   }"

definition end_of_vector :: "getopt_state \<Rightarrow> (int option \<times> getopt_state) option" where
  "end_of_vector s = do {
     let s = s\<lparr>place := [], place_off := 0\<rparr>;
     s \<leftarrow> (if nonopt_end s \<noteq> -1 then finish_permutation s
          else if nonopt_start s \<noteq> -1 then Some (s\<lparr>optind := nonopt_start s\<rparr>) else Some s);
     Some (Some (-1), s\<lparr>nonopt_start := -1, nonopt_end := -1\<rparr>)
   }"

definition skip_nonoption :: "getopt_state \<Rightarrow> getopt_state option" where
  "skip_nonoption s = do {
     s \<leftarrow> (if nonopt_start s = -1 then Some (s\<lparr>nonopt_start := optind s\<rparr>)
          else if nonopt_end s \<noteq> -1 then do {
            v \<leftarrow> permute_args (nonopt_start s) (nonopt_end s) (optind s) (nargv s);
            Some (s\<lparr>nargv := v, nonopt_start := optind s - (nonopt_end s - nonopt_start s), nonopt_end := -1\<rparr>)
          }
          else Some s);
     Some (s\<lparr>optind := optind s + 1\<rparr>)
   }"

text \<open>The argument \<open>arg\<close> is an option.\<close>

definition enter_option :: "string \<Rightarrow> getopt_state \<Rightarrow> (int option \<times> getopt_state) option" where
  "enter_option arg s =
     (let s = (if nonopt_start s \<noteq> -1 \<and> nonopt_end s = -1 then s\<lparr>nonopt_end := optind s\<rparr> else s) in
      if length arg = 1 then Some (None, s)
      else let s = s\<lparr>place := tl arg, place_off := 1\<rparr> in
        if tl arg = ''-'' then do {
          let s = s\<lparr>optind := optind s + 1, place := [], place_off := 0\<rparr>;
          s \<leftarrow> (if nonopt_end s \<noteq> -1 then finish_permutation s else Some s);
          Some (Some (-1), s\<lparr>nonopt_start := -1, nonopt_end := -1\<rparr>)
        }
        else Some (None, s))"

lemma skip_nonoption_optind: "skip_nonoption s = Some s' \<Longrightarrow> optind s' = optind s + 1"
  by (auto simp: skip_nonoption_def split: if_splits Option.bind_splits)

function next_argument :: "int \<Rightarrow> string \<Rightarrow> int \<Rightarrow> getopt_state \<Rightarrow> (int option \<times> getopt_state) option" where
  "next_argument nargc options flags s =
     (if optreset s \<noteq> 0 \<or> place s = [] then
        let s = s\<lparr>optreset := 0\<rparr> in
        if optind s \<ge> nargc then end_of_vector s
        else do {
          arg \<leftarrow> read_arg (nargv s) (optind s);
          let s = s\<lparr>place := arg, place_off := 0\<rparr>;
          if \<not> first_is arg (CHR ''-'') \<or> (length arg = 1 \<and> strchr options (CHR ''-'') = None) then
            let s = s\<lparr>place := [], place_off := 0\<rparr> in
            if flags AND FLAG_ALLARGS \<noteq> 0 then Some (Some 1, s\<lparr>optarg := Some arg, optind := optind s + 1\<rparr>)
            else if flags AND FLAG_PERMUTE = 0 then Some (Some (-1), s)
            else do {
              s \<leftarrow> skip_nonoption s;
              next_argument nargc options flags s
            }
          else enter_option arg s
        }
      else Some (None, s))"
  by pat_completeness auto
termination
  by (relation "measure (\<lambda>(nargc, options, flags, s). nat (nargc - optind s))") (auto dest!: skip_nonoption_optind)

declare next_argument.simps [simp del]

text \<open>The argument is in \<open>place\<close>: a long option.  \<open>None\<close> as a value means that the call goes on.\<close>

definition long_part :: "string \<Rightarrow> long_option list \<Rightarrow> bool \<Rightarrow> int \<Rightarrow> getopt_state \<Rightarrow> (int option \<times> getopt_state) option" where
  "long_part options long_options idx flags s =
     (if place_off s \<noteq> 0 \<and> (first_is (place s) (CHR ''-'') \<or> flags AND FLAG_LONGONLY \<noteq> 0) then do {
        let dash = first_is (place s) (CHR ''-'');
        let short_too = (\<not> dash \<and> \<not> first_is (place s) (CHR '':'') \<and>
          strchr options (case place s of [] \<Rightarrow> CHR 0x00 | c # _ \<Rightarrow> c) \<noteq> None);
        let s = (if dash then s\<lparr>place := tl (place s), place_off := place_off s + 1\<rparr> else s);
        (optchar, s) \<leftarrow> parse_long_options options long_options idx short_too s;
        if optchar \<noteq> -1 then Some (Some optchar, s\<lparr>place := [], place_off := 0\<rparr>) else Some (None, s)
      }
      else Some (None, s))"

text \<open>The letter list from the option's own letter on: \<^verbatim>\<open>oli\<close>.\<close>

definition missing_argument :: "string \<Rightarrow> char \<Rightarrow> getopt_state \<Rightarrow> (int \<times> getopt_state) option" where
  "missing_argument options c s =
     Some (BADARG options, (warnx options (''option requires an argument -- '' @ [c]) (s\<lparr>place := [], place_off := 0\<rparr>))\<lparr>optopt := char_int c\<rparr>)"

definition short_part :: "int \<Rightarrow> string \<Rightarrow> long_option list option \<Rightarrow> bool \<Rightarrow> getopt_state \<Rightarrow> (int \<times> getopt_state) option" where
  "short_part nargc options long_options idx s =
     (case place s of
        [] \<Rightarrow> None
      | c # r \<Rightarrow>
          let s = s\<lparr>place := r, place_off := place_off s + 1\<rparr>; oli = strchr options c in
          if c = CHR '':'' \<or> (c = CHR ''-'' \<and> r \<noteq> []) \<or> oli = None then
            if c = CHR ''-'' \<and> r = [] then Some (-1, s)
            else
              let s = (if r = [] then s\<lparr>optind := optind s + 1\<rparr> else s) in
              Some (BADCH, (warnx options (''unknown option -- '' @ [c]) s)\<lparr>optopt := char_int c\<rparr>)
          else
            let after = drop 1 (the oli) in
            if long_options \<noteq> None \<and> c = CHR ''W'' \<and> first_is after (CHR '';'') then
              if r = [] \<and> optind s + 1 \<ge> nargc then missing_argument options c (s\<lparr>optind := optind s + 1\<rparr>)
              else do {
                s \<leftarrow> (if r \<noteq> [] then Some s
                     else do {
                       arg \<leftarrow> read_arg (nargv s) (optind s + 1);
                       Some (s\<lparr>optind := optind s + 1, place := arg, place_off := 0\<rparr>)
                     });
                (optchar, s) \<leftarrow> parse_long_options options (the long_options) idx False s;
                Some (optchar, s\<lparr>place := [], place_off := 0\<rparr>)
              }
            else if \<not> first_is after (CHR '':'') then
              Some (char_int c, if r = [] then s\<lparr>optind := optind s + 1\<rparr> else s)
            else
              let s = s\<lparr>optarg := None\<rparr> in
              if r \<noteq> [] then Some (char_int c, s\<lparr>optarg := Some r, place := [], place_off := 0, optind := optind s + 1\<rparr>)
              else if \<not> first_is (tl after) (CHR '':'') then
                let s = s\<lparr>optind := optind s + 1\<rparr> in
                if optind s \<ge> nargc then missing_argument options c s
                else do {
                  arg \<leftarrow> read_arg (nargv s) (optind s);
                  Some (char_int c, s\<lparr>optarg := Some arg, place := [], place_off := 0, optind := optind s + 1\<rparr>)
                }
              else Some (char_int c, s\<lparr>place := [], place_off := 0, optind := optind s + 1\<rparr>))"

text \<open>\<open>posix\<close> says whether the variable \<^verbatim>\<open>POSIXLY_CORRECT\<close> is in the environment.\<close>

definition getopt_internal :: "bool \<Rightarrow> int \<Rightarrow> string option \<Rightarrow> long_option list option \<Rightarrow> bool \<Rightarrow> int \<Rightarrow> getopt_state \<Rightarrow> (int \<times> getopt_state) option" where
  "getopt_internal posix nargc options long_options idx flags s =
     (case options of
        None \<Rightarrow> Some (-1, s)
      | Some opts \<Rightarrow>
          let s = (if optind s = 0 then s\<lparr>optind := 1, optreset := 1\<rparr> else s);
              s = (if posixly_correct s = -1 \<or> optreset s \<noteq> 0 then s\<lparr>posixly_correct := (if posix then 1 else 0)\<rparr> else s);
              flags = (if first_is opts (CHR ''-'') then flags OR FLAG_ALLARGS
                       else if posixly_correct s \<noteq> 0 \<or> first_is opts (CHR ''+'') then flags AND (NOT FLAG_PERMUTE) else flags);
              opts = (if first_is opts (CHR ''+'') \<or> first_is opts (CHR ''-'') then tl opts else opts);
              s = s\<lparr>optarg := None\<rparr>;
              s = (if optreset s \<noteq> 0 then s\<lparr>nonopt_start := -1, nonopt_end := -1\<rparr> else s)
          in do {
            (r, s) \<leftarrow> next_argument nargc opts flags s;
            case r of
              Some ret \<Rightarrow> Some (ret, s)
            | None \<Rightarrow> do {
                (r, s) \<leftarrow> (case long_options of None \<Rightarrow> Some (None, s) | Some los \<Rightarrow> long_part opts los idx flags s);
                case r of
                  Some ret \<Rightarrow> Some (ret, s)
                | None \<Rightarrow> short_part nargc opts long_options idx s
              }
          })"

definition getopt :: "bool \<Rightarrow> int \<Rightarrow> string option \<Rightarrow> getopt_state \<Rightarrow> (int \<times> getopt_state) option" where
  "getopt posix nargc options s = getopt_internal posix nargc options None False 0 s"

definition getopt_long :: "bool \<Rightarrow> int \<Rightarrow> string option \<Rightarrow> long_option list \<Rightarrow> bool \<Rightarrow> getopt_state \<Rightarrow> (int \<times> getopt_state) option" where
  "getopt_long posix nargc options long_options idx s = getopt_internal posix nargc options (Some long_options) idx FLAG_PERMUTE s"

definition getopt_long_only :: "bool \<Rightarrow> int \<Rightarrow> string option \<Rightarrow> long_option list \<Rightarrow> bool \<Rightarrow> getopt_state \<Rightarrow> (int \<times> getopt_state) option" where
  "getopt_long_only posix nargc options long_options idx s =
     getopt_internal posix nargc options (Some long_options) idx (FLAG_PERMUTE OR FLAG_LONGONLY) s"

end
