(* ===== verification/Getopt_Permute.thy ===== *)
theory Getopt_Permute
  imports Getopt_Win
begin

text \<open>
  The option parser exchanges two neighbouring blocks of the argument vector in place, following
  the cycles of a rotation.  This theory shows that the cycles are disjoint, that together they
  visit every position, and that the result is the exchange of the blocks.
\<close>

section \<open>The cycles of a rotation\<close>

text \<open>Blocks of lengths \<open>a\<close> and \<open>b\<close>.  A step leads from \<open>q\<close> to \<open>(q + b) mod (a + b)\<close>.\<close>

definition cycle_pos :: "nat \<Rightarrow> nat \<Rightarrow> nat \<Rightarrow> nat \<Rightarrow> nat" where
  "cycle_pos a b c k = (c + k * b) mod (a + b)"

definition cycle_len :: "nat \<Rightarrow> nat \<Rightarrow> nat" where
  "cycle_len a b = (a + b) div gcd a b"

lemma cycle_len_mult: "cycle_len a b * gcd a b = a + b"
  unfolding cycle_len_def by (rule dvd_div_mult_self) simp

lemma cycle_len_pos: "0 < a \<Longrightarrow> 0 < cycle_len a b"
  using cycle_len_mult [of a b] by (cases "cycle_len a b") auto

lemma cycle_pos_less: "0 < a \<Longrightarrow> cycle_pos a b c k < a + b"
  by (simp add: cycle_pos_def)

lemma cycle_pos_0: "c < a + b \<Longrightarrow> cycle_pos a b c 0 = c"
  by (simp add: cycle_pos_def)

lemma cycle_pos_Suc: "cycle_pos a b c (Suc k) = (cycle_pos a b c k + b) mod (a + b)"
  by (simp add: cycle_pos_def mod_simps ac_simps)

lemma cycle_pos_back: "0 < a \<Longrightarrow> (cycle_pos a b c (Suc k) + a) mod (a + b) = cycle_pos a b c k"
proof -
  have "(cycle_pos a b c (Suc k) + a) mod (a + b) = (c + Suc k * b + a) mod (a + b)"
    by (simp add: cycle_pos_def mod_add_left_eq)
  also have "c + Suc k * b + a = (c + k * b) + (a + b)" by simp
  finally show ?thesis by (simp only: mod_add_self2 cycle_pos_def)
qed

text \<open>A rotation by \<open>k * b\<close> is the identity exactly when the cycle length divides \<open>k\<close>.\<close>

lemma cycle_len_dvd:
  assumes "0 < a" "0 < b"
  shows "(a + b) dvd k * b \<longleftrightarrow> cycle_len a b dvd k"
proof -
  let ?g = "gcd a b"
  obtain b' where b': "b = b' * ?g" by (metis gcd_dvd2 dvd_def mult.commute)
  obtain a' where a': "a = a' * ?g" by (metis gcd_dvd1 dvd_def mult.commute)
  have g: "0 < ?g" using assms by simp
  have L: "cycle_len a b = a' + b'" using cycle_len_mult [of a b] a' b' g by (metis add_mult_distrib mult_cancel2 neq0_conv)
  have "coprime a' b'" using a' b' assms div_gcd_coprime [of a b] g
    by (metis gr_implies_not0 nonzero_mult_div_cancel_right)
  then have "coprime (a' + b') b'" by (metis coprime_iff_gcd_eq_1 gcd_add1)
  moreover have "(a + b) dvd k * b \<longleftrightarrow> (a' + b') * ?g dvd (k * b') * ?g"
    using a' b' by (metis add_mult_distrib mult.assoc)
  ultimately show ?thesis using L assms(1) by (auto simp: coprime_dvd_mult_left_iff)
qed

lemma cycle_pos_eq:
  assumes "0 < a" "0 < b" "m \<le> k"
  shows "cycle_pos a b c m = cycle_pos a b c k \<longleftrightarrow> cycle_len a b dvd (k - m)"
proof -
  have "cycle_pos a b c m = cycle_pos a b c k \<longleftrightarrow> (a + b) dvd (c + k * b) - (c + m * b)"
    using assms(3) by (metis cycle_pos_def mod_eq_dvd_iff_nat add_le_cancel_left mult_le_mono1)
  also have "(c + k * b) - (c + m * b) = (k - m) * b" by (simp add: diff_mult_distrib)
  finally show ?thesis using cycle_len_dvd [OF assms(1,2)] by simp
qed

lemma cycle_pos_neq: "0 < a \<Longrightarrow> 0 < b \<Longrightarrow> m < k \<Longrightarrow> k < cycle_len a b + m \<Longrightarrow> cycle_pos a b c m \<noteq> cycle_pos a b c k"
  using cycle_pos_eq [of a b m k c] by (auto dest!: dvd_imp_le)

lemma cycle_closes: "0 < a \<Longrightarrow> 0 < b \<Longrightarrow> c < a + b \<Longrightarrow> cycle_pos a b c (cycle_len a b) = c"
  using cycle_pos_eq [of a b 0 "cycle_len a b" c] cycle_pos_0 [of c a b] by simp

lemma cycle_pos_mod_gcd: "cycle_pos a b c k mod gcd a b = c mod gcd a b"
proof -
  have "cycle_pos a b c k mod gcd a b = (c + k * b) mod gcd a b"
    by (simp add: cycle_pos_def mod_mod_cancel)
  also have "\<dots> = c mod gcd a b" by (metis mod_add_right_eq dvd_imp_mod_0 gcd_dvd2 dvd_mult add.right_neutral)
  finally show ?thesis .
qed

lemma cycle_reaches:
  assumes "0 < a" "0 < b" "r < a + b" "c < a + b" "r mod gcd a b = c mod gcd a b"
  shows "\<exists>k < cycle_len a b. cycle_pos a b c k = r"
proof -
  let ?L = "cycle_len a b" and ?n = "a + b"
  have g: "gcd (int ?n) (int b) = int (gcd a b)"
    by (metis add.commute gcd.commute gcd_add1 gcd_int_int_eq)
  obtain u v where uv: "u * int ?n + v * int b = int (gcd a b)" using bezout_int [of "int ?n" "int b"] g by auto
  have "int (gcd a b) dvd int r - int c"
    using assms(5) by (metis mod_eq_dvd_iff of_nat_mod)
  then obtain t where t: "int r - int c = int (gcd a b) * t" by (auto simp: dvd_def)
  have "int r - int c = (u * t) * int ?n + (v * t) * int b" using t uv by (simp add: algebra_simps flip: uv)
  then have "int r - (int c + (v * t) * int b) = int ?n * (u * t)" by (simp add: algebra_simps)
  define k where "k = nat ((v * t) mod int ?L)"
  have L0: "0 < ?L" using cycle_len_pos assms(1) .
  have k: "int k = (v * t) mod int ?L" "k < ?L" unfolding k_def using L0 by (simp_all add: nat_less_iff)
  obtain w where w: "v * t = int k + int ?L * w" using k(1) by (metis mod_mult_div_eq)
  have "int ?n dvd int ?L * int b" using cycle_len_dvd [OF assms(1,2), of ?L] by (metis dvd_refl of_nat_dvd_iff of_nat_mult)
  then have "int ?n dvd int r - (int c + int k * int b)"
  proof -
    have "int r - (int c + int k * int b) = int ?n * (u * t) + (int ?L * int b) * w"
      using \<open>int r - (int c + (v * t) * int b) = int ?n * (u * t)\<close> unfolding w by (simp add: algebra_simps)
    then show ?thesis using \<open>int ?n dvd int ?L * int b\<close> by simp
  qed
  then have "int r mod int ?n = (int c + int k * int b) mod int ?n" by (simp add: mod_eq_dvd_iff)
  then have "r mod ?n = (c + k * b) mod ?n" by (metis of_nat_add of_nat_mult of_nat_mod of_nat_eq_iff)
  then show ?thesis using k(2) assms(3) by (auto simp: cycle_pos_def)
qed

section \<open>One cycle\<close>

lemma smod_nonneg: "0 \<le> x \<Longrightarrow> 0 < y \<Longrightarrow> x smod y = x mod (y :: int)"
  by (cases "x = 0") (simp_all add: signed_modulo_int_def signed_divide_int_def minus_div_mult_eq_mod)

lemma sdiv_nonneg: "0 \<le> x \<Longrightarrow> 0 < y \<Longrightarrow> x sdiv y = x div (y :: int)"
  by (cases "x = 0") (simp_all add: signed_divide_int_def)

lemma gcd_loop_eq: "0 < b \<Longrightarrow> 0 \<le> c \<Longrightarrow> gcd_loop b c = gcd b c"
proof (induction b c rule: gcd_loop.induct)
  case (1 b c)
  then show ?case by (cases "c = 0") (simp_all add: smod_nonneg gcd_red_int [of b c] gcd_loop.simps [of b c] gcd_loop.simps [of b 0])
qed

lemma gcd_c_eq: "0 \<le> a \<Longrightarrow> 0 < b \<Longrightarrow> gcd_c a b = Some (gcd a b)"
  by (simp add: gcd_c_def gcd_loop_eq smod_nonneg gcd_red_int [of a b])

lemma swap_step_pos:
  assumes "0 < a" "q < a + b" "s + a + b \<le> length v" "c < a + b"
  shows "swap_step (int (s + a)) (int a) (int b) (int (s + c)) (int (s + q), v)
    = Some (int (s + (q + b) mod (a + b)), (v[s + (q + b) mod (a + b) := v ! (s + c)])[s + c := v ! (s + (q + b) mod (a + b))])"
proof -
  have q: "(q + b) mod (a + b) = (if q \<ge> a then q - a else q + b)" using assms(1,2) by (auto simp: mod_if)
  have "(if int (s + q) \<ge> int (s + a) then int (s + q) - int a else int (s + q) + int b) = int (s + (q + b) mod (a + b))"
    unfolding q by auto
  moreover have "(q + b) mod (a + b) < a + b" using assms(1) by simp
  ultimately show ?thesis using assms(3,4) by (simp add: read_arg_def Let_def del: of_nat_add)
qed

text \<open>After \<open>k\<close> steps of a cycle that starts at \<open>c\<close> the positions passed hold what was one step
  before them, and \<open>c\<close> holds what belongs to the next one.\<close>

lemma cycle_prefix:
  assumes "0 < a" "0 < b" "s + a + b \<le> length v" "c < a + b" "k < cycle_len a b"
  shows "\<exists>w. mfold (\<lambda>j. swap_step (int (s + a)) (int a) (int b) (int (s + c))) [0..<k] (int (s + c), v) = Some (int (s + cycle_pos a b c k), w)
    \<and> length w = length v \<and> w ! (s + c) = v ! (s + cycle_pos a b c k)
    \<and> (\<forall>x. x \<noteq> s + c \<longrightarrow> w ! x = (if \<exists>m. m < k \<and> x = s + cycle_pos a b c (Suc m) then v ! (s + (x - s + a) mod (a + b)) else v ! x))"
  using assms(5)
proof (induction k)
  case 0
  show ?case using assms(4) by (simp add: cycle_pos_0)
next
  case (Suc k)
  let ?p = "cycle_pos a b c"
  obtain w where w: "mfold (\<lambda>j. swap_step (int (s + a)) (int a) (int b) (int (s + c))) [0..<k] (int (s + c), v) = Some (int (s + ?p k), w)"
    "length w = length v" "w ! (s + c) = v ! (s + ?p k)"
    "\<And>x. x \<noteq> s + c \<Longrightarrow> w ! x = (if \<exists>m. m < k \<and> x = s + ?p (Suc m) then v ! (s + (x - s + a) mod (a + b)) else v ! x)"
    using Suc by auto
  define u where "u = (w[s + ?p (Suc k) := w ! (s + c)])[s + c := w ! (s + ?p (Suc k))]"
  have less: "?p (Suc k) < a + b" using cycle_pos_less assms(1) .
  have ne: "s + ?p (Suc k) \<noteq> s + c"
    using cycle_pos_neq [of a b 0 "Suc k" c] Suc.prems assms cycle_pos_0 [OF assms(4)] by simp
  have new: "\<not> (\<exists>m. m < k \<and> s + ?p (Suc k) = s + ?p (Suc m))"
    using cycle_pos_neq [of a b "Suc _" "Suc k" c] Suc.prems assms(1,2) by fastforce
  have step: "mfold (\<lambda>j. swap_step (int (s + a)) (int a) (int b) (int (s + c))) [0..<Suc k] (int (s + c), v) = Some (int (s + ?p (Suc k)), u)"
    using swap_step_pos [OF assms(1) cycle_pos_less [OF assms(1)] _ assms(4), of s w c k] w(1,2) assms(3)
    by (simp add: mfold_append u_def cycle_pos_Suc del: swap_step.simps of_nat_add)
  have "w ! (s + ?p (Suc k)) = v ! (s + ?p (Suc k))" using w(4) [OF ne] unfolding if_not_P [OF new] .
  then have "u ! (s + c) = v ! (s + ?p (Suc k))" using w(2) assms(3,4) by (simp add: u_def)
  moreover have "u ! x = (if \<exists>m. m < Suc k \<and> x = s + ?p (Suc m) then v ! (s + (x - s + a) mod (a + b)) else v ! x)" if x: "x \<noteq> s + c" for x
  proof (cases "x = s + ?p (Suc k)")
    case True
    then have "u ! x = v ! (s + ?p k)" using w(2,3) ne less assms(3) by (simp add: u_def)
    then show ?thesis using True cycle_pos_back [OF assms(1), of b c k] by auto
  next
    case False
    then have "u ! x = w ! x" using x by (simp add: u_def)
    then show ?thesis using w(4) [OF x] False less_Suc_eq by auto
  qed
  ultimately show ?case using step w(2) by (auto simp: u_def)
qed

lemma start_mod_gcd: "i < gcd a b \<Longrightarrow> (a + i) mod gcd a (b :: nat) = i"
  by (metis add.left_neutral dvd_imp_mod_0 gcd_dvd1 mod_add_left_eq mod_less)

text \<open>A whole cycle moves exactly the positions that are congruent to its start.\<close>

lemma permute_cycle_eq:
  assumes "0 < a" "0 < b" "s + a + b \<le> length v" "i < gcd a b"
  shows "\<exists>w. permute_cycle (int (s + a)) (int a) (int b) (int (cycle_len a b)) i v = Some w \<and> length w = length v
    \<and> (\<forall>r. r < a + b \<longrightarrow> w ! (s + r) = (if r mod gcd a b = i then v ! (s + (r + a) mod (a + b)) else v ! (s + r)))
    \<and> (\<forall>x. x < s \<or> s + a + b \<le> x \<longrightarrow> w ! x = v ! x)"
proof -
  let ?c = "a + i" and ?L = "cycle_len a b"
  let ?p = "cycle_pos a b ?c" and ?step = "\<lambda>j :: nat. swap_step (int (s + a)) (int a) (int b) (int (s + ?c))"
  have "gcd a b \<le> b" using assms(2) by (simp add: dvd_imp_le)
  then have c: "?c < a + b" using assms(4) by linarith
  obtain k where k: "?L = Suc k" using cycle_len_pos [OF assms(1), of b] by (cases ?L) auto
  obtain w where w: "mfold ?step [0..<k] (int (s + ?c), v) = Some (int (s + ?p k), w)" "length w = length v"
    "w ! (s + ?c) = v ! (s + ?p k)"
    "\<And>x. x \<noteq> s + ?c \<Longrightarrow> w ! x = (if \<exists>m. m < k \<and> x = s + ?p (Suc m) then v ! (s + (x - s + a) mod (a + b)) else v ! x)"
    using cycle_prefix [OF assms(1-3) c, of k] k by auto
  have closes: "?p (Suc k) = ?c" using cycle_closes [OF assms(1,2) c] k by simp
  have "(?p k + b) mod (a + b) = ?c" using closes cycle_pos_Suc [of a b ?c k] by simp
  then have "mfold ?step [0..<?L] (int (s + ?c), v) = Some (int (s + ?c), w)"
    using swap_step_pos [OF assms(1) cycle_pos_less [OF assms(1)] _ c, of s w ?c k] w(1,2) assms(3) k
    by (simp add: mfold_append del: swap_step.simps of_nat_add)
  then have run: "permute_cycle (int (s + a)) (int a) (int b) (int ?L) i v = Some w"
    by (simp add: permute_cycle_def add.assoc)
  have reach: "(\<exists>m. m < k \<and> s + r = s + ?p (Suc m)) \<longleftrightarrow> r mod gcd a b = i" if r: "r < a + b" "r \<noteq> ?c" for r
  proof
    assume "\<exists>m. m < k \<and> s + r = s + ?p (Suc m)"
    then show "r mod gcd a b = i" using cycle_pos_mod_gcd [of a b ?c] start_mod_gcd [OF assms(4)] by auto
  next
    assume "r mod gcd a b = i"
    then have "r mod gcd a b = ?c mod gcd a b" using start_mod_gcd [OF assms(4)] by simp
    then obtain m where m: "m < ?L" "?p m = r" using cycle_reaches [OF assms(1,2) r(1) c] by auto
    then have "m \<noteq> 0" using r(2) cycle_pos_0 [OF c] by (metis)
    then show "\<exists>m. m < k \<and> s + r = s + ?p (Suc m)" using m k by (cases m) auto
  qed
  have "w ! (s + r) = (if r mod gcd a b = i then v ! (s + (r + a) mod (a + b)) else v ! (s + r))" if r: "r < a + b" for r
  proof (cases "r = ?c")
    case True
    then show ?thesis using w(3) cycle_pos_back [OF assms(1), of b ?c k] closes start_mod_gcd [OF assms(4)] by simp
  next
    case False
    then show ?thesis using w(4) [of "s + r"] reach [OF r False] by simp
  qed
  moreover have "w ! x = v ! x" if x: "x < s \<or> s + a + b \<le> x" for x
  proof -
    have no: "\<not> (\<exists>m. m < k \<and> x = s + ?p (Suc m))" using x cycle_pos_less [OF assms(1), of b ?c] by (fastforce simp: not_le [symmetric])
    have "x \<noteq> s + ?c" using x c by linarith
    from w(4) [OF this] show ?thesis unfolding if_not_P [OF no] .
  qed
  ultimately show ?thesis using run w(2) by blast
qed

section \<open>All cycles\<close>

lemma permute_cycles_prefix:
  assumes "0 < a" "0 < b" "s + a + b \<le> length v" "k \<le> gcd a b"
  shows "\<exists>w. mfold (permute_cycle (int (s + a)) (int a) (int b) (int (cycle_len a b))) [0..<k] v = Some w \<and> length w = length v
    \<and> (\<forall>r. r < a + b \<longrightarrow> w ! (s + r) = (if r mod gcd a b < k then v ! (s + (r + a) mod (a + b)) else v ! (s + r)))
    \<and> (\<forall>x. x < s \<or> s + a + b \<le> x \<longrightarrow> w ! x = v ! x)"
  using assms(4)
proof (induction k)
  case 0
  show ?case by simp
next
  case (Suc k)
  then obtain w where w: "mfold (permute_cycle (int (s + a)) (int a) (int b) (int (cycle_len a b))) [0..<k] v = Some w" "length w = length v"
    "\<And>r. r < a + b \<Longrightarrow> w ! (s + r) = (if r mod gcd a b < k then v ! (s + (r + a) mod (a + b)) else v ! (s + r))"
    "\<And>x. x < s \<or> s + a + b \<le> x \<Longrightarrow> w ! x = v ! x" by auto
  obtain u where u: "permute_cycle (int (s + a)) (int a) (int b) (int (cycle_len a b)) k w = Some u" "length u = length w"
    "\<And>r. r < a + b \<Longrightarrow> u ! (s + r) = (if r mod gcd a b = k then w ! (s + (r + a) mod (a + b)) else w ! (s + r))"
    "\<And>x. x < s \<or> s + a + b \<le> x \<Longrightarrow> u ! x = w ! x"
    using permute_cycle_eq [of a b s w k] assms(1-3) Suc.prems w(2) by auto
  have "u ! (s + r) = (if r mod gcd a b < Suc k then v ! (s + (r + a) mod (a + b)) else v ! (s + r))" if r: "r < a + b" for r
  proof -
    have "(r + a) mod (a + b) < a + b" using assms(1) by simp
    moreover have "(r + a) mod (a + b) mod gcd a b = r mod gcd a b"
      by (simp add: mod_mod_cancel) (metis add.right_neutral gcd_dvd1 mod_add_right_eq dvd_imp_mod_0)
    ultimately show ?thesis using u(3) [OF r] w(3) [OF r] w(3) [of "(r + a) mod (a + b)"] by auto
  qed
  moreover have "u ! x = v ! x" if "x < s \<or> s + a + b \<le> x" for x using u(4) [OF that] w(4) [OF that] by simp
  ultimately show ?case using w(1,2) u(1,2) by (auto simp: mfold_append)
qed

lemma permute_args_eq:
  assumes "0 < length xs" "0 < length ys"
  shows "permute_args (int (length ps)) (int (length ps + length xs)) (int (length ps + length xs + length ys)) (ps @ xs @ ys @ rest)
    = Some (ps @ ys @ xs @ rest)"
proof -
  let ?s = "length ps" and ?a = "length xs" and ?b = "length ys" and ?v = "ps @ xs @ ys @ rest"
  have g: "gcd_c (int ?a) (int ?b) = Some (int (gcd ?a ?b))" using gcd_c_eq [of "int ?a" "int ?b"] assms(2) by simp
  have len: "(int (?s + ?a + ?b) - int ?s) sdiv int (gcd ?a ?b) = int (cycle_len ?a ?b)"
    using sdiv_nonneg [of "int (?a + ?b)" "int (gcd ?a ?b)"] assms(1) by (simp add: cycle_len_def zdiv_int)
  obtain w where w: "mfold (permute_cycle (int (?s + ?a)) (int ?a) (int ?b) (int (cycle_len ?a ?b))) [0..<gcd ?a ?b] ?v = Some w"
    "length w = length ?v" "\<And>r. r < ?a + ?b \<Longrightarrow> w ! (?s + r) = ?v ! (?s + (r + ?a) mod (?a + ?b))"
    "\<And>x. x < ?s \<or> ?s + ?a + ?b \<le> x \<Longrightarrow> w ! x = ?v ! x"
    using permute_cycles_prefix [OF assms, of ?s ?v "gcd ?a ?b"] assms by auto
  have "w = ps @ ys @ xs @ rest"
  proof (rule nth_equalityI)
    fix x assume x: "x < length w"
    consider "x < ?s \<or> ?s + ?a + ?b \<le> x" | r where "x = ?s + r" "r < ?b" | r where "x = ?s + (?b + r)" "r < ?a"
    proof -
      have "(x < ?s \<or> ?s + ?a + ?b \<le> x) \<or> (x = ?s + (x - ?s) \<and> x - ?s < ?b) \<or> (x = ?s + (?b + (x - ?s - ?b)) \<and> x - ?s - ?b < ?a)" by linarith
      then show thesis using that by blast
    qed
    then show "w ! x = (ps @ ys @ xs @ rest) ! x"
    proof cases
      case 1 then show ?thesis using w(4) by (auto simp: nth_append ac_simps)
    next
      case 2 then show ?thesis using w(3) [of r] assms by (simp add: nth_append)
    next
      case 3
      have "(?b + r + ?a) mod (?a + ?b) = r" using 3 by (metis add.commute add.left_commute mod_add_self2 mod_less trans_less_add1)
      then show ?thesis using 3 w(3) [of "?b + r"] by (simp add: nth_append)
    qed
  qed (use w(2) in simp)
  then show ?thesis using w(1) g len by (simp add: permute_args_def Let_def)
qed

text \<open>
  C18: permuting the argument vector exchanges the block of operands that was skipped with the block of
  options behind it, keeps the order inside both, and leaves the rest of the vector alone, although
  it is done in place along the cycles of a rotation.
\<close>

theorem permute_args_exchanges:
  assumes "0 \<le> panonopt_start" "panonopt_start < panonopt_end" "panonopt_end < opt_end" "opt_end \<le> int (length v)"
  shows "permute_args panonopt_start panonopt_end opt_end v =
    Some (take (nat panonopt_start) v @ drop (nat panonopt_end) (take (nat opt_end) v)
       @ drop (nat panonopt_start) (take (nat panonopt_end) v) @ drop (nat opt_end) v)"
proof -
  obtain s m e where n: "panonopt_start = int s" "panonopt_end = int m" "opt_end = int e"
    using assms by (metis less_imp_le nonneg_int_cases order_trans)
  have o: "s < m" "m < e" "e \<le> length v" using assms n by simp_all
  let ?xs = "drop s (take m v)" and ?ys = "drop m (take e v)"
  have len: "length (take s v) = s" "length (take s v) + length ?xs = m" "length (take s v) + length ?xs + length ?ys = e"
    "0 < length ?xs" "0 < length ?ys" using o by simp_all
  have v: "take s v @ ?xs @ ?ys @ drop e v = v"
    using o by (metis append_assoc append_take_drop_id less_imp_le_nat min.absorb1 take_take)
  show ?thesis using permute_args_eq [OF len(4,5), of "take s v" "drop e v"] unfolding len(3) unfolding len(2) unfolding v n
    by (simp add: len(1) del: length_take)
qed

theorem permute_args_exchanges_witness:
  "permute_args 1 3 6 [''prog'', ''x'', ''y'', ''-a'', ''-b'', ''-c'', ''z''] = Some [''prog'', ''-a'', ''-b'', ''-c'', ''x'', ''y'', ''z'']"
  using permute_args_exchanges [of 1 3 6 "[''prog'', ''x'', ''y'', ''-a'', ''-b'', ''-c'', ''z'']"]
  by (simp add: eval_nat_numeral)

end
