(* ===== verification/Getopt_Spec.thy ===== *)
theory Getopt_Spec
  imports Getopt_Permute
begin

text \<open>
  What the option parser does with a command line that is written correctly: the options are
  delivered in order, whatever mixture of long and short forms is used and wherever operands stand
  between them, and in the end the operands are behind the options in the argument vector.
\<close>

section \<open>Command lines\<close>

datatype request =
    Operand string
  | Flag char
  | Letter char string
  | Glued char string
  | Name nat
  | Name_arg nat string
  | Name_eq nat string

fun words_of :: "long_option list \<Rightarrow> request \<Rightarrow> string list" where
  "words_of los (Operand x) = [x]"
| "words_of los (Flag c) = [''-'' @ [c]]"
| "words_of los (Letter c x) = [''-'' @ [c], x]"
| "words_of los (Glued c x) = [''-'' @ [c] @ x]"
| "words_of los (Name i) = [''--'' @ opt_name (los ! i)]"
| "words_of los (Name_arg i x) = [''--'' @ opt_name (los ! i), x]"
| "words_of los (Name_eq i x) = [''--'' @ opt_name (los ! i) @ ''='' @ x]"

fun meaning :: "long_option list \<Rightarrow> request \<Rightarrow> (int \<times> string option) list" where
  "meaning los (Operand x) = []"
| "meaning los (Flag c) = [(char_int c, None)]"
| "meaning los (Letter c x) = [(char_int c, Some x)]"
| "meaning los (Glued c x) = [(char_int c, Some x)]"
| "meaning los (Name i) = [(opt_val (los ! i), None)]"
| "meaning los (Name_arg i x) = [(opt_val (los ! i), Some x)]"
| "meaning los (Name_eq i x) = [(opt_val (los ! i), Some x)]"

fun operands :: "request list \<Rightarrow> string list" where
  "operands [] = []"
| "operands (Operand x # rs) = x # operands rs"
| "operands (r # rs) = operands rs"

fun is_operand :: "request \<Rightarrow> bool" where
  "is_operand (Operand x) = True"
| "is_operand r = False"

text \<open>A letter that may be given: it is in the list, and what follows it there.\<close>

definition letter :: "string \<Rightarrow> char \<Rightarrow> string \<Rightarrow> bool" where
  "letter options c after \<longleftrightarrow> c \<notin> {CHR ''-'', CHR '':'', CHR 0x00} \<and> char_int c \<noteq> -1 \<and> strchr options c = Some (c # after)
     \<and> \<not> (c = CHR ''W'' \<and> first_is after (CHR '';''))"

definition letter_tail :: "string \<Rightarrow> char \<Rightarrow> string" where
  "letter_tail options c = (case strchr options c of Some (_ # after) \<Rightarrow> after | _ \<Rightarrow> [])"

fun valid :: "string \<Rightarrow> long_option list \<Rightarrow> request \<Rightarrow> bool" where
  "valid options los (Operand x) \<longleftrightarrow> \<not> first_is x (CHR ''-'') \<or> (x = ''-'' \<and> strchr options (CHR ''-'') = None)"
| "valid options los (Flag c) \<longleftrightarrow> letter options c (letter_tail options c) \<and> \<not> first_is (letter_tail options c) (CHR '':'')"
| "valid options los (Letter c x) \<longleftrightarrow> letter options c (letter_tail options c) \<and> first_is (letter_tail options c) (CHR '':'')
     \<and> \<not> first_is (tl (letter_tail options c)) (CHR '':'')"
| "valid options los (Glued c x) \<longleftrightarrow> letter options c (letter_tail options c) \<and> first_is (letter_tail options c) (CHR '':'') \<and> x \<noteq> []"
| "valid options los (Name i) \<longleftrightarrow> i < length los \<and> has_arg (los ! i) \<noteq> required_argument"
| "valid options los (Name_arg i x) \<longleftrightarrow> i < length los \<and> has_arg (los ! i) = required_argument"
| "valid options los (Name_eq i x) \<longleftrightarrow> i < length los \<and> has_arg (los ! i) \<in> {required_argument, optional_argument}"

text \<open>The tables: the names of long options are different and contain no equals sign, their values
  are returned and are not the value for the end.\<close>

definition tables_ok :: "string \<Rightarrow> long_option list \<Rightarrow> bool" where
  "tables_ok options los \<longleftrightarrow> \<not> first_is options (CHR ''+'') \<and> \<not> first_is options (CHR ''-'') \<and> distinct (map opt_name los)
     \<and> list_all (\<lambda>l. opt_name l \<noteq> [] \<and> CHR ''='' \<notin> set (opt_name l) \<and> opt_flag l = None \<and> opt_val l \<noteq> -1) los"

section \<open>Long names\<close>

lemma match_exact:
  assumes "distinct (map opt_name los)" "i < length los" "k \<le> i"
  shows "match_loop los (opt_name (los ! i) @ x) (length (opt_name (los ! i))) short_too k (drop k los) r = (Some i, False)"
  using assms(3)
proof (induction "i - k" arbitrary: k r)
  case 0
  then have "drop k los = los ! i # drop (Suc i) los" using assms(2) by (simp add: Cons_nth_drop_Suc)
  then show ?case using 0 by (cases r) simp
next
  case (Suc d)
  then have k: "k < i" "drop k los = los ! k # drop (Suc k) los" using assms(2) by (simp_all add: Cons_nth_drop_Suc)
  have ne: "opt_name (los ! k) \<noteq> opt_name (los ! i)" using assms(1,2) k(1) by (auto simp: distinct_conv_nth)
  have "match_loop los (opt_name (los ! i) @ x) (length (opt_name (los ! i))) short_too (k + 1) (drop (Suc k) los) r' = (Some i, False)" for r'
    using Suc(1) [of "Suc k" r'] Suc(2) k(1) by simp
  moreover have "length (opt_name (los ! k)) = length (opt_name (los ! i)) \<Longrightarrow> opt_name (los ! i) \<noteq> take (length (opt_name (los ! i))) (opt_name (los ! k))"
    using ne by (metis order_refl take_all_iff)
  ultimately show ?case using k(2) by (cases r) (auto split: option.splits)
qed

lemma strchr_equals: "CHR ''='' \<notin> set n \<Longrightarrow> strchr (n @ x) (CHR ''='') = strchr x (CHR ''='')"
  by (subst strchr_def, subst dropWhile_append2) (auto simp: strchr_def)

lemma strchr_equals_none: "CHR ''='' \<notin> set n \<Longrightarrow> strchr n (CHR ''='') = None"
  using strchr_equals [of n "[]"] by (simp add: strchr_def)

lemma strchr_equals_here: "CHR ''='' \<notin> set n \<Longrightarrow> strchr (n @ CHR ''='' # x) (CHR ''='') = Some (CHR ''='' # x)"
  using strchr_equals [of n "CHR ''='' # x"] by (simp add: strchr_def)

section \<open>Taking one option\<close>

text \<open>What a call leaves alone once the argument is found.\<close>

definition same_vector :: "getopt_state \<Rightarrow> getopt_state \<Rightarrow> bool" where
  "same_vector s s' \<longleftrightarrow> nargv s' = nargv s \<and> nonopt_start s' = nonopt_start s \<and> nonopt_end s' = nonopt_end s
     \<and> optreset s' = optreset s \<and> posixly_correct s' = posixly_correct s"

definition take_option :: "int \<Rightarrow> string \<Rightarrow> long_option list \<Rightarrow> bool \<Rightarrow> int \<Rightarrow> getopt_state \<Rightarrow> (int \<times> getopt_state) option" where
  "take_option nargc options los idx flags s = do {
     (q, s) \<leftarrow> long_part options los idx flags s;
     case q of Some ret \<Rightarrow> Some (ret, s) | None \<Rightarrow> short_part nargc options (Some los) idx s
   }"

definition taken :: "getopt_state \<Rightarrow> nat \<Rightarrow> string option \<Rightarrow> getopt_state \<Rightarrow> bool" where
  "taken s n a s' \<longleftrightarrow> same_vector s s' \<and> place s' = [] \<and> optarg s' = a \<and> optind s' = optind s + int n"

lemmas take_defs = take_option_def taken_def same_vector_def

lemma letter_tail_eq: "letter options c after \<Longrightarrow> strchr options c = Some (c # after)"
  by (simp add: letter_def)

lemma take_flag:
  assumes "letter options c after" "\<not> first_is after (CHR '':'')" "place s = [c]" "optarg s = None" "flags AND FLAG_LONGONLY = 0"
  shows "\<exists>s'. take_option nargc options los idx flags s = Some (char_int c, s') \<and> taken s 1 None s'"
  using assms by (auto simp: take_defs long_part_def short_part_def letter_def first_is_def Let_def)

lemma take_letter:
  assumes "letter options c after" "first_is after (CHR '':'')" "\<not> first_is (tl after) (CHR '':'')" "place s = [c]" "flags AND FLAG_LONGONLY = 0"
    and "read_arg (nargv s) (optind s + 1) = Some x" "optind s + 1 < nargc"
  shows "\<exists>s'. take_option nargc options los idx flags s = Some (char_int c, s') \<and> taken s 2 (Some x) s'"
proof -
  have c: "\<not> first_is [c] (CHR ''-'')" using assms(1) by (simp add: letter_def first_is_def)
  show ?thesis using assms c by (auto simp: take_defs long_part_def short_part_def letter_def Let_def)
qed

lemma take_glued:
  assumes "letter options c after" "first_is after (CHR '':'')" "place s = c # x" "x \<noteq> []" "flags AND FLAG_LONGONLY = 0"
  shows "\<exists>s'. take_option nargc options los idx flags s = Some (char_int c, s') \<and> taken s 1 (Some x) s'"
proof -
  have c: "\<not> first_is (c # x) (CHR ''-'')" using assms(1) by (simp add: letter_def first_is_def)
  show ?thesis using assms c by (auto simp: take_defs long_part_def short_part_def letter_def Let_def)
qed

lemma tables_okD:
  assumes "tables_ok options los" "i < length los"
  shows "distinct (map opt_name los)" "opt_name (los ! i) \<noteq> []" "CHR ''='' \<notin> set (opt_name (los ! i))" "opt_flag (los ! i) = None" "opt_val (los ! i) \<noteq> -1"
  using assms by (auto simp: tables_ok_def list_all_length)

lemma parse_name:
  assumes "tables_ok options los" "i < length los" "place s = opt_name (los ! i)"
  shows "parse_long_options options los idx short_too s =
    use_long_option los options idx (opt_name (los ! i)) (length (opt_name (los ! i))) None i (s\<lparr>optind := optind s + 1\<rparr>)"
  using match_exact [OF tables_okD(1) [OF assms(1,2)] assms(2), of 0 "[]" short_too "(None, False)"] tables_okD [OF assms(1,2)] assms(3)
  by (simp add: parse_long_options_def strchr_equals_none Let_def)

lemma parse_name_eq:
  assumes "tables_ok options los" "i < length los" "place s = opt_name (los ! i) @ ''='' @ x"
  shows "parse_long_options options los idx short_too s =
    use_long_option los options idx (opt_name (los ! i) @ ''='' @ x) (length (opt_name (los ! i))) (Some x) i (s\<lparr>optind := optind s + 1\<rparr>)"
  using match_exact [OF tables_okD(1) [OF assms(1,2)] assms(2), of 0 "''='' @ x" short_too "(None, False)"] tables_okD [OF assms(1,2)] assms(3)
  by (simp add: parse_long_options_def strchr_equals_here Let_def)

lemma take_name:
  assumes "tables_ok options los" "i < length los" "has_arg (los ! i) \<noteq> required_argument"
    and "place s = CHR ''-'' # opt_name (los ! i)" "place_off s \<noteq> 0" "optarg s = None"
  shows "\<exists>s'. take_option nargc options los idx flags s = Some (opt_val (los ! i), s') \<and> taken s 1 None s'"
  using assms tables_okD [OF assms(1,2)]
  by (auto simp: take_defs long_part_def first_is_def parse_name use_long_option_def Let_def)

lemma take_name_arg:
  assumes "tables_ok options los" "i < length los" "has_arg (los ! i) = required_argument"
    and "place s = CHR ''-'' # opt_name (los ! i)" "place_off s \<noteq> 0" "argv_at (nargv s) (optind s + 1) = Some (Some x)"
  shows "\<exists>s'. take_option nargc options los idx flags s = Some (opt_val (los ! i), s') \<and> taken s 2 (Some x) s'"
  using assms tables_okD [OF assms(1,2)]
  by (auto simp: take_defs long_part_def first_is_def parse_name use_long_option_def required_argument_def no_argument_def Let_def)

lemma take_name_eq:
  assumes "tables_ok options los" "i < length los" "has_arg (los ! i) \<in> {required_argument, optional_argument}"
    and "place s = CHR ''-'' # opt_name (los ! i) @ ''='' @ x" "place_off s \<noteq> 0"
  shows "\<exists>s'. take_option nargc options los idx flags s = Some (opt_val (los ! i), s') \<and> taken s 1 (Some x) s'"
  using assms tables_okD [OF assms(1,2)]
  by (auto simp: take_defs long_part_def first_is_def parse_name_eq use_long_option_def required_argument_def optional_argument_def no_argument_def Let_def)

lemma request_head:
  assumes "tables_ok options los" "valid options los r" "\<not> is_operand r"
  shows "\<exists>t args. words_of los r = (CHR ''-'' # t) # args \<and> t \<noteq> [] \<and> t \<noteq> ''-''"
  using assms tables_okD(2) [OF assms(1)] by (cases r) (auto simp: letter_def)

lemma argument_after:
  assumes "v = xs @ w # x # rest" "i = int (length xs)"
  shows "read_arg v (i + 1) = Some x" "argv_at v (i + 1) = Some (Some x)" "i + 1 < int (length v)"
  using assms by (simp_all add: read_arg_def argv_at_def nth_append nat_add_distrib)

lemma take_request:
  assumes "tables_ok options los" "valid options los r" "\<not> is_operand r"
    and "nargv s = xs @ words_of los r @ rest" "optind s = int (length xs)"
    and "place s = tl (hd (words_of los r))" "place_off s = 1" "optarg s = None" "flags AND FLAG_LONGONLY = 0"
  shows "\<exists>c a s'. meaning los r = [(c, a)] \<and> c \<noteq> -1 \<and> take_option (int (length (nargv s))) options los idx flags s = Some (c, s')
    \<and> taken s (length (words_of los r)) a s'"
proof (cases r)
  case (Flag c)
  then show ?thesis using take_flag [of options c "letter_tail options c" s flags] assms by (auto simp: letter_def)
next
  case (Letter c x)
  then have "nargv s = xs @ (''-'' @ [c]) # x # rest" using assms(4) by simp
  note x = argument_after [OF this assms(5)]
  show ?thesis using Letter take_letter [of options c "letter_tail options c" s flags x "int (length (nargv s))"] assms x by (auto simp: letter_def numeral_2_eq_2)
next
  case (Glued c x)
  then show ?thesis using take_glued [of options c "letter_tail options c" s x flags] assms by (auto simp: letter_def)
next
  case (Name i)
  then show ?thesis using take_name [OF assms(1), of i s] assms tables_okD(5) [OF assms(1)] by auto
next
  case (Name_arg i x)
  then have "nargv s = xs @ (''--'' @ opt_name (los ! i)) # x # rest" using assms(4) by simp
  note x = argument_after [OF this assms(5)]
  show ?thesis using Name_arg take_name_arg [OF assms(1), of i s x] assms tables_okD(5) [OF assms(1)] x by (auto simp: numeral_2_eq_2)
next
  case (Name_eq i x)
  then show ?thesis using take_name_eq [OF assms(1), of i s x] assms tables_okD(5) [OF assms(1)] by auto
qed (use assms(3) in simp)

section \<open>Finding the next option\<close>

text \<open>The vector between two calls: options that were handled, operands that were skipped, options
  handled after them, and the rest.\<close>

definition scanned :: "string list \<Rightarrow> string list \<Rightarrow> string list \<Rightarrow> string list \<Rightarrow> getopt_state \<Rightarrow> bool" where
  "scanned pre non opt rest s \<longleftrightarrow> nargv s = pre @ non @ opt @ rest \<and> optind s = int (length pre + length non + length opt)
     \<and> (if non = [] then opt = [] \<and> nonopt_start s = -1 \<and> nonopt_end s = -1
        else nonopt_start s = int (length pre) \<and> nonopt_end s = (if opt = [] then -1 else int (length pre + length non)))"

definition between :: "getopt_state \<Rightarrow> bool" where
  "between s \<longleftrightarrow> place s = [] \<and> optreset s = 0"

lemma permute_scanned:
  assumes "nargv s = pre @ non @ opt @ rest" "nonopt_start s = int (length pre)" "nonopt_end s = int (length pre + length non)"
    and "optind s = int (length pre + length non + length opt)" "non \<noteq> []" "opt \<noteq> []"
  shows "permute_args (nonopt_start s) (nonopt_end s) (optind s) (nargv s) = Some (pre @ opt @ non @ rest)"
  using permute_args_eq [of non opt pre rest] assms by simp

lemma skip_operand:
  assumes "scanned pre non opt (x # rest) s"
  shows "\<exists>s'. skip_nonoption s = Some s' \<and> scanned (pre @ opt) (non @ [x]) [] rest s' \<and> place s' = place s \<and> optreset s' = optreset s
    \<and> optarg s' = optarg s \<and> posixly_correct s' = posixly_correct s"
proof (cases "non = []")
  case True
  then show ?thesis using assms by (auto simp: scanned_def skip_nonoption_def)
next
  case False
  show ?thesis
  proof (cases "opt = []")
    case True
    then show ?thesis using assms False by (auto simp: scanned_def skip_nonoption_def)
  next
    case opt: False
    have s: "nargv s = pre @ non @ opt @ x # rest" "nonopt_start s = int (length pre)" "nonopt_end s = int (length pre + length non)"
      "optind s = int (length pre + length non + length opt)" using assms False opt by (simp_all add: scanned_def)
    show ?thesis using permute_scanned [OF s False opt] s False by (simp add: skip_nonoption_def scanned_def)
  qed
qed

lemma next_skips:
  assumes "scanned pre non opt (x # rest) s" "between s" "valid options los (Operand x)" "flags AND FLAG_ALLARGS = 0" "flags AND FLAG_PERMUTE \<noteq> 0"
  shows "\<exists>s'. next_argument (int (length (nargv s))) options flags s = next_argument (int (length (nargv s'))) options flags s'
    \<and> scanned (pre @ opt) (non @ [x]) [] rest s' \<and> between s' \<and> optarg s' = optarg s \<and> posixly_correct s' = posixly_correct s"
proof -
  let ?s = "s\<lparr>optreset := 0, place := [], place_off := 0\<rparr>"
  have "scanned pre non opt (x # rest) ?s" using assms(1) by (simp add: scanned_def)
  from skip_operand [OF this] obtain s' where s': "skip_nonoption ?s = Some s'" "scanned (pre @ opt) (non @ [x]) [] rest s'"
    "place s' = []" "optreset s' = 0" "optarg s' = optarg s" "posixly_correct s' = posixly_correct s" by auto
  have n: "length (nargv s') = length (nargv s)" using s'(2) assms(1) by (simp add: scanned_def)
  have r: "read_arg (nargv s) (optind s) = Some x" "optind s < int (length (nargv s))"
    using assms(1) by (simp_all add: scanned_def read_arg_def nth_append del: of_nat_add)
  have "next_argument (int (length (nargv s))) options flags s = next_argument (int (length (nargv s'))) options flags s'"
    using assms(2-5) r s'(1) n by (subst next_argument.simps) (auto simp: between_def Let_def)
  then show ?thesis using s' by (auto simp: between_def)
qed

lemma next_enters:
  assumes "scanned pre non opt ((CHR ''-'' # t) # rest) s" "between s" "t \<noteq> []" "t \<noteq> ''-''"
  shows "\<exists>s'. next_argument (int (length (nargv s))) options flags s = Some (None, s') \<and> nargv s' = nargv s \<and> optind s' = optind s
    \<and> place s' = t \<and> place_off s' = 1 \<and> optreset s' = 0 \<and> optarg s' = optarg s \<and> posixly_correct s' = posixly_correct s
    \<and> nonopt_start s' = nonopt_start s \<and> nonopt_end s' = (if non = [] then -1 else int (length pre + length non))"
proof -
  have r: "read_arg (nargv s) (optind s) = Some (CHR ''-'' # t)" "optind s < int (length (nargv s))"
    using assms(1) by (simp_all add: scanned_def read_arg_def nth_append del: of_nat_add)
  have ne: "length (CHR ''-'' # t) \<noteq> 1" using assms(3) by simp
  show ?thesis
    using assms r ne by (subst next_argument.simps) (auto simp: between_def first_is_def enter_option_def scanned_def Let_def)
qed

lemma next_ends:
  assumes "scanned pre non opt [] s" "between s"
  shows "\<exists>s'. next_argument (int (length (nargv s))) options flags s = Some (Some (-1), s') \<and> nargv s' = pre @ opt @ non
    \<and> optind s' = int (length pre + length opt) \<and> optarg s' = optarg s"
proof (cases "non = []")
  case True
  then show ?thesis using assms by (subst next_argument.simps) (auto simp: scanned_def between_def end_of_vector_def Let_def)
next
  case non: False
  show ?thesis
  proof (cases "opt = []")
    case True
    then show ?thesis using assms non by (subst next_argument.simps) (auto simp: scanned_def between_def end_of_vector_def Let_def)
  next
    case opt: False
    have s: "nargv s = pre @ non @ opt @ []" "nonopt_start s = int (length pre)" "nonopt_end s = int (length pre + length non)"
      "optind s = int (length pre + length non + length opt)" using assms non opt by (simp_all add: scanned_def)
    note p = permute_scanned [OF s non opt]
    show ?thesis using p s assms(2)
      by (subst next_argument.simps) (simp add: between_def end_of_vector_def finish_permutation_def Let_def)
  qed
qed

section \<open>A call\<close>

text \<open>The state between calls when \<open>rs\<close> is left of the command line.\<close>

definition waiting :: "string \<Rightarrow> long_option list \<Rightarrow> string list \<Rightarrow> string list \<Rightarrow> string list \<Rightarrow> request list \<Rightarrow> getopt_state \<Rightarrow> bool" where
  "waiting options los pre non opt rs s \<longleftrightarrow> tables_ok options los \<and> list_all (valid options los) rs \<and> between s \<and> posixly_correct s \<in> {-1, 0}
     \<and> pre \<noteq> [] \<and> scanned pre non opt (concat (map (words_of los) rs)) s"

lemma getopt_long_unfold:
  assumes "posixly_correct s \<in> {-1, 0}" "between s" "optind s \<noteq> 0" "\<not> first_is options (CHR ''+'')" "\<not> first_is options (CHR ''-'')"
  shows "getopt_long False nargc (Some options) los idx s = do {
      (r, s) \<leftarrow> next_argument nargc options FLAG_PERMUTE (s\<lparr>posixly_correct := 0, optarg := None\<rparr>);
      case r of Some ret \<Rightarrow> Some (ret, s) | None \<Rightarrow> take_option nargc options los idx FLAG_PERMUTE s
    }"
proof -
  have p: "s\<lparr>posixly_correct := 0, optarg := None\<rparr> = s\<lparr>optarg := None\<rparr>" if "posixly_correct s = 0" using that by (cases s) simp
  show ?thesis
  proof (cases "posixly_correct s = 0")
    case True
    show ?thesis unfolding p [OF True] using assms True
      by (auto simp: getopt_long_def getopt_internal_def take_option_def between_def Let_def cong: option.case_cong intro!: bind_option_cong)
  next
    case False
    then show ?thesis using assms
      by (auto simp: getopt_long_def getopt_internal_def take_option_def between_def Let_def cong: option.case_cong intro!: bind_option_cong)
  qed
qed

definition option_words :: "long_option list \<Rightarrow> request list \<Rightarrow> string list" where
  "option_words los rs = concat (map (words_of los) (filter (\<lambda>r. \<not> is_operand r) rs))"

text \<open>What a call gives: the next option, or the end with the operands behind the options.\<close>

definition answers :: "string \<Rightarrow> long_option list \<Rightarrow> string list \<Rightarrow> string list \<Rightarrow> string list \<Rightarrow> request list \<Rightarrow> (int \<times> getopt_state) option \<Rightarrow> bool" where
  "answers options los pre non opt rs q \<longleftrightarrow>
     (case concat (map (meaning los) rs) of
        [] \<Rightarrow> \<exists>s'. q = Some (-1, s') \<and> optarg s' = None \<and> nargv s' = pre @ opt @ option_words los rs @ non @ operands rs
               \<and> optind s' = int (length (pre @ opt @ option_words los rs))
      | m # ms \<Rightarrow> fst m \<noteq> -1 \<and> (\<exists>s' pre' non' opt' rs'. q = Some (fst m, s') \<and> optarg s' = snd m \<and> waiting options los pre' non' opt' rs' s'
               \<and> concat (map (meaning los) rs') = ms \<and> pre' @ opt' @ option_words los rs' = pre @ opt @ option_words los rs
               \<and> non' @ operands rs' = non @ operands rs))"

definition find_and_take :: "string \<Rightarrow> long_option list \<Rightarrow> bool \<Rightarrow> getopt_state \<Rightarrow> (int \<times> getopt_state) option" where
  "find_and_take options los idx s = do {
     (r, s') \<leftarrow> next_argument (int (length (nargv s))) options FLAG_PERMUTE s;
     case r of Some ret \<Rightarrow> Some (ret, s') | None \<Rightarrow> take_option (int (length (nargv s))) options los idx FLAG_PERMUTE s'
   }"

lemma operands_option: "\<not> is_operand r \<Longrightarrow> operands (r # rs) = operands rs"
  by (cases r) simp_all

lemma taken_scanned:
  assumes "scanned pre non opt (ws @ rest) s" "nargv s1 = nargv s" "optind s1 = optind s" "nonopt_start s1 = nonopt_start s"
    and "nonopt_end s1 = (if non = [] then -1 else int (length pre + length non))" "taken s1 (length ws) a s2" "ws \<noteq> []"
  shows "scanned (if non = [] then pre @ ws else pre) non (if non = [] then [] else opt @ ws) rest s2"
  using assms by (auto simp: scanned_def taken_def same_vector_def)

lemma flag_permute [simp]:
  "FLAG_PERMUTE AND FLAG_ALLARGS = 0" "FLAG_PERMUTE AND FLAG_LONGONLY = 0" "FLAG_PERMUTE \<noteq> 0"
  by (simp_all add: FLAG_PERMUTE_def FLAG_ALLARGS_def FLAG_LONGONLY_def)

lemma find_and_take_answers:
  assumes "tables_ok options los" "list_all (valid options los) rs" "pre \<noteq> []"
    and "scanned pre non opt (concat (map (words_of los) rs)) s" "between s" "optarg s = None" "posixly_correct s = 0"
  shows "answers options los pre non opt rs (find_and_take options los idx s)"
  using assms(2-)
proof (induction rs arbitrary: pre non opt s)
  case Nil
  then have "scanned pre non opt [] s" by simp
  from next_ends [OF this Nil.prems(4), of options FLAG_PERMUTE] show ?case
    using Nil.prems by (auto simp: answers_def find_and_take_def option_words_def)
next
  case (Cons r rs)
  show ?case
  proof (cases "is_operand r")
    case True
    then obtain x where r: "r = Operand x" by (cases r) auto
    then have "scanned pre non opt (x # concat (map (words_of los) rs)) s" "valid options los (Operand x)" using Cons.prems by simp_all
    from next_skips [OF this(1) Cons.prems(4) this(2), of FLAG_PERMUTE] obtain s' where s':
      "next_argument (int (length (nargv s))) options FLAG_PERMUTE s = next_argument (int (length (nargv s'))) options FLAG_PERMUTE s'"
      "scanned (pre @ opt) (non @ [x]) [] (concat (map (words_of los) rs)) s'" "between s'" "optarg s' = optarg s" "posixly_correct s' = posixly_correct s"
      by auto
    have n: "length (nargv s') = length (nargv s)" using s'(2) Cons.prems(3) r by (simp add: scanned_def)
    have "answers options los (pre @ opt) (non @ [x]) [] rs (find_and_take options los idx s')"
      using Cons.IH [of "pre @ opt" "non @ [x]" "[]" s'] Cons.prems s' by simp
    moreover have "find_and_take options los idx s' = find_and_take options los idx s" using s'(1) unfolding find_and_take_def n by simp
    ultimately show ?thesis using r by (simp add: answers_def option_words_def cong: list.case_cong)
  next
    case False
    have v: "valid options los r" using Cons.prems by simp
    obtain t args where w: "words_of los r = (CHR ''-'' # t) # args" "t \<noteq> []" "t \<noteq> ''-''" using request_head [OF assms(1) v False] by blast
    let ?rest = "concat (map (words_of los) rs)"
    have sc: "scanned pre non opt (words_of los r @ ?rest) s" using Cons.prems by simp
    then have "scanned pre non opt ((CHR ''-'' # t) # args @ ?rest) s" using w by simp
    from next_enters [OF this Cons.prems(4) w(2,3), of options FLAG_PERMUTE] obtain s1 where s1:
      "next_argument (int (length (nargv s))) options FLAG_PERMUTE s = Some (None, s1)" "nargv s1 = nargv s" "optind s1 = optind s"
      "place s1 = t" "place_off s1 = 1" "optreset s1 = 0" "optarg s1 = None" "posixly_correct s1 = 0" "nonopt_start s1 = nonopt_start s"
      "nonopt_end s1 = (if non = [] then -1 else int (length pre + length non))" using Cons.prems(5,6) by auto
    have "nargv s1 = (pre @ non @ opt) @ words_of los r @ ?rest" "optind s1 = int (length (pre @ non @ opt))"
      using sc s1(2,3) by (simp_all add: scanned_def)
    from take_request [OF assms(1) v False this, of FLAG_PERMUTE idx] obtain c a s2 where s2:
      "meaning los r = [(c, a)]" "c \<noteq> -1" "take_option (int (length (nargv s))) options los idx FLAG_PERMUTE s1 = Some (c, s2)"
      "taken s1 (length (words_of los r)) a s2" using w s1 by auto
    have "scanned (if non = [] then pre @ words_of los r else pre) non (if non = [] then [] else opt @ words_of los r) ?rest s2"
      using taken_scanned [OF sc s1(2,3,9,10) s2(4)] w(1) by simp
    then have "waiting options los (if non = [] then pre @ words_of los r else pre) non (if non = [] then [] else opt @ words_of los r) rs s2"
      using assms(1) Cons.prems s2(4) s1(6,8) by (simp add: waiting_def between_def taken_def same_vector_def)
    moreover have "find_and_take options los idx s = Some (c, s2)" using s1(1) s2(3) by (simp add: find_and_take_def)
    moreover have "optarg s2 = a" using s2(4) by (simp add: taken_def)
    moreover have "non = [] \<longrightarrow> opt = []" using sc by (simp add: scanned_def)
    moreover have "option_words los (r # rs) = words_of los r @ option_words los rs" using False by (simp add: option_words_def)
    ultimately show ?thesis
      using s2(1,2) operands_option [OF False, of rs]
      by (simp add: answers_def) (intro exI conjI, assumption, auto)
  qed
qed

lemma getopt_long_answers:
  assumes "waiting options los pre non opt rs s"
  shows "answers options los pre non opt rs (getopt_long False (int (length (nargv s))) (Some options) los idx s)"
proof -
  let ?s = "s\<lparr>posixly_correct := 0, optarg := None\<rparr>"
  have w: "tables_ok options los" "list_all (valid options los) rs" "pre \<noteq> []" "scanned pre non opt (concat (map (words_of los) rs)) s" "between s"
    "posixly_correct s \<in> {-1, 0}" using assms by (simp_all add: waiting_def)
  have "optind s \<noteq> 0" using w(3,4) by (cases pre) (auto simp: scanned_def)
  moreover have "\<not> first_is options (CHR ''+'')" "\<not> first_is options (CHR ''-'')" using w(1) by (simp_all add: tables_ok_def)
  ultimately have "getopt_long False (int (length (nargv s))) (Some options) los idx s = find_and_take options los idx ?s"
    by (simp add: getopt_long_unfold [OF w(6,5)] find_and_take_def cong: option.case_cong)
  moreover have "scanned pre non opt (concat (map (words_of los) rs)) ?s" "between ?s" using w(4,5) by (simp_all add: scanned_def between_def)
  ultimately show ?thesis using find_and_take_answers [OF w(1-3), of non opt ?s idx] by simp
qed

lemma words_length: "length (concat (map (words_of los) rs)) = length (option_words los rs) + length (operands rs)"
proof (induction rs)
  case (Cons r rs)
  then show ?case by (cases r) (simp_all add: option_words_def)
qed (simp add: option_words_def)

lemma waiting_length:
  "waiting options los pre non opt rs s \<Longrightarrow> length (nargv s) = length (pre @ opt @ option_words los rs) + length (non @ operands rs)"
  by (simp add: waiting_def scanned_def words_length)

text \<open>A sequence of calls, and what they deliver.\<close>

fun calls :: "nat \<Rightarrow> int \<Rightarrow> string \<Rightarrow> long_option list \<Rightarrow> bool \<Rightarrow> getopt_state \<Rightarrow> ((int \<times> string option) list \<times> getopt_state) option" where
  "calls 0 nargc options los idx s = Some ([], s)"
| "calls (Suc n) nargc options los idx s = do {
     (c, s) \<leftarrow> getopt_long False nargc (Some options) los idx s;
     (rs, s') \<leftarrow> calls n nargc options los idx s;
     Some ((c, optarg s) # rs, s')
   }"

lemma calls_waiting:
  assumes "waiting options los pre non opt rs s"
  shows "\<exists>s'. calls (length (concat (map (meaning los) rs)) + 1) (int (length (nargv s))) options los idx s
      = Some (concat (map (meaning los) rs) @ [(-1, None)], s')
    \<and> nargv s' = pre @ opt @ option_words los rs @ non @ operands rs \<and> optind s' = int (length (pre @ opt @ option_words los rs))"
  using assms
proof (induction "concat (map (meaning los) rs)" arbitrary: pre non opt rs s)
  case Nil
  have ms: "concat (map (meaning los) rs) = []" using Nil.hyps by simp
  then show ?case using getopt_long_answers [OF Nil.prems, of idx] unfolding answers_def ms by auto
next
  case (Cons m ms)
  have ms: "concat (map (meaning los) rs) = m # ms" using Cons.hyps(2) by simp
  obtain s1 pre' non' opt' rs' where a: "getopt_long False (int (length (nargv s))) (Some options) los idx s = Some (fst m, s1)" "optarg s1 = snd m"
    "waiting options los pre' non' opt' rs' s1" "concat (map (meaning los) rs') = ms"
    "pre' @ opt' @ option_words los rs' = pre @ opt @ option_words los rs" "non' @ operands rs' = non @ operands rs"
    using getopt_long_answers [OF Cons.prems, of idx] ms by (auto simp: answers_def)
  have n: "length (nargv s1) = length (nargv s)" using waiting_length [OF a(3)] waiting_length [OF Cons.prems] a(5,6) by simp
  obtain s2 where s2: "calls (length ms + 1) (int (length (nargv s1))) options los idx s1 = Some (ms @ [(-1, None)], s2)"
    "nargv s2 = pre' @ opt' @ option_words los rs' @ non' @ operands rs'" "optind s2 = int (length (pre' @ opt' @ option_words los rs'))"
    using Cons.hyps(1) [OF a(4) [symmetric] a(3)] a(4) by auto
  have "nargv s2 = pre @ opt @ option_words los rs @ non @ operands rs" using s2(2) a(5,6) by (metis append_assoc)
  moreover have "calls (Suc (length ms + 1)) (int (length (nargv s))) options los idx s = Some (m # ms @ [(-1, None)], s2)"
    using a(1,2) s2(1) n by (subst calls.simps(2)) (simp del: calls.simps)
  ultimately show ?case using s2(3) ms a(5) by (simp del: calls.simps)
qed

text \<open>
  C17: option parsing inverts the writing of a command line.  For any list of options in any of their
  forms, mixed with operands, successive calls of \<open>getopt_long\<close> return exactly the options with
  their arguments, in order, and then the end; after that the vector holds the program name, the
  words of the options, and the operands in their order, and \<open>optind\<close> is the index of the first
  operand.
\<close>

theorem getopt_long_roundtrip:
  assumes "tables_ok options los" and "list_all (valid options los) rs"
    and "argv = prog # concat (map (words_of los) rs)"
  shows "\<exists>s. calls (length (concat (map (meaning los) rs)) + 1) (int (length argv)) options los idx (getopt_start argv)
      = Some (concat (map (meaning los) rs) @ [(-1, None)], s)
    \<and> nargv s = prog # option_words los rs @ operands rs \<and> optind s = int (length (option_words los rs)) + 1"
proof -
  have "waiting options los [prog] [] [] rs (getopt_start argv)"
    using assms by (simp add: waiting_def scanned_def between_def getopt_start_def)
  from calls_waiting [OF this, of idx] show ?thesis using assms(3) by (auto simp: getopt_start_def)
qed

definition size_option :: long_option where
  "size_option = \<lparr>opt_name = ''size'', has_arg = required_argument, opt_flag = None, opt_val = 115\<rparr>"

theorem getopt_long_roundtrip_witness:
  "\<exists>s. calls 4 6 ''ab:'' [size_option] False (getopt_start [''p'', ''-a'', ''x'', ''--size'', ''3'', ''-by''])
      = Some ([(97, None), (115, Some ''3''), (98, Some ''y''), (-1, None)], s)
    \<and> nargv s = [''p'', ''-a'', ''--size'', ''3'', ''-by'', ''x''] \<and> optind s = 5"
proof -
  have ok: "tables_ok ''ab:'' [size_option]" by (simp add: tables_ok_def first_is_def size_option_def)
  have "list_all (valid ''ab:'' [size_option]) [Flag (CHR ''a''), Operand ''x'', Name_arg 0 ''3'', Glued (CHR ''b'') ''y'']"
    by (simp add: letter_def letter_tail_def strchr_def char_int_def first_is_def size_option_def)
  from getopt_long_roundtrip [OF ok this refl, of "''p''" False] show ?thesis
    by (simp add: option_words_def char_int_def size_option_def eval_nat_numeral del: calls.simps)
qed

end
