(* ===== verification/Client_Args.thy ===== *)
theory Client_Args
  imports Getopt_Spec Floats
begin

text \<open>
  \<^verbatim>\<open>native_client/args.h\<close>: the options of the command line client.

  The global variables that hold the options are a record.  \<open>next_opt\<close> is the call of
  \<^verbatim>\<open>getopt_long\<close> in the loop: the returned value, \<^verbatim>\<open>optarg\<close> and the new state of the parser.  On
  Windows this is the parser of \<^verbatim>\<open>getopt_win.h\<close>; elsewhere it belongs to the C library.  \<open>strtod\<close>
  reads a floating point number.
\<close>

section \<open>Options\<close>

record client_args =
  a_model :: "string option"
  a_scorer :: "string option"
  a_audio :: "string option"
  set_beamwidth :: bool
  a_beam_width :: int
  set_alphabeta :: bool
  lm_alpha :: fval
  lm_beta :: fval
  show_times :: bool
  has_versions :: bool
  extended_metadata :: bool
  json_output :: bool
  json_candidate_transcripts :: int
  stream_size :: int
  extended_stream_size :: int
  a_hot_words :: "string option"

definition default_args :: client_args where
  "default_args = \<lparr>a_model = None, a_scorer = None, a_audio = None, set_beamwidth = False, a_beam_width = 0, set_alphabeta = False,
     lm_alpha = Fin 0 0, lm_beta = Fin 0 0, show_times = False, has_versions = False, extended_metadata = False, json_output = False,
     json_candidate_transcripts = 3, stream_size = 0, extended_stream_size = 0, a_hot_words = None\<rparr>"

definition short_opts :: string where
  "short_opts = ''m:l:a:b:c:d:tejs:w:vh''"

definition long_opts :: "long_option list" where
  "long_opts = map (\<lambda>(name, arg, v). \<lparr>opt_name = name, has_arg = arg, opt_flag = None, opt_val = v\<rparr>)
     [(''model'', required_argument, char_int (CHR ''m'')),
      (''scorer'', required_argument, char_int (CHR ''l'')),
      (''audio'', required_argument, char_int (CHR ''a'')),
      (''beam_width'', required_argument, char_int (CHR ''b'')),
      (''lm_alpha'', required_argument, char_int (CHR ''c'')),
      (''lm_beta'', required_argument, char_int (CHR ''d'')),
      (''t'', no_argument, char_int (CHR ''t'')),
      (''extended'', no_argument, char_int (CHR ''e'')),
      (''json'', no_argument, char_int (CHR ''j'')),
      (''candidate_transcripts'', required_argument, 150),
      (''stream'', required_argument, char_int (CHR ''s'')),
      (''extended_stream'', required_argument, char_int (CHR ''S'')),
      (''hot_words'', required_argument, char_int (CHR ''w'')),
      (''version'', no_argument, char_int (CHR ''v'')),
      (''help'', no_argument, char_int (CHR ''h''))]"

text \<open>\<^verbatim>\<open>atoi\<close>: white space, a sign, digits; a value outside the range of \<^verbatim>\<open>int\<close> is undefined.\<close>

definition digit_val :: "char \<Rightarrow> int option" where
  "digit_val c = (let n = of_char c in if 48 \<le> n \<and> n \<le> (57 :: int) then Some (n - 48) else None)"

fun digits_val :: "int \<Rightarrow> string \<Rightarrow> int" where
  "digits_val acc [] = acc"
| "digits_val acc (c # s) = (case digit_val c of Some d \<Rightarrow> digits_val (10 * acc + d) s | None \<Rightarrow> acc)"

definition atoi :: "string \<Rightarrow> int option" where
  "atoi s =
     (let s = dropWhile (\<lambda>c. c \<in> {CHR '' '', CHR 0x09, CHR 0x0A, CHR 0x0B, CHR 0x0C, CHR 0x0D}) s;
          n = (case s of
                 c # r \<Rightarrow> if c = CHR ''-'' then - digits_val 0 r else if c = CHR ''+'' then digits_val 0 r else digits_val 0 s
               | [] \<Rightarrow> 0)
      in if - (2 ^ 31) \<le> n \<and> n < 2 ^ 31 then Some n else None)"

text \<open>One iteration of the loop; \<open>Inl\<close> is the exit code of \<^verbatim>\<open>PrintHelp\<close>.  Reading a number from a
  null pointer is \<open>None\<close>.\<close>

definition process_opt :: "(string \<Rightarrow> fval) \<Rightarrow> int \<Rightarrow> string option \<Rightarrow> client_args \<Rightarrow> (int + client_args) option" where
  "process_opt strtod opt arg A =
     (if opt = char_int (CHR ''m'') then Some (Inr (A\<lparr>a_model := arg\<rparr>))
      else if opt = char_int (CHR ''l'') then Some (Inr (A\<lparr>a_scorer := arg\<rparr>))
      else if opt = char_int (CHR ''a'') then Some (Inr (A\<lparr>a_audio := arg\<rparr>))
      else if opt = char_int (CHR ''b'') then do { n \<leftarrow> Option.bind arg atoi; Some (Inr (A\<lparr>set_beamwidth := True, a_beam_width := n\<rparr>)) }
      else if opt = char_int (CHR ''c'') then do { s \<leftarrow> arg; Some (Inr (A\<lparr>set_alphabeta := True, lm_alpha := to_float (strtod s)\<rparr>)) }
      else if opt = char_int (CHR ''d'') then do { s \<leftarrow> arg; Some (Inr (A\<lparr>set_alphabeta := True, lm_beta := to_float (strtod s)\<rparr>)) }
      else if opt = char_int (CHR ''t'') then Some (Inr (A\<lparr>show_times := True\<rparr>))
      else if opt = char_int (CHR ''e'') then Some (Inr (A\<lparr>extended_metadata := True\<rparr>))
      else if opt = char_int (CHR ''j'') then Some (Inr (A\<lparr>json_output := True\<rparr>))
      else if opt = 150 then do { n \<leftarrow> Option.bind arg atoi; Some (Inr (A\<lparr>json_candidate_transcripts := n\<rparr>)) }
      else if opt = char_int (CHR ''s'') then do { n \<leftarrow> Option.bind arg atoi; Some (Inr (A\<lparr>stream_size := n\<rparr>)) }
      else if opt = char_int (CHR ''S'') then do { n \<leftarrow> Option.bind arg atoi; Some (Inr (A\<lparr>extended_stream_size := n\<rparr>)) }
      else if opt = char_int (CHR ''v'') then Some (Inr (A\<lparr>has_versions := True\<rparr>))
      else if opt = char_int (CHR ''w'') then Some (Inr (A\<lparr>a_hot_words := arg\<rparr>))
      else Some (Inl 1))"

partial_function (option) args_loop ::
    "(string \<Rightarrow> fval) \<Rightarrow> ('g \<Rightarrow> (int \<times> string option \<times> 'g) option) \<Rightarrow> 'g \<Rightarrow> client_args \<Rightarrow> (int + client_args) option" where
  "args_loop strtod next_opt g A = do {
     (opt, arg, g) \<leftarrow> next_opt g;
     if opt = -1 then Some (Inr A)
     else do {
       r \<leftarrow> process_opt strtod opt arg A;
       case r of Inl code \<Rightarrow> Some (Inl code) | Inr A \<Rightarrow> args_loop strtod next_opt g A
     }
   }"

text \<open>What follows the loop.  The result is the exit code of \<^verbatim>\<open>PrintHelp\<close>, or the returned flag and
  the variables.\<close>

definition check_args :: "client_args \<Rightarrow> int + bool \<times> client_args" where
  "check_args A =
     (if has_versions A then Inr (False, A)
      else if a_model A = None \<or> a_audio A = None then Inl 1
      else if (stream_size A < 0 \<or> stream_size A smod 160 \<noteq> 0) \<or> (extended_stream_size A < 0 \<or> extended_stream_size A smod 160 \<noteq> 0)
      then Inr (False, A)
      else Inr (True, A))"

definition ProcessArgs :: "(string \<Rightarrow> fval) \<Rightarrow> ('g \<Rightarrow> (int \<times> string option \<times> 'g) option) \<Rightarrow> 'g \<Rightarrow> (int + bool \<times> client_args) option" where
  "ProcessArgs strtod next_opt g = do {
     r \<leftarrow> args_loop strtod next_opt g default_args;
     case r of Inl code \<Rightarrow> Some (Inl code) | Inr A \<Rightarrow> Some (check_args A)
   }"

text \<open>The parser of the Windows build.\<close>

definition win_next_opt :: "int \<Rightarrow> getopt_state \<Rightarrow> (int \<times> string option \<times> getopt_state) option" where
  "win_next_opt argc s = map_option (\<lambda>(c, s). (c, optarg s, s)) (getopt_long False argc (Some short_opts) long_opts False s)"

section \<open>The contract of the option parser\<close>

text \<open>The options in order, until one of them asks for help.\<close>

fun process_opts :: "(string \<Rightarrow> fval) \<Rightarrow> (int \<times> string option) list \<Rightarrow> client_args \<Rightarrow> (int + client_args) option" where
  "process_opts strtod [] A = Some (Inr A)"
| "process_opts strtod (m # ms) A = do {
     r \<leftarrow> process_opt strtod (fst m) (snd m) A;
     case r of Inl code \<Rightarrow> Some (Inl code) | Inr A \<Rightarrow> process_opts strtod ms A
   }"


text \<open>The client relies on a parser that delivers the options of a command line one by one.
  \<open>pending os g\<close>: the options \<open>os\<close> are still to be delivered.\<close>

locale option_source =
  fixes next_opt :: "'g \<Rightarrow> (int \<times> string option \<times> 'g) option"
    and pending :: "(int \<times> string option) list \<Rightarrow> 'g \<Rightarrow> bool"
  assumes next_pending: "pending (m # ms) g \<Longrightarrow> fst m \<noteq> -1 \<and> (\<exists>g'. next_opt g = Some (fst m, snd m, g') \<and> pending ms g')"
    and next_done: "pending [] g \<Longrightarrow> \<exists>a g'. next_opt g = Some (-1, a, g')"
begin

lemma args_loop_pending: "pending ms g \<Longrightarrow> args_loop strtod next_opt g A = process_opts strtod ms A"
proof (induction ms arbitrary: g A)
  case Nil
  then show ?case using next_done by (subst args_loop.simps) fastforce
next
  case (Cons m ms)
  obtain g' where "fst m \<noteq> -1" "next_opt g = Some (fst m, snd m, g')" "pending ms g'" using next_pending [OF Cons.prems] by blast
  then show ?case using Cons.IH [of g'] by (subst args_loop.simps) (auto cong: sum.case_cong intro!: bind_option_cong split: sum.splits)
qed

lemma ProcessArgs_pending:
  "pending ms g \<Longrightarrow> ProcessArgs strtod next_opt g =
     Option.bind (process_opts strtod ms default_args) (\<lambda>r. case r of Inl code \<Rightarrow> Some (Inl code) | Inr A \<Rightarrow> Some (check_args A))"
  by (simp add: ProcessArgs_def args_loop_pending)

end

text \<open>The parser of \<^verbatim>\<open>getopt_win.h\<close> on the tables of the client.\<close>

definition win_pending :: "int \<Rightarrow> (int \<times> string option) list \<Rightarrow> getopt_state \<Rightarrow> bool" where
  "win_pending argc ms s \<longleftrightarrow> (\<exists>pre non opt rs. waiting short_opts long_opts pre non opt rs s \<and> ms = concat (map (meaning long_opts) rs)
     \<and> argc = int (length (nargv s)))"

lemma client_tables_ok: "tables_ok short_opts long_opts"
  by (simp add: tables_ok_def short_opts_def long_opts_def first_is_def char_int_def)

interpretation win: option_source "win_next_opt argc" "win_pending argc"
proof
  fix m ms g
  assume "win_pending argc (m # ms) g"
  then obtain pre non opt rs where w: "waiting short_opts long_opts pre non opt rs g" "concat (map (meaning long_opts) rs) = m # ms"
    "argc = int (length (nargv g))" by (auto simp: win_pending_def)
  obtain s' pre' non' opt' rs' where a: "fst m \<noteq> -1" "getopt_long False argc (Some short_opts) long_opts False g = Some (fst m, s')" "optarg s' = snd m"
    "waiting short_opts long_opts pre' non' opt' rs' s'" "concat (map (meaning long_opts) rs') = ms"
    "pre' @ opt' @ option_words long_opts rs' = pre @ opt @ option_words long_opts rs" "non' @ operands rs' = non @ operands rs"
    using getopt_long_answers [OF w(1), of False] w(2,3) by (auto simp: answers_def)
  have "length (nargv s') = length (nargv g)" using waiting_length [OF a(4)] waiting_length [OF w(1)] a(6,7) by simp
  then have "win_pending argc ms s'" using a(4,5) w(3) by (auto simp: win_pending_def)
  then show "fst m \<noteq> -1 \<and> (\<exists>g'. win_next_opt argc g = Some (fst m, snd m, g') \<and> win_pending argc ms g')"
    using a(1-3) by (simp add: win_next_opt_def)
next
  fix g
  assume "win_pending argc [] g"
  then obtain pre non opt rs where w: "waiting short_opts long_opts pre non opt rs g" "concat (map (meaning long_opts) rs) = []"
    "argc = int (length (nargv g))" unfolding win_pending_def by metis
  show "\<exists>a g'. win_next_opt argc g = Some (-1, a, g')"
    using getopt_long_answers [OF w(1), of False] unfolding answers_def w(2) w(3) win_next_opt_def by auto
qed

lemma ProcessArgs_requests:
  assumes "list_all (valid short_opts long_opts) rs" and "argv = prog # concat (map (words_of long_opts) rs)"
  shows "ProcessArgs strtod (win_next_opt (int (length argv))) (getopt_start argv) =
    Option.bind (process_opts strtod (concat (map (meaning long_opts) rs)) default_args)
      (\<lambda>r. case r of Inl code \<Rightarrow> Some (Inl code) | Inr A \<Rightarrow> Some (check_args A))"
proof -
  have "waiting short_opts long_opts [prog] [] [] rs (getopt_start argv)"
    using assms client_tables_ok by (simp add: waiting_def scanned_def between_def getopt_start_def)
  moreover have "nargv (getopt_start argv) = argv" by (simp add: getopt_start_def)
  ultimately have "win_pending (int (length argv)) (concat (map (meaning long_opts) rs)) (getopt_start argv)"
    unfolding win_pending_def by metis
  then show ?thesis by (rule win.ProcessArgs_pending)
qed



end
