(* ===== verification/Client.thy ===== *)
theory Client
  imports Client_Args Api_Spec
begin

text \<open>
  \<^verbatim>\<open>native_client/client.cc\<close>: the command line client.

  Its effects are the lines it prints on the standard output and its exit code.  The parts of the
  C library whose result the program only passes on are arguments: \<open>strtod\<close> and \<open>strtof\<close> read
  numbers, \<open>show_num\<close> prints one.  The audio is read by the branch for builds without the SoX
  library; the contents of a file are what a stream opened with mode \<^verbatim>\<open>r\<close> reads.
\<close>

section \<open>Printing transcripts\<close>

record meta_word =
  mw_word :: string
  mw_start_time :: fval
  mw_duration :: fval

definition CandidateTranscriptToString :: "candidate_transcript \<Rightarrow> string" where
  "CandidateTranscriptToString transcript = c_str (foldl (\<lambda>retval token. retval @ tm_text token) [] (ct_tokens transcript))"

text \<open>The loop over the tokens; its state is \<open>(word_list, word, word_start_time)\<close>.\<close>

fun words_loop :: "token_metadata list \<Rightarrow> meta_word list \<Rightarrow> string \<Rightarrow> fval \<Rightarrow> meta_word list" where
  "words_loop [] word_list word word_start_time = word_list"
| "words_loop (token # toks) word_list word word_start_time =
     (let space = (tm_text token = '' '');
          word_start_time = (if \<not> space \<and> length word = 0 then tm_start_time token else word_start_time);
          word = (if \<not> space then word @ tm_text token else word)
      in if space \<or> toks = [] then
           let word_duration = fsub binary32 (tm_start_time token) word_start_time;
               word_duration = (if flt word_duration (Fin 0 0) then Fin 0 0 else word_duration);
               w = \<lparr>mw_word = word, mw_start_time = word_start_time, mw_duration = word_duration\<rparr>
           in words_loop toks (word_list @ [w]) [] (Fin 0 0)
         else words_loop toks word_list word word_start_time)"

definition CandidateTranscriptToWords :: "candidate_transcript \<Rightarrow> meta_word list" where
  "CandidateTranscriptToWords transcript = words_loop (ct_tokens transcript) [] [] (Fin 0 0)"

definition dq :: string where
  "dq = [CHR 0x22]"

text \<open>A word is printed between quotes as it is.\<close>

definition word_json :: "(fval \<Rightarrow> string) \<Rightarrow> meta_word \<Rightarrow> string" where
  "word_json show_num w = ''{'' @ dq @ ''word'' @ dq @ '':'' @ dq @ mw_word w @ dq @ '','' @ dq @ ''time'' @ dq @ '':'' @ show_num (mw_start_time w)
     @ '','' @ dq @ ''duration'' @ dq @ '':'' @ show_num (mw_duration w) @ ''}''"

fun words_json :: "(fval \<Rightarrow> string) \<Rightarrow> meta_word list \<Rightarrow> string" where
  "words_json show_num [] = []"
| "words_json show_num (w # ws) = word_json show_num w @ (if ws \<noteq> [] then '','' else []) @ words_json show_num ws"

definition CandidateTranscriptToJSON :: "(fval \<Rightarrow> string) \<Rightarrow> candidate_transcript \<Rightarrow> string" where
  "CandidateTranscriptToJSON show_num transcript =
     dq @ ''metadata'' @ dq @ '':{'' @ dq @ ''confidence'' @ dq @ '':'' @ show_num (ct_confidence transcript) @ ''},'' @ dq @ ''words'' @ dq @ '':[''
     @ words_json show_num (CandidateTranscriptToWords transcript) @ '']''"

text \<open>The loop over the alternatives; \<open>n\<close> is the number of transcripts and \<open>j\<close> the position.\<close>

fun alternatives_json :: "(fval \<Rightarrow> string) \<Rightarrow> nat \<Rightarrow> nat \<Rightarrow> candidate_transcript list \<Rightarrow> string" where
  "alternatives_json show_num n j [] = []"
| "alternatives_json show_num n j (t # ts) =
     (if j = 0 then CandidateTranscriptToJSON show_num t @ (if 1 < n then '',\<newline>'' @ dq @ ''alternatives'' @ dq @ '':[\<newline>'' else [])
      else ''{'' @ CandidateTranscriptToJSON show_num t @ ''}'' @ (if j < n - 1 then '',\<newline>'' else ''\<newline>]''))
     @ alternatives_json show_num n (j + 1) ts"

definition MetadataToJSON :: "(fval \<Rightarrow> string) \<Rightarrow> metadata \<Rightarrow> string" where
  "MetadataToJSON show_num result = c_str (''{\<newline>'' @ alternatives_json show_num (length result) 0 result @ ''\<newline>}\<newline>'')"

section \<open>Recognition\<close>

text \<open>The loop of the streaming modes.  \<open>partial\<close> reads an intermediate result; a line is printed
  when it differs from the last one.\<close>

function stream_loop ::
    "cxx \<Rightarrow> 's model_state \<Rightarrow> ('s streaming_state \<Rightarrow> string option) \<Rightarrow> nat \<Rightarrow> 16 word list \<Rightarrow> string option \<Rightarrow> string list \<Rightarrow> 's streaming_state
       \<Rightarrow> (string list \<times> 's streaming_state) option" where
  "stream_loop env M partial chunk samples lastp lines ctx =
     (if samples = [] \<or> chunk = 0 then Some (lines, ctx)
      else do {
        let cur = (if length samples > chunk then chunk else length samples);
        ctx \<leftarrow> DS_FeedAudioContent env M (take cur samples) ctx;
        p \<leftarrow> partial ctx;
        if lastp = None \<or> lastp \<noteq> Some p then stream_loop env M partial chunk (drop cur samples) (Some p) (lines @ [p]) ctx
        else stream_loop env M partial chunk (drop cur samples) lastp lines ctx
      })"
  by pat_completeness auto
termination by (relation "measure (\<lambda>(env, M, partial, chunk, samples, lastp, lines, ctx). length samples)") auto

declare stream_loop.simps [simp del]

definition first_transcript :: "metadata \<Rightarrow> string option" where
  "first_transcript result = map_option CandidateTranscriptToString (nth_opt result 0)"

text \<open>The lines printed and the text; the times are left out.\<close>

definition LocalDsSTT :: "cxx \<Rightarrow> (fval \<Rightarrow> string) \<Rightarrow> client_args \<Rightarrow> 's model_state \<Rightarrow> 16 word list \<Rightarrow> (string list \<times> string) option" where
  "LocalDsSTT env show_num A M samples =
     (if extended_metadata A then do {
        result \<leftarrow> DS_SpeechToTextWithMetadata env M samples 1;
        s \<leftarrow> first_transcript result;
        Some ([], s)
      }
      else if json_output A then do {
        result \<leftarrow> DS_SpeechToTextWithMetadata env M samples (word_of_int (json_candidate_transcripts A));
        Some ([], MetadataToJSON show_num result)
      }
      else if stream_size A > 0 then
        (case DS_CreateStream M of (status, ctx) \<Rightarrow>
           if status \<noteq> ds_code DS_ERR_OK then Some ([], [])
           else do {
             ctx \<leftarrow> ctx;
             (lines, ctx) \<leftarrow> stream_loop env M (DS_IntermediateDecode env M) (nat (stream_size A)) samples None [] ctx;
             s \<leftarrow> DS_FinishStream env M ctx;
             Some (lines, s)
           })
      else if extended_stream_size A > 0 then
        (case DS_CreateStream M of (status, ctx) \<Rightarrow>
           if status \<noteq> ds_code DS_ERR_OK then Some ([], [])
           else do {
             ctx \<leftarrow> ctx;
             (lines, ctx) \<leftarrow> stream_loop env M (\<lambda>ctx. Option.bind (DS_IntermediateDecodeWithMetadata env M 1 ctx) first_transcript)
               (nat (extended_stream_size A)) samples None [] ctx;
             result \<leftarrow> DS_FinishStreamWithMetadata env M 1 ctx;
             s \<leftarrow> first_transcript result;
             Some (lines, s)
           })
      else do {
        s \<leftarrow> DS_SpeechToText env M samples;
        Some ([], s)
      })"

section \<open>Audio files\<close>

text \<open>A read of \<open>k\<close> bytes at an offset, as a little-endian number.  After a short read the variable
  has no value: \<open>None\<close>.\<close>

definition read_le :: "nat \<Rightarrow> nat \<Rightarrow> string \<Rightarrow> nat option" where
  "read_le off k wave = (if off + k \<le> length wave then Some (foldr (\<lambda>c n. of_char c + 256 * n) (take k (drop off wave)) 0) else None)"

text \<open>The file is \<open>None\<close> when it cannot be opened.\<close>

definition GetAudioBuffer :: "bool \<Rightarrow> string option \<Rightarrow> int \<Rightarrow> string option" where
  "GetAudioBuffer ndebug path desired_sample_rate = do {
     wave \<leftarrow> path;
     audio_format \<leftarrow> read_le 20 2 wave;
     num_channels \<leftarrow> read_le 22 2 wave;
     rate \<leftarrow> read_le 24 4 wave;
     bits_per_sample \<leftarrow> read_le 34 2 wave;
     c_assert ndebug (audio_format = 1);
     c_assert ndebug (num_channels = 1);
     c_assert ndebug (int rate = desired_sample_rate mod 2 ^ 32);
     c_assert ndebug (bits_per_sample = 16);
     buffer_size \<leftarrow> read_le 40 4 wave;
     let buffer = take buffer_size (drop 44 wave);
     if length buffer = buffer_size then Some buffer else None
   }"

text \<open>The buffer read as an array of 16-bit samples.\<close>

fun samples_of :: "string \<Rightarrow> 16 word list" where
  "samples_of (a # b # r) = of_nat (un_le16 a b) # samples_of r"
| "samples_of _ = []"

section \<open>The program\<close>

datatype path_kind = Regular | Directory "string list option" | Other string

record 's client_world =
  w_env :: cxx
  w_ndebug :: bool
  w_no_dir :: bool
  w_new_model :: "string \<Rightarrow> int \<times> 's model_state"
  w_lib :: "'s lib"
  w_strtod :: "string \<Rightarrow> fval"
  w_strtof :: "string \<Rightarrow> fval"
  w_show_num :: "fval \<Rightarrow> string"
  w_time_line :: string
  w_stat :: "string \<Rightarrow> path_kind option"
  w_contents :: "string \<Rightarrow> string option"

definition ProcessFile :: "'s client_world \<Rightarrow> client_args \<Rightarrow> 's model_state \<Rightarrow> string \<Rightarrow> string list option" where
  "ProcessFile W A context path = do {
     audio \<leftarrow> GetAudioBuffer (w_ndebug W) (w_contents W path) (DS_GetModelSampleRate context);
     (lines, result) \<leftarrow> LocalDsSTT (w_env W) (w_show_num W) A context (take (length audio div 2) (samples_of audio));
     Some (lines @ [result] @ (if show_times A then [w_time_line W] else []))
   }"

text \<open>\<^verbatim>\<open>strtok\<close>: the next token and what is left after its delimiter.\<close>

definition strtok :: "string \<Rightarrow> string \<Rightarrow> (string \<times> string) option" where
  "strtok delim s =
     (case dropWhile (\<lambda>c. c \<in> set delim) s of
        [] \<Rightarrow> None
      | r \<Rightarrow> Some (takeWhile (\<lambda>c. c \<notin> set delim) r, drop 1 (dropWhile (\<lambda>c. c \<notin> set delim) r)))"

lemma strtok_shorter:
  assumes "strtok delim s = Some (tok, r)"
  shows "length r < length s"
proof -
  obtain c u where u: "dropWhile (\<lambda>c. c \<in> set delim) s = c # u" "r = drop 1 (dropWhile (\<lambda>c. c \<notin> set delim) (c # u))"
    using assms by (auto simp: strtok_def split: list.splits)
  have "length (c # u) \<le> length s" using length_dropWhile_le [of "\<lambda>c. c \<in> set delim" s] u(1) by simp
  moreover have "length (dropWhile (\<lambda>c. c \<notin> set delim) (c # u)) \<le> length (c # u)" by (rule length_dropWhile_le)
  ultimately show ?thesis using u(2) by simp
qed

function SplitStringOnDelim :: "string \<Rightarrow> string \<Rightarrow> string list" where
  "SplitStringOnDelim in_string delim =
     (case strtok delim in_string of None \<Rightarrow> [] | Some (tok, r) \<Rightarrow> tok # SplitStringOnDelim r delim)"
  by pat_completeness auto
termination by (relation "measure (\<lambda>(s, delim). length s)") (auto dest: strtok_shorter)

declare SplitStringOnDelim.simps [simp del]

text \<open>The loop over the hot words; \<open>Inl\<close> is the exit code.\<close>

fun add_hot_words :: "(string \<Rightarrow> fval) \<Rightarrow> string list \<Rightarrow> 's model_state \<Rightarrow> (int + 's model_state) option" where
  "add_hot_words strtof [] M = Some (Inr M)"
| "add_hot_words strtof (hot_word # hws) M = do {
     let pair = SplitStringOnDelim hot_word '':'';
     word \<leftarrow> nth_opt pair 0;
     boost \<leftarrow> nth_opt pair 1;
     let boost_is_valid = list_all (\<lambda>c. c \<in> set ''-.0123456789'') boost;
     let (status, M) = DS_AddHotWord word (strtof boost) M;
     if status \<noteq> 0 \<or> \<not> boost_is_valid then Some (Inl 1) else add_hot_words strtof hws M
   }"

definition enable_scorer :: "'s client_world \<Rightarrow> client_args \<Rightarrow> 's model_state \<Rightarrow> (int + 's model_state) option" where
  "enable_scorer W A M =
     (case a_scorer A of
        None \<Rightarrow> Some (Inr M)
      | Some scorer \<Rightarrow> do {
          (status, M) \<leftarrow> DS_EnableExternalScorer (w_lib W) scorer M;
          if status \<noteq> 0 then Some (Inl 1)
          else if set_alphabeta A then
            (case DS_SetScorerAlphaBeta (lm_alpha A) (lm_beta A) (M, []) of
               (status, M, _) \<Rightarrow> if status \<noteq> 0 then Some (Inl 1) else Some (Inr M))
          else Some (Inr M)
        })"

definition configure :: "'s client_world \<Rightarrow> client_args \<Rightarrow> 's model_state \<Rightarrow> (int + 's model_state) option" where
  "configure W A M =
     (let (status, M) = (if set_beamwidth A then DS_SetModelBeamWidth (word_of_int (a_beam_width A)) M else (0, M)) in
      if status \<noteq> 0 then Some (Inl 1)
      else do {
        r \<leftarrow> enable_scorer W A M;
        case r of
          Inl code \<Rightarrow> Some (Inl code)
        | Inr M \<Rightarrow>
            (case a_hot_words A of
               None \<Rightarrow> Some (Inr M)
             | Some hws \<Rightarrow> add_hot_words (w_strtof W) (SplitStringOnDelim hws '','') M)
      })"

fun process_directory :: "'s client_world \<Rightarrow> client_args \<Rightarrow> 's model_state \<Rightarrow> string \<Rightarrow> string list \<Rightarrow> string list option" where
  "process_directory W A M audio [] = Some []"
| "process_directory W A M audio (fname # fnames) =
     (if \<not> contains_str ''.wav'' fname then process_directory W A M audio fnames
      else do {
        let path = audio @ ''/'' @ fname;
        lines \<leftarrow> ProcessFile W A M path;
        more \<leftarrow> process_directory W A M audio fnames;
        Some ((''> '' @ path) # lines @ more)
      })"

text \<open>After a failed \<^verbatim>\<open>stat\<close> the mode has no value.  \<^verbatim>\<open>stat\<close> follows links, so it never reports one.\<close>

definition process_audio :: "'s client_world \<Rightarrow> client_args \<Rightarrow> 's model_state \<Rightarrow> string \<Rightarrow> string list option" where
  "process_audio W A M audio =
     (case w_stat W audio of
        None \<Rightarrow> None
      | Some Regular \<Rightarrow> ProcessFile W A M audio
      | Some (Directory listing) \<Rightarrow>
          if w_no_dir W then Some [''Unexpected type for '' @ audio @ '': 16384'']
          else do {
            es \<leftarrow> listing;
            lines \<leftarrow> process_directory W A M audio es;
            Some ((''Running on directory '' @ audio) # lines)
          }
      | Some (Other mode) \<Rightarrow> Some [''Unexpected type for '' @ audio @ '': '' @ mode])"

text \<open>The exit code and the lines on the standard output, apart from those of \<^verbatim>\<open>PrintHelp\<close> and of
  \<^verbatim>\<open>ProcessArgs\<close>.\<close>

definition client_main :: "'s client_world \<Rightarrow> ('g \<Rightarrow> (int \<times> string option \<times> 'g) option) \<Rightarrow> 'g \<Rightarrow> (int \<times> string list) option" where
  "client_main W next_opt g = do {
     r \<leftarrow> ProcessArgs (w_strtod W) next_opt g;
     case r of
       Inl code \<Rightarrow> Some (code, [])
     | Inr (ok, A) \<Rightarrow>
         if \<not> ok then Some (1, [])
         else (case DS_CreateModel (w_new_model W) (a_model A) of
             (status, ctx) \<Rightarrow>
               if status \<noteq> 0 then Some (1, [])
               else do {
                 M \<leftarrow> ctx;
                 r \<leftarrow> configure W A M;
                 case r of
                   Inl code \<Rightarrow> Some (code, [])
                 | Inr M \<Rightarrow> do {
                     audio \<leftarrow> a_audio A;
                     lines \<leftarrow> process_audio W A M audio;
                     Some (0, lines)
                   }
               })
   }"

end
