(* ===== verification/Client_Spec.thy ===== *)
theory Client_Spec
  imports Client
begin

text \<open>
  Properties of the command line client: its modes agree on the text, its words are those of the
  transcript, and from a command line and a file of samples it prints what the library transcribes.
\<close>

section \<open>Modes\<close>

text \<open>The loop of the streaming modes feeds all samples in order, and prints no line twice in a row.\<close>

lemma stream_loop_feeds:
  assumes "stream_loop env M part chunk samples lastp lines ctx = Some (lines', ctx')" "0 < chunk"
    and "distinct_adj lines" "lastp = (if lines = [] then None else Some (last lines))"
  shows "(\<exists>pieces. concat pieces = samples \<and> mfold (DS_FeedAudioContent env M) pieces ctx = Some ctx') \<and> distinct_adj lines'"
  using assms
proof (induction env M part chunk samples lastp lines ctx rule: stream_loop.induct)
  case (1 env M part chunk samples lastp lines ctx)
  show ?case
  proof (cases "samples = []")
    case True
    then have "lines' = lines" "ctx' = ctx" using 1(3) by (simp_all add: stream_loop.simps)
    then show ?thesis using 1(5) True by (auto intro!: exI [of _ "[]"])
  next
    case False
    let ?cur = "if length samples > chunk then chunk else length samples"
    obtain c p where c: "DS_FeedAudioContent env M (take ?cur samples) ctx = Some c" "part c = Some p"
      and r: "(if lastp = None \<or> lastp \<noteq> Some p then stream_loop env M part chunk (drop ?cur samples) (Some p) (lines @ [p]) c
        else stream_loop env M part chunk (drop ?cur samples) lastp lines c) = Some (lines', ctx')"
      using 1(3) False 1(4) by (subst (asm) stream_loop.simps) (auto simp: Let_def split: Option.bind_splits)
    have go: "\<not> (samples = [] \<or> chunk = 0)" using False 1(4) by simp
    have "(\<exists>pieces. concat pieces = drop ?cur samples \<and> mfold (DS_FeedAudioContent env M) pieces c = Some ctx') \<and> distinct_adj lines'"
    proof (cases "lastp = None \<or> lastp \<noteq> Some p")
      case True
      then have d: "distinct_adj (lines @ [p])" using 1(5,6) by (auto simp: distinct_adj_append_iff split: if_splits)
      show ?thesis by (rule 1(1) [OF go refl c True r [unfolded if_P [OF True]] 1(4) d]) simp
    next
      case same: False
      show ?thesis by (rule 1(2) [OF go refl c same r [unfolded if_not_P [OF same]] 1(4-6)])
    qed
    then obtain pieces where "concat pieces = drop ?cur samples" "mfold (DS_FeedAudioContent env M) pieces c = Some ctx'" "distinct_adj lines'" by blast
    then show ?thesis using c(1) by (auto intro!: exI [of _ "take ?cur samples # pieces"])
  qed
qed

lemma to_string_text:
  assumes "no_nul (ms_alphabet M)" "DS_FinishStreamWithMetadata env M 1 st = Some result" "first_transcript result = Some t"
  shows "DS_FinishStream env M st = Some t"
proof -
  obtain tr trs where r: "result = tr # trs" "t = CandidateTranscriptToString tr" using assms(3) by (cases result) (auto simp: first_transcript_def nth_opt_def)
  note m = metadata_text [OF assms(1) assms(2) [unfolded r(1)]]
  have "foldl (\<lambda>retval token. retval @ tm_text token) x toks = x @ concat (map tm_text toks)" for x and toks :: "token_metadata list" by (induction toks arbitrary: x) simp_all
  moreover obtain u where "concat (map tm_text (ct_tokens tr)) = c_str u"
    using m by (auto simp: DS_FinishStream_def finishStream_def ModelState_decode_def split: Option.bind_splits dest: sym)
  then have "c_str (concat (map tm_text (ct_tokens tr))) = concat (map tm_text (ct_tokens tr))" by (simp add: c_str_def)
  ultimately show ?thesis using m r(2) by (simp add: CandidateTranscriptToString_def)
qed

lemma speech_to_text_feed:
  assumes "model_ok M" "mfold (DS_FeedAudioContent env M) pieces (new_stream M) = Some ctx"
  shows "DS_SpeechToText env M (concat pieces) = DS_FinishStream env M ctx"
  using one_call_chunks [OF assms(1) create_stream, of pieces pieces env] assms(2) by simp

lemma with_metadata_text:
  assumes "model_ok M" "no_nul (ms_alphabet M)" "DS_SpeechToTextWithMetadata env M samples 1 = Some result" "first_transcript result = Some t"
  shows "DS_SpeechToText env M samples = Some t"
proof -
  obtain ctx where c: "DS_FeedAudioContent env M samples (new_stream M) = Some ctx" "DS_FinishStreamWithMetadata env M 1 ctx = Some result"
    using assms(3) create_stream [of M]
    by (auto simp: DS_SpeechToTextWithMetadata_def CreateStreamAndFeedAudioContent_def split: Option.bind_splits)
  then show ?thesis using speech_to_text_feed [OF assms(1), of env "[samples]" ctx] to_string_text [OF assms(2) c(2) assms(4)] by simp
qed

text \<open>
  C16: all modes of the client that print text print the same text.  Whether it streams, asks for
  metadata, or makes one call, the text is that of \<open>DS_SpeechToText\<close> on the recording; the lines
  printed on the way never repeat their predecessor, and only the streaming modes print any.
\<close>

theorem client_modes_agree:
  assumes "model_ok M" and "no_nul (ms_alphabet M)" and "\<not> json_output A \<or> extended_metadata A"
    and "LocalDsSTT env show_num A M samples = Some (lines, t)"
  shows "DS_SpeechToText env M samples = Some t \<and> distinct_adj lines
    \<and> (extended_metadata A \<or> stream_size A \<le> 0 \<and> extended_stream_size A \<le> 0 \<longrightarrow> lines = [])"
proof -
  have loop: "(\<exists>pieces. concat pieces = samples \<and> mfold (DS_FeedAudioContent env M) pieces (new_stream M) = Some ctx) \<and> distinct_adj ls"
    if "stream_loop env M part n samples None [] (new_stream M) = Some (ls, ctx)" "0 < n" for part n ls ctx
    using stream_loop_feeds [OF that] by simp
  consider "extended_metadata A" | "\<not> extended_metadata A" "stream_size A > 0"
    | "\<not> extended_metadata A" "stream_size A \<le> 0" "extended_stream_size A > 0"
    | "\<not> extended_metadata A" "stream_size A \<le> 0" "extended_stream_size A \<le> 0" by linarith
  then show ?thesis
  proof cases
    case 1
    then show ?thesis using assms(4) with_metadata_text [OF assms(1,2), of env samples] by (auto simp: LocalDsSTT_def split: Option.bind_splits)
  next
    case 2
    then obtain ctx where c: "stream_loop env M (DS_IntermediateDecode env M) (nat (stream_size A)) samples None [] (new_stream M) = Some (lines, ctx)"
      "DS_FinishStream env M ctx = Some t"
      using assms(3,4) by (auto simp: LocalDsSTT_def create_stream split: Option.bind_splits)
    then show ?thesis using loop [OF c(1)] 2 speech_to_text_feed [OF assms(1), of env] by auto
  next
    case 3
    then obtain ctx result where c: "stream_loop env M (\<lambda>ctx. Option.bind (DS_IntermediateDecodeWithMetadata env M 1 ctx) first_transcript)
        (nat (extended_stream_size A)) samples None [] (new_stream M) = Some (lines, ctx)"
      "DS_FinishStreamWithMetadata env M 1 ctx = Some result" "first_transcript result = Some t"
      using assms(3,4) by (auto simp: LocalDsSTT_def create_stream split: Option.bind_splits)
    then show ?thesis using loop [OF c(1)] 3 speech_to_text_feed [OF assms(1), of env] to_string_text [OF assms(2) c(2,3)] by auto
  next
    case 4
    then show ?thesis using assms(3,4) by (auto simp: LocalDsSTT_def split: Option.bind_splits)
  qed
qed

lemma silent_metadata:
  "DS_SpeechToTextWithMetadata ref_cxx silent_model samples 1 = Some [\<lparr>ct_tokens = [], ct_confidence = Fin 0 0\<rparr>]"
proof -
  have "map_option core (Option.bind (feedAudioContent ref_cxx silent_model samples (new_stream silent_model)) (finalizeStream ref_cxx silent_model))
      = Some (core (new_stream silent_model))"
    using feed_and_finalize [OF silent_model_ok, of ref_cxx samples] silent_steps by simp
  then obtain st st' where st: "feedAudioContent ref_cxx silent_model samples (new_stream silent_model) = Some st"
    "finalizeStream ref_cxx silent_model st = Some st'" "stream_decoder st' = stream_decoder (new_stream silent_model)"
    by (auto simp: core_def split: Option.bind_splits)
  then show ?thesis using silent_decode
    by (simp add: DS_SpeechToTextWithMetadata_def CreateStreamAndFeedAudioContent_def create_stream DS_FeedAudioContent_def
        DS_FinishStreamWithMetadata_def finishStreamWithMetadata_def decode_metadata_def transcript_of_def)
qed

lemma silent_no_nul: "no_nul (ms_alphabet silent_model)"
  by (auto simp: no_nul_def silent_model_def tiny_model_def ModelState_new_def ab_alphabet_def ran_def split: if_splits)

theorem client_modes_agree_witness:
  "LocalDsSTT ref_cxx (\<lambda>_. []) (default_args\<lparr>extended_metadata := True\<rparr>) silent_model [1, 2, 3] = Some ([], [])
   \<and> DS_SpeechToText ref_cxx silent_model [1, 2, 3] = Some []"
proof -
  have "LocalDsSTT ref_cxx (\<lambda>_. []) (default_args\<lparr>extended_metadata := True\<rparr>) silent_model [1, 2, 3] = Some ([], [])"
    by (simp add: LocalDsSTT_def silent_metadata first_transcript_def CandidateTranscriptToString_def c_str_def)
  then show ?thesis using client_modes_agree [OF silent_model_ok silent_no_nul, of "default_args\<lparr>extended_metadata := True\<rparr>"] by simp
qed

section \<open>Words\<close>

fun join_words :: "string list \<Rightarrow> string" where
  "join_words [] = []"
| "join_words [w] = w"
| "join_words (w # ws) = w @ '' '' @ join_words ws"

lemma words_loop_join:
  assumes "toks \<noteq> []"
  shows "\<exists>ws. words_loop toks wl w t = wl @ ws \<and> ws \<noteq> []
    \<and> w @ concat (map tm_text toks) = join_words (map mw_word ws) @ (if tm_text (last toks) = '' '' then '' '' else [])
    \<and> (\<forall>x \<in> set ws. \<not> flt (mw_duration x) (Fin 0 0))
    \<and> ((\<forall>k \<in> set toks. CHR '' '' \<in> set (tm_text k) \<longrightarrow> tm_text k = '' '') \<and> CHR '' '' \<notin> set w \<longrightarrow> (\<forall>x \<in> set ws. CHR '' '' \<notin> set (mw_word x)))"
  using assms
proof (induction toks arbitrary: wl w t)
  case (Cons k toks)
  let ?space = "tm_text k = '' ''"
  let ?t = "if \<not> ?space \<and> length w = 0 then tm_start_time k else t"
  let ?w = "if \<not> ?space then w @ tm_text k else w"
  let ?d = "fsub binary32 (tm_start_time k) ?t"
  let ?d' = "if flt ?d (Fin 0 0) then Fin 0 0 else ?d"
  let ?x = "\<lparr>mw_word = ?w, mw_start_time = ?t, mw_duration = ?d'\<rparr>"
  have d: "\<not> flt ?d' (Fin 0 0)" by simp
  show ?case
  proof (cases "toks = []")
    case True
    then have "words_loop (k # toks) wl w t = wl @ [?x]" by (simp add: Let_def)
    then show ?thesis using True d by (intro exI [of _ "[?x]"]) auto
  next
    case False
    show ?thesis
    proof (cases ?space)
      case space: True
      then have l: "words_loop (k # toks) wl w t = words_loop toks (wl @ [?x]) [] (Fin 0 0)" by (simp add: Let_def)
      from Cons.IH [OF False, of "wl @ [?x]" "[]" "Fin 0 0"] obtain ws where ws: "words_loop toks (wl @ [?x]) [] (Fin 0 0) = (wl @ [?x]) @ ws" "ws \<noteq> []"
        "concat (map tm_text toks) = join_words (map mw_word ws) @ (if tm_text (last toks) = '' '' then '' '' else [])"
        "\<forall>x \<in> set ws. \<not> flt (mw_duration x) (Fin 0 0)"
        "(\<forall>k \<in> set toks. CHR '' '' \<in> set (tm_text k) \<longrightarrow> tm_text k = '' '') \<longrightarrow> (\<forall>x \<in> set ws. CHR '' '' \<notin> set (mw_word x))" by auto
      have "join_words (map mw_word (?x # ws)) = ?w @ '' '' @ join_words (map mw_word ws)" using ws(2) by (cases ws) simp_all
      then show ?thesis using l ws space False d by (intro exI [of _ "?x # ws"]) auto
    next
      case space: False
      then have l: "words_loop (k # toks) wl w t = words_loop toks wl ?w ?t" using False by (simp add: Let_def)
      show ?thesis unfolding l using Cons.IH [OF False, of wl ?w ?t] space False by (elim exE) (intro exI, auto)
    qed
  qed
qed simp

text \<open>
  C20: the words of a transcript, joined by single spaces, are its text (up to a final space), so no
  letter is lost or moved to another word; no word contains a space when only the space token does; and
  no duration is negative.
\<close>

theorem words_of_transcript:
  assumes "ct_tokens tr \<noteq> []"
  shows "concat (map tm_text (ct_tokens tr)) =
      join_words (map mw_word (CandidateTranscriptToWords tr)) @ (if tm_text (last (ct_tokens tr)) = '' '' then '' '' else [])
    \<and> ((\<forall>k \<in> set (ct_tokens tr). CHR '' '' \<in> set (tm_text k) \<longrightarrow> tm_text k = '' '') \<longrightarrow>
         (\<forall>w \<in> set (CandidateTranscriptToWords tr). CHR '' '' \<notin> set (mw_word w)))
    \<and> (\<forall>w \<in> set (CandidateTranscriptToWords tr). \<not> flt (mw_duration w) (Fin 0 0))"
  using words_loop_join [OF assms, of "[]" "[]" "Fin 0 0"] by (auto simp: CandidateTranscriptToWords_def)

definition hi_u :: candidate_transcript where
  "hi_u = \<lparr>ct_tokens = map (\<lambda>s. \<lparr>tm_text = s, tm_timestep = 0, tm_start_time = Fin 0 0\<rparr>) [''h'', ''i'', '' '', ''u''], ct_confidence = Fin 0 0\<rparr>"

theorem words_of_transcript_witness:
  "join_words (map mw_word (CandidateTranscriptToWords hi_u)) = ''hi u''"
  using words_of_transcript [of hi_u] by (simp add: hi_u_def)

section \<open>From a command line to a transcript\<close>

text \<open>A file of mono 16-bit samples with the standard header of 44 bytes.\<close>

definition le32 :: "nat \<Rightarrow> string" where
  "le32 n = le16 n @ le16 (n div 65536)"

definition sample_bytes :: "16 word list \<Rightarrow> string" where
  "sample_bytes samples = concat (map (\<lambda>w. le16 (unat w)) samples)"

definition wav_file :: "nat \<Rightarrow> 16 word list \<Rightarrow> string" where
  "wav_file rate samples =
     ''RIFF'' @ le32 (36 + 2 * length samples) @ ''WAVEfmt '' @ le32 16 @ le16 1 @ le16 1 @ le32 rate @ le32 (2 * rate) @ le16 2 @ le16 16
     @ ''data'' @ le32 (2 * length samples) @ sample_bytes samples"

lemma length_le32 [simp]: "length (le32 n) = 4"
  by (simp add: le32_def)

lemma length_sample_bytes [simp]: "length (sample_bytes samples) = 2 * length samples"
  by (induction samples) (simp_all add: sample_bytes_def)

lemma samples_of_bytes: "samples_of (sample_bytes samples) = samples"
proof (induction samples)
  case (Cons w ws)
  have "unat w < 65536" using unsigned_less [of w] by simp
  then show ?case using Cons by (simp add: sample_bytes_def le16_def)
qed (simp add: sample_bytes_def)

definition le_value :: "string \<Rightarrow> nat" where
  "le_value s = foldr (\<lambda>c n. of_char c + 256 * n) s 0"

lemma le_value_16: "le_value (le16 n) = n mod 65536"
  using un_le16_le16 [of n] by (simp add: le_value_def le16_def un_le16_def)

lemma le_value_32: "n < 2 ^ 32 \<Longrightarrow> le_value (le32 n) = n"
proof -
  assume n: "n < 2 ^ 32"
  have "le_value (a @ b) = le_value a + 256 ^ length a * le_value b" for a b
    by (induction a) (simp_all add: le_value_def algebra_simps)
  then have "le_value (le32 n) = n mod 65536 + 65536 * (n div 65536 mod 65536)" by (simp add: le32_def le_value_16)
  moreover have "n div 65536 mod 65536 = n div 65536" using n by simp
  ultimately show ?thesis by simp
qed

lemma read_le_at: "length a = off \<Longrightarrow> length b = k \<Longrightarrow> read_le off k (a @ b @ c) = Some (le_value b)"
  by (simp add: read_le_def le_value_def)

lemma wav_fields:
  assumes "rate < 2 ^ 32" "2 * length samples < 2 ^ 32"
  shows "read_le 20 2 (wav_file rate samples) = Some 1" "read_le 22 2 (wav_file rate samples) = Some 1" "read_le 24 4 (wav_file rate samples) = Some rate"
    "read_le 34 2 (wav_file rate samples) = Some 16" "read_le 40 4 (wav_file rate samples) = Some (2 * length samples)"
proof -
  let ?n = "2 * length samples"
  let ?h = "''RIFF'' @ le32 (36 + ?n) @ ''WAVEfmt '' @ le32 16" and ?r = "le32 rate" and ?d = "sample_bytes samples"
  show "read_le 20 2 (wav_file rate samples) = Some 1"
    using read_le_at [of ?h 20 "le16 1" 2] by (simp add: wav_file_def le_value_16)
  show "read_le 22 2 (wav_file rate samples) = Some 1"
    using read_le_at [of "?h @ le16 1" 22 "le16 1" 2] by (simp add: wav_file_def le_value_16)
  show "read_le 24 4 (wav_file rate samples) = Some rate"
    using read_le_at [of "?h @ le16 1 @ le16 1" 24 ?r 4] assms(1) by (simp add: wav_file_def le_value_32)
  show "read_le 34 2 (wav_file rate samples) = Some 16"
    using read_le_at [of "?h @ le16 1 @ le16 1 @ ?r @ le32 (2 * rate) @ le16 2" 34 "le16 16" 2] by (simp add: wav_file_def le_value_16)
  show "read_le 40 4 (wav_file rate samples) = Some ?n"
    using read_le_at [of "?h @ le16 1 @ le16 1 @ ?r @ le32 (2 * rate) @ le16 2 @ le16 16 @ ''data''" 40 "le32 ?n" 4] assms(2)
    by (simp add: wav_file_def le_value_32)
qed

lemma length_wav_file: "length (wav_file rate samples) = 44 + 2 * length samples"
  by (simp add: wav_file_def)

lemma GetAudioBuffer_wav:
  assumes "0 \<le> rate" "rate < 2 ^ 32" "2 * length samples < 2 ^ 32"
  shows "GetAudioBuffer ndebug (Some (wav_file (nat rate) samples)) rate = Some (sample_bytes samples)"
proof -
  have "drop 44 (wav_file (nat rate) samples) = sample_bytes samples" by (simp add: wav_file_def le32_def le16_def)
  then show ?thesis using wav_fields [of "nat rate" samples] assms by (simp add: GetAudioBuffer_def c_assert_def Let_def nat_less_iff length_wav_file)
qed

lemma plain_args:
  "ProcessArgs strtod (win_next_opt 5) (getopt_start [prog, ''--model'', m, ''--audio'', a])
     = Some (Inr (True, default_args\<lparr>a_model := Some m, a_audio := Some a\<rparr>))"
proof -
  let ?rs = "[Name_arg 0 m, Name_arg 2 a]"
  have "list_all (valid short_opts long_opts) ?rs" by (simp add: long_opts_def)
  from ProcessArgs_requests [OF this refl, of strtod prog] show ?thesis
    by (simp add: long_opts_def char_int_def process_opt_def check_args_def default_args_def smod_nonneg)
qed

text \<open>
  C15: the whole program.  Called with a model and an audio file that holds mono 16-bit samples at the
  sample rate of the model, the client with the option parser of \<^verbatim>\<open>getopt_win.h\<close> exits with code 0 and
  prints one line: the text of the recording as the decoder reads it.  It gets stuck only where the
  decoder does.
\<close>

theorem client_prints_transcript:
  assumes "m \<noteq> []" and "w_new_model W m = (0, M)" and "model_ok M" and "0 \<le> sint (sample_rate M)"
    and "w_stat W a = Some Regular" and "w_contents W a = Some (wav_file (nat (sint (sample_rate M))) samples)" and "2 * length samples < 2 ^ 32"
  shows "client_main W (win_next_opt 5) (getopt_start [prog, ''--model'', m, ''--audio'', a]) =
    Option.bind (transcribe (w_env W) M samples) (\<lambda>d. map_option (\<lambda>t. (0, [t])) (ModelState_decode (w_env W) M d))"
proof -
  let ?A = "default_args\<lparr>a_model := Some m, a_audio := Some a\<rparr>"
  have rate: "sint (sample_rate M) < 2 ^ 32" using sint_less [of "sample_rate M"] by simp
  have create: "DS_CreateModel (w_new_model W) (Some m) = (0, Some M)"
    using assms(1,2) by (cases m) (simp_all add: DS_CreateModel_def ds_code_def DS_FOR_EACH_ERROR_def)
  have config: "configure W ?A M = Some (Inr M)" by (simp add: configure_def enable_scorer_def default_args_def)
  have "DS_SpeechToText (w_env W) M samples = Option.bind (transcribe (w_env W) M samples) (ModelState_decode (w_env W) M)"
    using one_call_chunks [OF assms(3) create_stream, of "[samples]" "[samples]" "w_env W"]
      chunks_transcribe [OF assms(3) create_stream, of "w_env W" "[samples]"] by simp
  moreover have "process_audio W ?A M a = map_option (\<lambda>t. [t]) (DS_SpeechToText (w_env W) M samples)"
    using GetAudioBuffer_wav [OF assms(4) rate assms(7), of "w_ndebug W"] assms(5,6)
    by (simp add: process_audio_def ProcessFile_def DS_GetModelSampleRate_def samples_of_bytes LocalDsSTT_def default_args_def map_conv_bind_option comp_def)
  ultimately show ?thesis using plain_args [of "w_strtod W" prog m a] create config
    by (simp add: client_main_def default_args_def map_conv_bind_option comp_def)
qed

definition quiet_world :: "unit client_world" where
  "quiet_world = \<lparr>w_env = ref_cxx, w_ndebug = False, w_no_dir = True, w_new_model = (\<lambda>_. (0, silent_model)), w_lib = id_lib,
     w_strtod = (\<lambda>_. Fin 0 0), w_strtof = (\<lambda>_. Fin 0 0), w_show_num = (\<lambda>_. []), w_time_line = [], w_stat = (\<lambda>_. Some Regular),
     w_contents = (\<lambda>_. Some (wav_file 16000 [1, 2, 3]))\<rparr>"

theorem client_prints_transcript_witness:
  "client_main quiet_world (win_next_opt 5) (getopt_start [''client'', ''--model'', ''m'', ''--audio'', ''a'']) = Some (0, [[]])"
proof -
  have rate: "sint (sample_rate silent_model) = 16000" by (simp add: silent_model_def tiny_model_def)
  have "DS_SpeechToText ref_cxx silent_model [1, 2, 3] = Some []"
    using with_metadata_text [OF silent_model_ok silent_no_nul silent_metadata [of "[1, 2, 3]"], of "[]"]
    by (simp add: first_transcript_def CandidateTranscriptToString_def c_str_def)
  then have "Option.bind (transcribe ref_cxx silent_model [1, 2, 3]) (ModelState_decode ref_cxx silent_model) = Some []"
    using one_call_chunks [OF silent_model_ok create_stream, of "[[1, 2, 3]]" "[[1, 2, 3]]" ref_cxx]
      chunks_transcribe [OF silent_model_ok create_stream, of ref_cxx "[[1, 2, 3]]"] by simp
  then show ?thesis
    using client_prints_transcript [of "''m''" quiet_world silent_model "''a''" "[1, 2, 3]" "''client''"] silent_model_ok rate
    by (auto simp: quiet_world_def split: Option.bind_splits)
qed

end
