(* ===== verification/Client_Memory.thy ===== *)
theory Client_Memory
  imports Memory_Spec Client_Spec
begin

text \<open>
  The command line client (\<^verbatim>\<open>client.cc\<close>) with its memory: what \<^verbatim>\<open>ProcessFile\<close>, \<^verbatim>\<open>LocalDsSTT\<close> and the loops of
  the streaming modes allocate and free.  The pointers \<^verbatim>\<open>last\<close> and \<^verbatim>\<open>prev\<close> are addresses or null.
\<close>

section \<open>The client\<close>

definition CandidateTranscriptToString_mem :: "('s c_heap \<Rightarrow> addr) \<Rightarrow> addr \<Rightarrow> 's c_heap \<Rightarrow> (addr \<times> 's c_heap) option" where
  "CandidateTranscriptToString_mem new result h = do {
     md \<leftarrow> read_result h result;
     tr \<leftarrow> transcript_at h (cmd_transcripts md) 0;
     Some (c_malloc new (Text (CandidateTranscriptToString tr)) h)
   }"

definition MetadataToJSON_mem :: "('s c_heap \<Rightarrow> addr) \<Rightarrow> (fval \<Rightarrow> string) \<Rightarrow> addr \<Rightarrow> 's c_heap \<Rightarrow> (addr \<times> 's c_heap) option" where
  "MetadataToJSON_mem new show_num result h = do {
     md \<leftarrow> metadata_at h result;
     Some (c_malloc new (Text (MetadataToJSON show_num md)) h)
   }"

text \<open>The intermediate result of the two streaming modes: the string, and the metadata it was made from.\<close>

definition partial_text ::
    "cxx \<Rightarrow> ('s c_heap \<Rightarrow> addr) \<Rightarrow> 's model_state \<Rightarrow> addr \<Rightarrow> 's c_heap \<Rightarrow> (addr \<times> addr option \<times> 's c_heap) option" where
  "partial_text env new M ctx h = do { (p, h) \<leftarrow> IntermediateDecode_mem env new M ctx h; Some (p, None, h) }"

definition partial_metadata ::
    "cxx \<Rightarrow> ('s c_heap \<Rightarrow> addr) \<Rightarrow> 's model_state \<Rightarrow> addr \<Rightarrow> 's c_heap \<Rightarrow> (addr \<times> addr option \<times> 's c_heap) option" where
  "partial_metadata env new M ctx h = do {
     (result, h) \<leftarrow> IntermediateDecodeWithMetadata_mem env new M 1 ctx h;
     (p, h) \<leftarrow> CandidateTranscriptToString_mem new result h;
     Some (p, Some result, h)
   }"

text \<open>What a turn of the loop does with its strings: print and keep a new one, or free it, and free the
  one that was replaced.\<close>

definition keep_or_free :: "addr option \<Rightarrow> addr \<Rightarrow> string list \<Rightarrow> 's c_heap \<Rightarrow> (addr option \<times> string list \<times> 's c_heap) option" where
  "keep_or_free lastp p lines h = do {
     let prev = lastp;
     s \<leftarrow> read_text h p;
     differs \<leftarrow> (case lastp of None \<Rightarrow> Some True | Some l \<Rightarrow> do { s' \<leftarrow> read_text h l; Some (s' \<noteq> s) });
     (lastp, lines, h) \<leftarrow> (if differs then Some (Some p, lines @ [s], h)
                           else do { h \<leftarrow> DS_FreeString (Some p) h; Some (lastp, lines, h) });
     h \<leftarrow> (if prev \<noteq> None \<and> prev \<noteq> lastp then DS_FreeString prev h else Some h);
     Some (lastp, lines, h)
   }"

function stream_loop_mem ::
    "cxx \<Rightarrow> 's model_state \<Rightarrow> ('s c_heap \<Rightarrow> (addr \<times> addr option \<times> 's c_heap) option) \<Rightarrow> nat \<Rightarrow> 16 word list \<Rightarrow> addr option
       \<Rightarrow> string list \<Rightarrow> addr \<Rightarrow> 's c_heap \<Rightarrow> (string list \<times> addr option \<times> 's c_heap) option" where
  "stream_loop_mem env M partial chunk samples lastp lines ctx h =
     (if samples = [] \<or> chunk = 0 then Some (lines, lastp, h)
      else do {
        let cur = (if length samples > chunk then chunk else length samples);
        h \<leftarrow> FeedAudioContent_mem env M (take cur samples) ctx h;
        (p, result, h) \<leftarrow> partial h;
        (lastp, lines, h) \<leftarrow> keep_or_free lastp p lines h;
        h \<leftarrow> DS_FreeMetadata result h;
        stream_loop_mem env M partial chunk (drop cur samples) lastp lines ctx h
      })"
  by pat_completeness auto
termination by (relation "measure (\<lambda>(env, M, partial, chunk, samples, lastp, lines, ctx, h). length samples)") auto

declare stream_loop_mem.simps [simp del]

definition LocalDsSTT_mem ::
    "cxx \<Rightarrow> ('s c_heap \<Rightarrow> addr) \<Rightarrow> (fval \<Rightarrow> string) \<Rightarrow> client_args \<Rightarrow> 's model_state \<Rightarrow> 16 word list \<Rightarrow> 's c_heap
       \<Rightarrow> (string list \<times> addr \<times> 's c_heap) option" where
  "LocalDsSTT_mem env new show_num A M samples h =
     (if extended_metadata A then do {
        (result, h) \<leftarrow> SpeechToTextWithMetadata_mem env new M samples 1 h;
        (str, h) \<leftarrow> CandidateTranscriptToString_mem new result h;
        h \<leftarrow> DS_FreeMetadata (Some result) h;
        Some ([], str, h)
      }
      else if json_output A then do {
        (result, h) \<leftarrow> SpeechToTextWithMetadata_mem env new M samples (word_of_int (json_candidate_transcripts A)) h;
        (str, h) \<leftarrow> MetadataToJSON_mem new show_num result h;
        h \<leftarrow> DS_FreeMetadata (Some result) h;
        Some ([], str, h)
      }
      else if stream_size A > 0 then
        (case CreateStream_mem new M h of (status, ctx, h) \<Rightarrow>
           if status \<noteq> ds_code DS_ERR_OK then let (str, h) = c_malloc new (Text []) h in Some ([], str, h)
           else do {
             ctx \<leftarrow> ctx;
             (lines, lastp, h) \<leftarrow> stream_loop_mem env M (partial_text env new M ctx) (nat (stream_size A)) samples None [] ctx h;
             h \<leftarrow> (if lastp \<noteq> None then DS_FreeString lastp h else Some h);
             (str, h) \<leftarrow> FinishStream_mem env new M ctx h;
             Some (lines, str, h)
           })
      else if extended_stream_size A > 0 then
        (case CreateStream_mem new M h of (status, ctx, h) \<Rightarrow>
           if status \<noteq> ds_code DS_ERR_OK then let (str, h) = c_malloc new (Text []) h in Some ([], str, h)
           else do {
             ctx \<leftarrow> ctx;
             (lines, lastp, h) \<leftarrow> stream_loop_mem env M (partial_metadata env new M ctx) (nat (extended_stream_size A)) samples None [] ctx h;
             (result, h) \<leftarrow> FinishStreamWithMetadata_mem env new M 1 ctx h;
             (str, h) \<leftarrow> CandidateTranscriptToString_mem new result h;
             h \<leftarrow> DS_FreeMetadata (Some result) h;
             h \<leftarrow> DS_FreeString lastp h;
             Some (lines, str, h)
           })
      else do {
        (str, h) \<leftarrow> SpeechToText_mem env new M samples h;
        Some ([], str, h)
      })"

definition ProcessFile_mem ::
    "'s client_world \<Rightarrow> ('s c_heap \<Rightarrow> addr) \<Rightarrow> client_args \<Rightarrow> 's model_state \<Rightarrow> string \<Rightarrow> 's c_heap \<Rightarrow> (string list \<times> 's c_heap) option" where
  "ProcessFile_mem W new A context path h = do {
     audio \<leftarrow> GetAudioBuffer (w_ndebug W) (w_contents W path) (DS_GetModelSampleRate context);
     let (buffer, h) = c_malloc new (Text audio) h;
     (lines, str, h) \<leftarrow> LocalDsSTT_mem (w_env W) new (w_show_num W) A context (take (length audio div 2) (samples_of audio)) h;
     h \<leftarrow> c_free buffer h;
     result \<leftarrow> read_text h str;
     h \<leftarrow> DS_FreeString (Some str) h;
     Some (lines @ [result] @ (if show_times A then [w_time_line W] else []), h)
   }"

section \<open>Blocks that come and go\<close>

text \<open>\<open>h'\<close> is \<open>h\<close> and the blocks of a result at \<open>a\<close>.\<close>

definition result_in :: "'s c_heap \<Rightarrow> 's c_heap \<Rightarrow> addr \<Rightarrow> metadata \<Rightarrow> addr set \<Rightarrow> bool" where
  "result_in h h' a md A \<longleftrightarrow> metadata_rep h' a md A \<and> A \<inter> dom h = {} \<and> (\<forall>x. x \<notin> A \<longrightarrow> h' x = h x) \<and> finite (dom h')"

lemma metadata_rep_dom: "metadata_rep h a md A \<Longrightarrow> A \<subseteq> dom h"
proof -
  assume "metadata_rep h a md A"
  then obtain base cs As where r: "h a = Some (Result \<lparr>cmd_transcripts = base, cmd_num_transcripts = length md\<rparr>)"
    "h base = Some (Transcripts (map Some cs))" "transcripts_rep h cs md As" "A = insert a (insert base (\<Union> (set As)))"
    unfolding metadata_rep_def by blast
  have "B \<subseteq> dom h" if B: "B \<in> set As" for B
  proof -
    obtain i where "i < length md" "B = As ! i" using B r(3) by (auto simp: in_set_conv_nth transcripts_rep_def)
    then show ?thesis using transcript_rep_dom [of h "cs ! i" "md ! i" B] r(3) by (simp add: transcripts_rep_def)
  qed
  then show "A \<subseteq> dom h" using r(1,2,4) by auto
qed

lemma restrict_away: "(\<And>x. x \<notin> A \<Longrightarrow> k x = g x) \<Longrightarrow> A \<inter> dom g = {} \<Longrightarrow> k |` (- A) = g"
  by (rule ext) (auto simp: restrict_map_def disjoint_iff domIff)

text \<open>Freeing a result leaves every other block alone, also those that were added since.\<close>

lemma result_in_free:
  assumes "result_in h h' a md A" "\<And>x. x \<in> A \<Longrightarrow> k x = h' x" "\<And>x. x \<notin> A \<Longrightarrow> k x = g x" "A \<inter> dom g = {}"
  shows "DS_FreeMetadata (Some a) k = Some g"
proof -
  have "metadata_rep k a md A" by (rule metadata_rep_frame [of h']) (use assms(1,2) in \<open>auto simp: result_in_def\<close>)
  from free_metadata_rep [OF this] show ?thesis using restrict_away [of A k g] assms(3,4) by simp
qed

lemma fresh_none: "malloc_ok new \<Longrightarrow> finite (dom h) \<Longrightarrow> h (new h) = None"
  by (auto simp: malloc_ok_def)

lemma to_string_mem:
  assumes "result_in h h' a md A" "first_transcript md = Some s"
  shows "CandidateTranscriptToString_mem new a h' = Some (new h', h'(new h' \<mapsto> Text s))"
proof -
  from assms(1) obtain base cs As where r: "h' a = Some (Result \<lparr>cmd_transcripts = base, cmd_num_transcripts = length md\<rparr>)"
    "h' base = Some (Transcripts (map Some cs))" "transcripts_rep h' cs md As" unfolding result_in_def metadata_rep_def by blast
  have md: "0 < length md" "s = CandidateTranscriptToString (md ! 0)" using assms(2) by (auto simp: first_transcript_def nth_opt_def split: if_splits)
  have "transcript_at h' base 0 = Some (md ! 0)"
    using transcript_rep_at [of h' "cs ! 0" "md ! 0" "As ! 0" base 0] r(2,3) md(1) by (simp add: transcripts_rep_def)
  then show ?thesis using r(1) md(2) by (simp add: CandidateTranscriptToString_mem_def c_malloc_def)
qed

text \<open>A string made from a result survives it.\<close>

lemma free_after_string:
  assumes "malloc_ok new" "result_in h h' a md A"
  shows "DS_FreeMetadata (Some a) (h'(new h' \<mapsto> b)) = Some (h(new h' \<mapsto> b))" "h (new h') = None" "new h' \<notin> A"
proof -
  have new: "h' (new h') = None" using fresh_none [OF assms(1)] assms(2) by (simp add: result_in_def)
  then show A: "new h' \<notin> A" using metadata_rep_dom [of h' a md A] assms(2) by (auto simp: result_in_def)
  then show h: "h (new h') = None" using new assms(2) by (simp add: result_in_def)
  show "DS_FreeMetadata (Some a) (h'(new h' \<mapsto> b)) = Some (h(new h' \<mapsto> b))"
    by (rule result_in_free [OF assms(2)]) (use A assms(2) in \<open>auto simp: result_in_def\<close>)
qed

section \<open>Calls of the library\<close>

lemma finish_stream_mem:
  assumes "malloc_ok new" "finite (dom h)" "h ctx = None" "DS_FinishStream env M st = Some s"
  shows "\<exists>a. FinishStream_mem env new M ctx (h(ctx \<mapsto> Stream st)) = Some (a, h(a \<mapsto> Text s)) \<and> h a = None"
proof -
  obtain st' where st': "finalizeStream env M st = Some st'" "ModelState_decode env M (stream_decoder st') = Some s"
    using assms(4) by (auto simp: DS_FinishStream_def finishStream_def split: Option.bind_splits)
  let ?h = "h(ctx \<mapsto> Stream st')"
  have new: "?h (new ?h) = None" using fresh_none [OF assms(1), of ?h] assms(2) by simp
  then have a: "new ?h \<noteq> ctx" "h (new ?h) = None" by (auto split: if_splits)
  then have "?h(new ?h \<mapsto> Text s, ctx := None) = h(new ?h \<mapsto> Text s)" using assms(3) by auto
  then show ?thesis using st' a
    by (auto simp: FinishStream_mem_def finalizeStream_mem_def decode_mem_def c_malloc_def DS_FreeStream_def c_free_def)
qed

lemma finish_metadata_mem:
  assumes "malloc_ok new" "finite (dom h)" "h ctx = None" "DS_FinishStreamWithMetadata env M k st = Some md"
  shows "\<exists>a h' A. FinishStreamWithMetadata_mem env new M k ctx (h(ctx \<mapsto> Stream st)) = Some (a, h') \<and> result_in h h' a md A"
proof -
  obtain st' where st': "finalizeStream env M st = Some st'" "decode_metadata env M (stream_decoder st') (unat k) = Some md"
    using assms(4) by (auto simp: DS_FinishStreamWithMetadata_def finishStreamWithMetadata_def split: Option.bind_splits)
  let ?h = "h(ctx \<mapsto> Stream st')"
  have "finite (dom ?h)" using assms(2) by simp
  from decode_metadata_rep [OF assms(1) this st'(2)] obtain a h' A where r:
    "decode_metadata_mem env new M (stream_decoder st') (unat k) ?h = Some (a, h')" "metadata_rep h' a md A"
    "A \<inter> dom ?h = {}" "\<forall>x. x \<notin> A \<longrightarrow> h' x = ?h x" "finite (dom h')" by blast
  have ctx: "ctx \<notin> A" "h' ctx = Some (Stream st')" using r(3,4) by auto
  have "metadata_rep (h'(ctx := None)) a md A" by (rule metadata_rep_frame [OF r(2)]) (use ctx in auto)
  then have "result_in h (h'(ctx := None)) a md A" using r(3-5) assms(3) by (auto simp: result_in_def)
  then show ?thesis using r(1) st'(1) ctx(2)
    by (auto simp: FinishStreamWithMetadata_mem_def finalizeStream_mem_def DS_FreeStream_def c_free_def)
qed

lemma create_and_feed_mem:
  assumes "malloc_ok new" "finite (dom h)" "DS_FeedAudioContent env M samples (new_stream M) = Some st"
  shows "CreateStreamAndFeed_mem env new M samples h = Some (new h, h(new h \<mapsto> Stream st))" "h (new h) = None"
  using assms fresh_none [OF assms(1,2)]
  by (simp_all add: CreateStreamAndFeed_mem_def CreateStream_mem_def create_stream c_malloc_def FeedAudioContent_mem_def)

lemma speech_to_text_mem:
  assumes "malloc_ok new" "finite (dom h)" "DS_SpeechToText env M samples = Some s"
  shows "\<exists>a. SpeechToText_mem env new M samples h = Some (a, h(a \<mapsto> Text s)) \<and> h a = None"
proof -
  obtain st where st: "DS_FeedAudioContent env M samples (new_stream M) = Some st" "DS_FinishStream env M st = Some s"
    using assms(3) by (auto simp: DS_SpeechToText_def CreateStreamAndFeedAudioContent_def create_stream split: Option.bind_splits)
  note c = create_and_feed_mem [OF assms(1,2) st(1)]
  show ?thesis using finish_stream_mem [OF assms(1,2) c(2) st(2)] c(1) by (simp add: SpeechToText_mem_def)
qed

lemma speech_to_metadata_mem:
  assumes "malloc_ok new" "finite (dom h)" "DS_SpeechToTextWithMetadata env M samples k = Some md"
  shows "\<exists>a h' A. SpeechToTextWithMetadata_mem env new M samples k h = Some (a, h') \<and> result_in h h' a md A"
proof -
  obtain st where st: "DS_FeedAudioContent env M samples (new_stream M) = Some st" "DS_FinishStreamWithMetadata env M k st = Some md"
    using assms(3) by (auto simp: DS_SpeechToTextWithMetadata_def CreateStreamAndFeedAudioContent_def create_stream split: Option.bind_splits)
  note c = create_and_feed_mem [OF assms(1,2) st(1)]
  show ?thesis using finish_metadata_mem [OF assms(1,2) c(2) st(2)] c(1) by (simp add: SpeechToTextWithMetadata_mem_def)
qed

section \<open>The streaming modes\<close>

text \<open>A way of reading intermediate results allocates a string, and blocks \<open>A\<close> that are freed together.\<close>

definition partial_ok :: "('s streaming_state \<Rightarrow> string option) \<Rightarrow> ('s c_heap \<Rightarrow> (addr \<times> addr option \<times> 's c_heap) option) \<Rightarrow> addr \<Rightarrow> bool" where
  "partial_ok part pm ctx \<longleftrightarrow> (\<forall>h st s. finite (dom h) \<and> h ctx = Some (Stream st) \<and> part st = Some s \<longrightarrow>
     (\<exists>p r g A. pm h = Some (p, r, g(p \<mapsto> Text s)) \<and> h p = None \<and> p \<notin> A \<and> A \<inter> dom h = {} \<and> (\<forall>x. x \<notin> A \<longrightarrow> g x = h x)
       \<and> (\<forall>k f. (\<forall>x\<in>A. k x = g x) \<and> (\<forall>x. x \<notin> A \<longrightarrow> k x = f x) \<and> A \<inter> dom f = {} \<longrightarrow> DS_FreeMetadata r k = Some f)))"

lemma partial_text_ok:
  assumes "malloc_ok new"
  shows "partial_ok (DS_IntermediateDecode env M) (partial_text env new M ctx) ctx"
  unfolding partial_ok_def
proof (intro allI impI, elim conjE)
  fix h :: "'a c_heap" and st s
  assume h: "finite (dom h)" "h ctx = Some (Stream st)" "DS_IntermediateDecode env M st = Some s"
  then have "partial_text env new M ctx h = Some (new h, None, h(new h \<mapsto> Text s))"
    by (simp add: partial_text_def IntermediateDecode_mem_def decode_mem_def c_malloc_def DS_IntermediateDecode_def intermediateDecode_def)
  moreover have "DS_FreeMetadata None k = Some f" if "\<forall>x. k x = f x" for k f :: "'a c_heap"
    using that by (simp add: DS_FreeMetadata_def fun_eq_iff)
  ultimately show "\<exists>p r g A. partial_text env new M ctx h = Some (p, r, g(p \<mapsto> Text s)) \<and> h p = None \<and> p \<notin> A \<and> A \<inter> dom h = {}
      \<and> (\<forall>x. x \<notin> A \<longrightarrow> g x = h x) \<and> (\<forall>k f. (\<forall>x\<in>A. k x = g x) \<and> (\<forall>x. x \<notin> A \<longrightarrow> k x = f x) \<and> A \<inter> dom f = {} \<longrightarrow> DS_FreeMetadata r k = Some f)"
    using fresh_none [OF assms h(1)] by (intro exI [of _ "new h"] exI [of _ None] exI [of _ h] exI [of _ "{}"]) simp
qed

lemma partial_metadata_ok:
  assumes "malloc_ok new"
  shows "partial_ok (\<lambda>ctx. Option.bind (DS_IntermediateDecodeWithMetadata env M 1 ctx) first_transcript) (partial_metadata env new M ctx) ctx"
  unfolding partial_ok_def
proof (intro allI impI, elim conjE)
  fix h :: "'a c_heap" and st s
  assume h: "finite (dom h)" "h ctx = Some (Stream st)" "Option.bind (DS_IntermediateDecodeWithMetadata env M 1 st) first_transcript = Some s"
  then obtain md where md: "decode_metadata env M (stream_decoder st) 1 = Some md" "first_transcript md = Some s"
    by (auto simp: DS_IntermediateDecodeWithMetadata_def intermediateDecodeWithMetadata_def Option.bind_eq_Some_conv)
  obtain a g A where g: "decode_metadata_mem env new M (stream_decoder st) 1 h = Some (a, g)" "result_in h g a md A"
    using decode_metadata_rep [OF assms h(1) md(1)] unfolding result_in_def by blast
  have "partial_metadata env new M ctx h = Some (new g, Some a, g(new g \<mapsto> Text s))"
    using g(1) to_string_mem [OF g(2) md(2), of new] h(2) by (simp add: partial_metadata_def IntermediateDecodeWithMetadata_mem_def)
  moreover have "\<forall>k f. (\<forall>x\<in>A. k x = g x) \<and> (\<forall>x. x \<notin> A \<longrightarrow> k x = f x) \<and> A \<inter> dom f = {} \<longrightarrow> DS_FreeMetadata (Some a) k = Some f"
    using result_in_free [OF g(2)] by simp
  ultimately show "\<exists>p r g A. partial_metadata env new M ctx h = Some (p, r, g(p \<mapsto> Text s)) \<and> h p = None \<and> p \<notin> A \<and> A \<inter> dom h = {}
      \<and> (\<forall>x. x \<notin> A \<longrightarrow> g x = h x) \<and> (\<forall>k f. (\<forall>x\<in>A. k x = g x) \<and> (\<forall>x. x \<notin> A \<longrightarrow> k x = f x) \<and> A \<inter> dom f = {} \<longrightarrow> DS_FreeMetadata r k = Some f)"
    using free_after_string(2,3) [OF assms g(2)] g(2) unfolding result_in_def
    by (intro exI [of _ "new g"] exI [of _ "Some a"] exI [of _ g] exI [of _ A]) simp
qed

text \<open>Between two turns of the loop the heap holds the stream and the last string, if there is one.\<close>

definition loop_heap :: "'s c_heap \<Rightarrow> addr \<Rightarrow> 's streaming_state \<Rightarrow> (addr \<times> string) option \<Rightarrow> 's c_heap" where
  "loop_heap h ctx st kept = (case kept of None \<Rightarrow> h(ctx \<mapsto> Stream st) | Some (l, s) \<Rightarrow> h(ctx \<mapsto> Stream st, l \<mapsto> Text s))"

definition kept_ok :: "'s c_heap \<Rightarrow> addr \<Rightarrow> (addr \<times> string) option \<Rightarrow> bool" where
  "kept_ok h ctx kept \<longleftrightarrow> h ctx = None \<and> finite (dom h) \<and> (case kept of None \<Rightarrow> True | Some (l, s) \<Rightarrow> l \<noteq> ctx \<and> h l = None)"

lemma loop_heap_props:
  assumes "kept_ok h ctx kept"
  shows "finite (dom (loop_heap h ctx st kept))" "loop_heap h ctx st kept ctx = Some (Stream st)"
    "(loop_heap h ctx st kept)(ctx \<mapsto> Stream st') = loop_heap h ctx st' kept"
  using assms by (auto simp: kept_ok_def loop_heap_def fun_upd_twist split: option.splits)

definition next_kept :: "(addr \<times> string) option \<Rightarrow> addr \<Rightarrow> string \<Rightarrow> (addr \<times> string) option" where
  "next_kept kept p s = (if map_option snd kept = Some s then kept else Some (p, s))"

lemma keep_or_free_step:
  assumes "kept_ok h ctx kept" "loop_heap h ctx st kept p = None" "p \<notin> A" "A \<inter> dom (loop_heap h ctx st kept) = {}"
    and "\<And>x. x \<notin> A \<Longrightarrow> g x = loop_heap h ctx st kept x"
  shows "\<exists>k. keep_or_free (map_option fst kept) p lines (g(p \<mapsto> Text s)) =
      Some (map_option fst (next_kept kept p s), if map_option snd kept = Some s then lines else lines @ [s], k)
    \<and> (\<forall>x\<in>A. k x = g x) \<and> (\<forall>x. x \<notin> A \<longrightarrow> k x = loop_heap h ctx st (next_kept kept p s) x)
    \<and> A \<inter> dom (loop_heap h ctx st (next_kept kept p s)) = {} \<and> kept_ok h ctx (next_kept kept p s)"
proof (cases kept)
  case None
  then show ?thesis using assms
    by (auto simp: keep_or_free_def next_kept_def loop_heap_def kept_ok_def split: if_splits)
next
  case (Some ls)
  obtain l s' where kept: "kept = Some (l, s')" using Some by (cases ls) simp
  have l: "l \<noteq> ctx" "h l = None" "h ctx = None" "finite (dom h)" using assms(1) kept by (simp_all add: kept_ok_def)
  have p: "p \<noteq> l" "p \<noteq> ctx" "h p = None" using assms(2) kept by (auto simp: loop_heap_def split: if_splits)
  have A: "l \<notin> A" "ctx \<notin> A" "A \<inter> dom h = {}" using assms(4) kept by (auto simp: loop_heap_def)
  have gl: "g l = Some (Text s')" using assms(5) [OF A(1)] kept by (simp add: loop_heap_def)
  have gp: "g p = None" using assms(5) [OF assms(3)] assms(2) by simp
  show ?thesis
  proof (cases "s' = s")
    case True
    let ?k = "(g(p \<mapsto> Text s))(p := None)"
    have "keep_or_free (Some l) p lines (g(p \<mapsto> Text s)) = Some (Some l, lines, ?k)"
      using True gl p(1) by (simp add: keep_or_free_def DS_FreeString_def c_free_def)
    moreover have "?k = g" using gp by auto
    ultimately show ?thesis using True kept assms by (auto simp: next_kept_def)
  next
    case False
    let ?k = "(g(p \<mapsto> Text s))(l := None)"
    have "keep_or_free (Some l) p lines (g(p \<mapsto> Text s)) = Some (Some p, lines @ [s], ?k)"
      using False gl p(1) by (auto simp: keep_or_free_def DS_FreeString_def c_free_def)
    moreover have "\<forall>x. x \<notin> A \<longrightarrow> ?k x = loop_heap h ctx st (Some (p, s)) x" using assms(5) l(1,2) p kept by (auto simp: loop_heap_def)
    moreover have "A \<inter> dom (loop_heap h ctx st (Some (p, s))) = {}" using A(2,3) assms(3) by (auto simp: loop_heap_def)
    ultimately show ?thesis using False kept l p A(1) assms(3) by (auto simp: next_kept_def kept_ok_def)
  qed
qed

lemma stream_loop_mem_refines:
  assumes "stream_loop env M part chunk samples (map_option snd kept) lines st = Some (lines', st')"
    and "kept_ok h ctx kept" "partial_ok part pm ctx"
  shows "\<exists>kept'. stream_loop_mem env M pm chunk samples (map_option fst kept) lines ctx (loop_heap h ctx st kept)
      = Some (lines', map_option fst kept', loop_heap h ctx st' kept') \<and> kept_ok h ctx kept'"
  using assms(1,2)
proof (induction "length samples" arbitrary: samples kept lines st rule: less_induct)
  case less
  show ?case
  proof (cases "samples = [] \<or> chunk = 0")
    case True
    then show ?thesis using less.prems by (auto simp: stream_loop.simps stream_loop_mem.simps)
  next
    case False
    let ?cur = "if length samples > chunk then chunk else length samples"
    let ?new = "\<lambda>s. if map_option snd kept = Some s then lines else lines @ [s]"
    obtain st1 s where st1: "DS_FeedAudioContent env M (take ?cur samples) st = Some st1" "part st1 = Some s"
      and raw: "(if map_option snd kept = None \<or> map_option snd kept \<noteq> Some s then stream_loop env M part chunk (drop ?cur samples) (Some s) (lines @ [s]) st1
        else stream_loop env M part chunk (drop ?cur samples) (map_option snd kept) lines st1) = Some (lines', st')"
      using less.prems(1) [unfolded stream_loop.simps [of env M part chunk samples "map_option snd kept" lines st]] False
      by (auto simp: Let_def split: Option.bind_splits)
    have rest: "stream_loop env M part chunk (drop ?cur samples) (Some s) (?new s) st1 = Some (lines', st')"
      using raw by (cases "map_option snd kept = Some s") simp_all
    let ?H = "loop_heap h ctx st1 kept"
    have feed: "FeedAudioContent_mem env M (take ?cur samples) ctx (loop_heap h ctx st kept) = Some ?H"
      using st1(1) loop_heap_props(2,3) [OF less.prems(2)] by (simp add: FeedAudioContent_mem_def)
    obtain p r g A where pm: "pm ?H = Some (p, r, g(p \<mapsto> Text s))" "?H p = None" "p \<notin> A" "A \<inter> dom ?H = {}"
      "\<And>x. x \<notin> A \<Longrightarrow> g x = ?H x"
      and free: "\<And>k f. (\<forall>x\<in>A. k x = g x) \<and> (\<forall>x. x \<notin> A \<longrightarrow> k x = f x) \<and> A \<inter> dom f = {} \<Longrightarrow> DS_FreeMetadata r k = Some f"
      using assms(3) [unfolded partial_ok_def, rule_format, OF conjI [OF loop_heap_props(1) [OF less.prems(2)]
        conjI [OF loop_heap_props(2) [OF less.prems(2)] st1(2)]]] by blast
    let ?kept = "next_kept kept p s"
    obtain k where k: "keep_or_free (map_option fst kept) p lines (g(p \<mapsto> Text s)) = Some (map_option fst ?kept, ?new s, k)"
      "DS_FreeMetadata r k = Some (loop_heap h ctx st1 ?kept)" "kept_ok h ctx ?kept"
      using keep_or_free_step [OF less.prems(2) pm(2-5), of lines s] free by blast
    have "map_option snd ?kept = Some s" by (simp add: next_kept_def)
    then have "stream_loop env M part chunk (drop ?cur samples) (map_option snd ?kept) (?new s) st1 = Some (lines', st')" using rest by (simp only:)
    from less.hyps [OF _ this k(3)] False
    obtain kept' where "stream_loop_mem env M pm chunk (drop ?cur samples) (map_option fst ?kept) (?new s) ctx (loop_heap h ctx st1 ?kept)
        = Some (lines', map_option fst kept', loop_heap h ctx st' kept') \<and> kept_ok h ctx kept'" by auto
    then show ?thesis using False feed pm(1) k by (subst stream_loop_mem.simps) (auto simp: Let_def)
  qed
qed

text \<open>Every mode leaves one string on the heap, and nothing else.\<close>

lemma LocalDsSTT_mem_refines:
  assumes "malloc_ok new" "finite (dom h)" "LocalDsSTT env show_num A M samples = Some (lines, s)"
  shows "\<exists>a. LocalDsSTT_mem env new show_num A M samples h = Some (lines, a, h(a \<mapsto> Text s)) \<and> h a = None"
proof -
  let ?ctx = "new h"
  have ctx: "h ?ctx = None" "kept_ok h ?ctx None" using fresh_none [OF assms(1,2)] assms(2) by (simp_all add: kept_ok_def)
  have create: "CreateStream_mem new M h = (ds_code DS_ERR_OK, Some ?ctx, loop_heap h ?ctx (new_stream M) None)"
    by (simp add: CreateStream_mem_def create_stream c_malloc_def loop_heap_def)
  consider (meta) "extended_metadata A" | (json) "\<not> extended_metadata A" "json_output A"
    | (stream) "\<not> extended_metadata A" "\<not> json_output A" "stream_size A > 0"
    | (extended) "\<not> extended_metadata A" "\<not> json_output A" "\<not> stream_size A > 0" "extended_stream_size A > 0"
    | (plain) "\<not> extended_metadata A" "\<not> json_output A" "\<not> stream_size A > 0" "\<not> extended_stream_size A > 0" by blast
  then show ?thesis
  proof cases
    case meta
    then obtain md where md: "DS_SpeechToTextWithMetadata env M samples 1 = Some md" "first_transcript md = Some s" "lines = []"
      using assms(3) by (auto simp: LocalDsSTT_def Option.bind_eq_Some_conv)
    obtain r h' B where r: "SpeechToTextWithMetadata_mem env new M samples 1 h = Some (r, h')" "result_in h h' r md B"
      using speech_to_metadata_mem [OF assms(1,2) md(1)] by blast
    show ?thesis using meta r(1) to_string_mem [OF r(2) md(2), of new] free_after_string [OF assms(1) r(2)] md(3)
      by (simp add: LocalDsSTT_mem_def)
  next
    case json
    then obtain md where md: "DS_SpeechToTextWithMetadata env M samples (word_of_int (json_candidate_transcripts A)) = Some md"
      "s = MetadataToJSON show_num md" "lines = []"
      using assms(3) by (auto simp: LocalDsSTT_def Option.bind_eq_Some_conv)
    obtain r h' B where r: "SpeechToTextWithMetadata_mem env new M samples (word_of_int (json_candidate_transcripts A)) h = Some (r, h')" "result_in h h' r md B"
      using speech_to_metadata_mem [OF assms(1,2) md(1)] by blast
    have "metadata_at h' r = Some md" using metadata_rep_at r(2) by (auto simp: result_in_def)
    then show ?thesis using json r(1) free_after_string [OF assms(1) r(2)] md(2,3)
      by (simp add: LocalDsSTT_mem_def MetadataToJSON_mem_def c_malloc_def)
  next
    case stream
    then obtain st where st: "stream_loop env M (DS_IntermediateDecode env M) (nat (stream_size A)) samples None [] (new_stream M) = Some (lines, st)"
      "DS_FinishStream env M st = Some s"
      using assms(3) by (auto simp: LocalDsSTT_def create_stream Option.bind_eq_Some_conv)
    obtain kept where kept: "stream_loop_mem env M (partial_text env new M ?ctx) (nat (stream_size A)) samples None [] ?ctx (loop_heap h ?ctx (new_stream M) None)
        = Some (lines, map_option fst kept, loop_heap h ?ctx st kept)" "kept_ok h ?ctx kept"
      using stream_loop_mem_refines [of env M "DS_IntermediateDecode env M" "nat (stream_size A)" samples None "[]" "new_stream M" lines st h ?ctx,
          OF _ ctx(2) partial_text_ok [OF assms(1)]] st(1) by auto
    have "(if map_option fst kept \<noteq> None then DS_FreeString (map_option fst kept) (loop_heap h ?ctx st kept) else Some (loop_heap h ?ctx st kept))
        = Some (h(?ctx \<mapsto> Stream st))" using kept(2)
      by (auto simp: kept_ok_def loop_heap_def DS_FreeString_def c_free_def fun_eq_iff split: option.splits)
    then show ?thesis using stream create kept(1) finish_stream_mem [OF assms(1,2) ctx(1) st(2)]
      by (auto simp: LocalDsSTT_mem_def)
  next
    case extended
    then obtain st md where st: "stream_loop env M (\<lambda>ctx. Option.bind (DS_IntermediateDecodeWithMetadata env M 1 ctx) first_transcript)
        (nat (extended_stream_size A)) samples None [] (new_stream M) = Some (lines, st)"
      "DS_FinishStreamWithMetadata env M 1 st = Some md" "first_transcript md = Some s"
      using assms(3) by (auto simp: LocalDsSTT_def create_stream Option.bind_eq_Some_conv)
    obtain kept where kept: "stream_loop_mem env M (partial_metadata env new M ?ctx) (nat (extended_stream_size A)) samples None [] ?ctx (loop_heap h ?ctx (new_stream M) None)
        = Some (lines, map_option fst kept, loop_heap h ?ctx st kept)" "kept_ok h ?ctx kept"
      using stream_loop_mem_refines [of env M _ "nat (extended_stream_size A)" samples None "[]" "new_stream M" lines st h ?ctx,
          OF _ ctx(2) partial_metadata_ok [OF assms(1)]] st(1) by auto
    let ?h = "case kept of None \<Rightarrow> h | Some (l, t) \<Rightarrow> h(l \<mapsto> Text t)"
    have h: "finite (dom ?h)" "?h ?ctx = None" "loop_heap h ?ctx st kept = ?h(?ctx \<mapsto> Stream st)" "DS_FreeString (map_option fst kept) ?h = Some h"
      using kept(2) by (auto simp: kept_ok_def loop_heap_def DS_FreeString_def c_free_def fun_upd_twist split: option.splits)
    obtain r h' B where r: "FinishStreamWithMetadata_mem env new M 1 ?ctx (loop_heap h ?ctx st kept) = Some (r, h')" "result_in ?h h' r md B"
      using finish_metadata_mem [OF assms(1) h(1,2) st(2)] h(3) by auto
    note f = free_after_string [OF assms(1) r(2)]
    have "DS_FreeString (map_option fst kept) (?h(new h' \<mapsto> Text s)) = Some (h(new h' \<mapsto> Text s))" "h (new h') = None"
      using f(2) kept(2) by (auto simp: kept_ok_def DS_FreeString_def c_free_def fun_upd_twist split: option.splits if_splits)
    then show ?thesis using extended create kept(1) r(1) to_string_mem [OF r(2) st(3), of new] f(1)
      by (auto simp: LocalDsSTT_mem_def)
  next
    case plain
    then show ?thesis using assms(3) speech_to_text_mem [OF assms(1,2)] by (auto simp: LocalDsSTT_def LocalDsSTT_mem_def Option.bind_eq_Some_conv)
  qed
qed

text \<open>
  C14: the client manages its memory.  In every mode, when a file is transcribed, the client with explicit memory
  prints the same lines, and at the end the heap is what it was: every stream, result, string and buffer that
  was allocated on the way is freed exactly once, after its last use.
\<close>

theorem client_frees_memory:
  assumes "malloc_ok new" and "finite (dom h)" and "ProcessFile W A M path = Some lines"
  shows "ProcessFile_mem W new A M path h = Some (lines, h)"
proof -
  obtain audio ls s where r: "GetAudioBuffer (w_ndebug W) (w_contents W path) (DS_GetModelSampleRate M) = Some audio"
    "LocalDsSTT (w_env W) (w_show_num W) A M (take (length audio div 2) (samples_of audio)) = Some (ls, s)"
    "lines = ls @ [s] @ (if show_times A then [w_time_line W] else [])"
    using assms(3) by (auto simp: ProcessFile_def split: Option.bind_splits)
  let ?b = "new h" let ?h = "h(?b \<mapsto> Text audio)"
  have b: "h ?b = None" "finite (dom ?h)" using fresh_none [OF assms(1,2)] assms(2) by simp_all
  obtain a where a: "LocalDsSTT_mem (w_env W) new (w_show_num W) A M (take (length audio div 2) (samples_of audio)) ?h = Some (ls, a, ?h(a \<mapsto> Text s))" "?h a = None"
    using LocalDsSTT_mem_refines [OF assms(1) b(2) r(2)] by blast
  have n: "a \<noteq> ?b" "h a = None" using a(2) by (auto split: if_splits)
  have "?h(a \<mapsto> Text s, ?b := None) = h(a \<mapsto> Text s)" "h(a \<mapsto> Text s, a := None) = h" using n b(1) by auto
  then show ?thesis using r(1,3) a(1) n by (simp add: ProcessFile_mem_def c_malloc_def c_free_def DS_FreeString_def)
qed

theorem client_frees_memory_witness:
  "ProcessFile_mem quiet_world first_free (default_args\<lparr>extended_metadata := True\<rparr>) silent_model ''a'' [5 \<mapsto> Text ''kept''] = Some ([[]], [5 \<mapsto> Text ''kept''])"
proof -
  have rate: "sint (sample_rate silent_model) = 16000" by (simp add: silent_model_def tiny_model_def)
  have "ProcessFile quiet_world (default_args\<lparr>extended_metadata := True\<rparr>) silent_model ''a'' = Some [[]]"
    using GetAudioBuffer_wav [of 16000 "[1, 2, 3]" False] rate
    by (simp add: ProcessFile_def quiet_world_def DS_GetModelSampleRate_def samples_of_bytes LocalDsSTT_def default_args_def silent_metadata
        first_transcript_def CandidateTranscriptToString_def c_str_def)
  from client_frees_memory [OF first_free_ok _ this] show ?thesis by simp
qed

end
