(* ===== verification/Cde_Log_Spec.thy ===== *)
theory Cde_Log_Spec
  imports Cde_Log
begin

text \<open>
  Bounds of the log buffers: when a message fits, what a hex dump prints, and that a limit on the number of
  messages is kept.
\<close>

section \<open>Strings in buffers\<close>

definition holds :: "string \<Rightarrow> string \<Rightarrow> bool" where
  "holds buf s \<longleftrightarrow> NUL \<notin> set s \<and> (\<exists>pad. buf = s @ NUL # pad)"

lemma takeWhile_nul: "NUL \<notin> set s \<Longrightarrow> takeWhile (\<lambda>c. c \<noteq> NUL) (s @ NUL # pad) = s"
  by (subst takeWhile_append2) auto

lemma snprintf_none [simp]: "snprintf_at buf off 0 t = Some buf"
  by (simp add: snprintf_at_def)

lemma holds_c_string: "holds buf s \<Longrightarrow> c_string buf = s"
  by (auto simp: holds_def c_string_def takeWhile_nul)

lemma holds_length: "holds buf s \<Longrightarrow> length s < length buf"
  by (auto simp: holds_def)

lemma holds_end: "holds buf s \<Longrightarrow> end_of_string buf = Some (length s)"
  by (auto simp: holds_def end_of_string_def takeWhile_nul)

lemma holds_memset: "0 < n \<Longrightarrow> \<exists>buf. cde_memset NUL n (replicate n NUL) = Some buf \<and> length buf = n \<and> holds buf []"
  by (cases n) (auto simp: cde_memset_def write_at_def holds_def)

lemma holds_write:
  assumes "holds buf s" "NUL \<notin> set t" "length s + length t < length buf"
  shows "\<exists>buf'. write_at buf (length s) (t @ [NUL]) = Some buf' \<and> length buf' = length buf \<and> holds buf' (s @ t)"
  using assms by (auto simp: holds_def write_at_def)

lemma strcat_holds:
  assumes "holds buf s" "NUL \<notin> set t" "length s + length t < length buf"
  shows "\<exists>buf'. cde_strcat buf t = Some buf' \<and> length buf' = length buf \<and> holds buf' (s @ t)"
  using holds_write [OF assms] holds_end [OF assms(1)] by (simp add: cde_strcat_def)

lemma snprintf_holds:
  assumes "holds buf s" "NUL \<notin> set t" "0 < n" "length s + n \<le> length buf"
  shows "\<exists>buf'. snprintf_at buf (length s) n t = Some buf' \<and> length buf' = length buf \<and> holds buf' (s @ take (n - 1) t)"
proof -
  have "NUL \<notin> set (take (n - 1) t)" using assms(2) by (meson in_set_takeD)
  moreover have "length s + length (take (n - 1) t) < length buf" using assms(3,4) by simp
  ultimately show ?thesis using holds_write [OF assms(1)] assms(3) by (simp add: snprintf_at_def)
qed

section \<open>Messages\<close>

lemma size_arg_small: "0 \<le> n \<Longrightarrow> n < 2 ^ 64 \<Longrightarrow> size_arg n = nat n"
  by (simp add: size_arg_def)

lemma size_arg_negative: "n < 0 \<Longrightarrow> - (2 ^ 64) < n \<Longrightarrow> 0 < size_arg n"
  using mod_pos_pos_trivial [of "n + 2 ^ 64" "2 ^ 64"] by (simp add: size_arg_def)

lemma fill_log_buf_short:
  assumes "NUL \<notin> set p" "NUL \<notin> set c" "length p < LOG_BUF_LEN" "length p + length c \<le> LOG_BUF_LEN"
  shows "\<exists>buf. fill_log_buf p c = Some buf \<and> c_string buf = take (LOG_BUF_LEN - 1) (p @ c @ [CHR 0x0A])"
proof -
  let ?L = LOG_BUF_LEN and ?n1 = "LOG_BUF_LEN - length p" and ?n2 = "LOG_BUF_LEN - length p - length c"
  have L: "?L = 4096" by (simp add: LOG_BUF_LEN_def)
  obtain b0 where b0: "cde_memset NUL ?L (replicate ?L NUL) = Some b0" "length b0 = ?L" "holds b0 []" using holds_memset [of ?L] L by auto
  obtain b1 where b1: "snprintf_at b0 0 ?L p = Some b1" "length b1 = ?L" "holds b1 p"
    using snprintf_holds [OF b0(3) assms(1), of ?L] b0(2) assms(3) L by auto
  have n1: "size_arg (int ?L - int (length p)) = ?n1" using size_arg_small [of "int ?L - int (length p)"] assms(3) L by simp
  have n2: "size_arg (int ?L - int (length p) - int (length c)) = ?n2"
    using size_arg_small [of "int ?L - int (length p) - int (length c)"] assms(4) L by simp
  obtain b2 where b2: "snprintf_at b1 (length p) ?n1 c = Some b2" "length b2 = ?L" "holds b2 (p @ take (?n1 - 1) c)"
    using snprintf_holds [OF b1(3) assms(2), of ?n1] b1(2) assms(3) by auto
  show ?thesis
  proof (cases "length p + length c = ?L")
    case True
    then have "fill_log_buf p c = Some b2" using b0(1) b1(1) b2(1) n1 n2 by (simp add: fill_log_buf_def Let_def)
    moreover have "p @ take (?n1 - 1) c = take (?L - 1) (p @ c @ [CHR 0x0A])" using True assms(3) by simp
    ultimately show ?thesis using holds_c_string [OF b2(3)] by simp
  next
    case False
    then have lt: "length p + length c < ?L" using assms(4) by simp
    have h: "holds b2 (p @ c)" using b2(3) lt by simp
    obtain b3 where b3: "snprintf_at b2 (length (p @ c)) ?n2 [CHR 0x0A] = Some b3" "holds b3 ((p @ c) @ take (?n2 - 1) [CHR 0x0A])"
      using snprintf_holds [OF h, of "[CHR 0x0A]" ?n2] b2(2) lt by auto
    have "fill_log_buf p c = Some b3" using b0(1) b1(1) b2(1) b3(1) n1 n2 by (simp add: fill_log_buf_def Let_def)
    moreover have "(p @ c) @ take (?n2 - 1) [CHR 0x0A] = take (?L - 1) (p @ c @ [CHR 0x0A])" using lt by simp
    ultimately show ?thesis using holds_c_string [OF b3(2)] by simp
  qed
qed

lemma fill_log_buf_full:
  assumes "NUL \<notin> set p" "length p = LOG_BUF_LEN"
  shows "\<exists>buf. fill_log_buf p [] = Some buf \<and> c_string buf = take (LOG_BUF_LEN - 1) (p @ [] @ [CHR 0x0A])"
proof -
  let ?L = LOG_BUF_LEN
  have L: "?L = 4096" by (simp add: LOG_BUF_LEN_def)
  obtain b0 where b0: "cde_memset NUL ?L (replicate ?L NUL) = Some b0" "length b0 = ?L" "holds b0 []" using holds_memset [of ?L] L by auto
  obtain b1 where b1: "snprintf_at b0 0 ?L p = Some b1" "holds b1 (take (?L - 1) p)"
    using snprintf_holds [OF b0(3) assms(1), of ?L] b0(2) L by auto
  then show ?thesis using b0(1) assms(2) holds_c_string [OF b1(2)]
    by (simp add: fill_log_buf_def size_arg_def Let_def)
qed

lemma fill_log_buf_long:
  assumes "LOG_BUF_LEN < length p + length c" "length p + length c < 2 ^ 31"
  shows "fill_log_buf p c = None"
proof -
  let ?L = LOG_BUF_LEN and ?off = "length p + length c"
  have neg: "0 < size_arg (int ?L - int (length p) - int (length c))" by (rule size_arg_negative) (use assms in simp_all)
  have keep: "write_at b i s = Some b' \<Longrightarrow> length b' = length b" for b i s b' by (auto simp: write_at_def split: if_splits)
  then have keep2: "snprintf_at b i n s = Some b' \<Longrightarrow> length b' = length b" for b i n s b' by (auto simp: snprintf_at_def split: if_splits)
  have last: "snprintf_at b ?off (size_arg (int ?L - int (length p) - int (length c))) t = None" if "length b = ?L" for b t
    using neg assms(1) that by (simp add: snprintf_at_def write_at_def)
  show ?thesis unfolding fill_log_buf_def cde_memset_def
    by (auto split: Option.bind_splits simp: Let_def intro!: last dest!: keep keep2)
qed

lemma digit_nul: "n < 16 \<Longrightarrow> digit n \<noteq> NUL"
proof
  assume "n < 16" "digit n = NUL"
  then have "(of_char (digit n) :: nat) = 0" by simp
  then show False using \<open>n < 16\<close> by (auto simp: digit_def split: if_splits)
qed

lemma digits_nul: "1 < base \<Longrightarrow> base \<le> 16 \<Longrightarrow> NUL \<notin> set (digits base n)"
proof (induction base n rule: digits.induct)
  case (1 base n)
  show ?case
  proof (cases "n < base")
    case True
    then show ?thesis using 1(3) digit_nul [of n] by (subst digits.simps) auto
  next
    case False
    then have "digits base n = digits base (n div base) @ [digit (n mod base)]" using 1(2) by (subst digits.simps) simp
    moreover have "n mod base < 16" using 1(2,3) by (meson less_le_trans mod_less_divisor not_less_iff_gr_or_eq zero_less_one less_trans)
    ultimately show ?thesis using 1(1) [OF _ 1(2,3)] 1(2) False digit_nul [of "n mod base"] by auto
  qed
qed

lemma strrchr_set: "cde_strrchr s c = Some r \<Longrightarrow> set r \<subseteq> set s"
  by (induction s arbitrary: r) (auto split: option.splits if_splits)

lemma base_name_nul: "NUL \<notin> set path \<Longrightarrow> NUL \<notin> set (base_name path)"
proof (cases "cde_strrchr path (CHR ''/'')")
  case (Some r)
  assume "NUL \<notin> set path"
  then have "NUL \<notin> set r" using strrchr_set [OF Some] by blast
  then show ?thesis using Some by (cases r) (auto simp: base_name_def)
qed (simp add: base_name_def)

lemma log_prefix_nul: "NUL \<notin> set path \<Longrightarrow> NUL \<notin> set func \<Longrightarrow> NUL \<notin> set (log_prefix priority path func line)"
  using base_name_nul [of path] digits_nul [of 10] by (auto simp: log_prefix_def log_color_def esc_def dec_def)

text \<open>
  C39: what the log buffer holds.  A message is printed with its prefix and a line end, cut to the size
  of the buffer, as long as prefix and message together have at most 4096 characters; a longer
  message writes outside of the buffer.
\<close>

theorem log_message_bounds:
  assumes "NUL \<notin> set path" and "NUL \<notin> set func" and "NUL \<notin> set content"
    and "length (log_prefix priority path func line) + length content < 2 ^ 31"
  shows "LOG_PRI_ZWG_IMPL path func line priority content s =
    (if length (log_prefix priority path func line) + length content \<le> 4096
     then Some (s\<lparr>log_out := log_out s @ [take 4095 (log_prefix priority path func line @ content @ [CHR 0x0A]), esc ''0'']\<rparr>)
     else None)"
proof -
  let ?p = "log_prefix priority path func line"
  have L: "LOG_BUF_LEN = 4096" by (simp add: LOG_BUF_LEN_def)
  note p = log_prefix_nul [OF assms(1,2), of priority line]
  show ?thesis
  proof (cases "length ?p + length content \<le> 4096")
    case True
    have "\<exists>buf. fill_log_buf ?p content = Some buf \<and> c_string buf = take (LOG_BUF_LEN - 1) (?p @ content @ [CHR 0x0A])"
    proof (cases "length ?p < 4096")
      case short: True
      show ?thesis by (rule fill_log_buf_short [OF p assms(3)]) (use short True L in simp_all)
    next
      case False
      then have "length content = 0" "length ?p = LOG_BUF_LEN" using True L by linarith+
      then show ?thesis using fill_log_buf_full [OF p] by simp
    qed
    moreover have "LOG_BUF_LEN - 1 = 4095" by (simp add: LOG_BUF_LEN_def)
    ultimately obtain buf where "fill_log_buf ?p content = Some buf" "c_string buf = take 4095 (?p @ content @ [CHR 0x0A])" by metis
    then show ?thesis using True by (simp add: LOG_PRI_ZWG_IMPL_def print_message_def del: take_append)
  next
    case False
    then have "fill_log_buf ?p content = None" using fill_log_buf_long [of ?p content] assms(4) L by simp
    then show ?thesis using False by (simp add: LOG_PRI_ZWG_IMPL_def print_message_def)
  qed
qed

theorem log_message_bounds_witness:
  "LOG_PRI_ZWG_IMPL ''src/a.cc'' ''f'' 7 3 ''hi'' log_start =
     Some (log_start\<lparr>log_out := [CHR 0x1B # ''[1;33m[a.cc, f, 7]: hi'' @ [CHR 0x0A], esc ''0'']\<rparr>)
   \<and> LOG_PRI_ZWG_IMPL ''src/a.cc'' ''f'' 7 3 (replicate 4096 (CHR ''x'')) log_start = None"
proof -
  have "char_of (55 :: nat) = CHR ''7''" by code_simp
  then have p: "log_prefix 3 ''src/a.cc'' ''f'' 7 = CHR 0x1B # ''[1;33m[a.cc, f, 7]: ''"
    by (simp add: log_prefix_def log_color_def esc_def base_name_def dec_def digits.simps digit_def)
  show ?thesis
    using log_message_bounds [of "''src/a.cc''" "''f''" "''hi''" 3 7 log_start] log_message_bounds [of "''src/a.cc''" "''f''" "replicate 4096 (CHR ''x'')" 3 7 log_start]
    by (simp add: p log_start_def)
qed

text \<open>The limit on the number of messages.\<close>

lemma log_limit_step:
  assumes "LOG_PRI_ORIG_IMPL k path func line priority content s = Some s'" "gMaxDumpCounts s = n" "0 < n" "gLogDumpCounts s \<le> n"
  shows "gMaxDumpCounts s' = n \<and> gLogDumpCounts s' \<le> n
    \<and> int (length (log_out s')) - int (length (log_out s)) \<le> 2 * (gLogDumpCounts s' - gLogDumpCounts s)"
  using assms
  by (auto simp: LOG_PRI_ORIG_IMPL_def print_message_def dump_limit_reached_def split: if_splits Option.bind_splits)

lemma log_limit_kept:
  assumes "mfold (\<lambda>(path, func, line, priority, content). LOG_PRI_ORIG_IMPL k path func line priority content) msgs (cdelog_setGlobalDumpCounts n s) = Some s'"
    and "0 < n"
  shows "int (length (log_out s')) \<le> int (length (log_out s)) + 2 * n"
proof -
  let ?P = "\<lambda>t. gMaxDumpCounts t = n \<and> gLogDumpCounts t \<le> n \<and> int (length (log_out t)) \<le> int (length (log_out s)) + 2 * gLogDumpCounts t"
  have "?P s'"
  proof (rule mfold_preserves [OF assms(1)])
    show "?P (cdelog_setGlobalDumpCounts n s)" using assms(2) by (simp add: cdelog_setGlobalDumpCounts_def)
  next
    fix m t t' assume "?P t" "(case m of (path, func, line, priority, content) \<Rightarrow> LOG_PRI_ORIG_IMPL k path func line priority content) t = Some t'"
    then show "?P t'" using log_limit_step [of k _ _ _ _ _ t t' n] assms(2) by (cases m) fastforce
  qed
  then show ?thesis by simp
qed

text \<open>Disabling a module has no effect: the first entry of the table lets every message pass.\<close>

lemma module_switch_ineffective:
  assumes "gLogPropConfs s = p # ps" "szModuleName p = ''ijkplayer''" "cdelog_setGlobalLogModule name b s = Some s'"
  shows "module_allows tag path (gLogPropConfs s') = Some True"
  using assms by (auto simp: cdelog_setGlobalLogModule_def memcmp_equal_def split: option.splits if_splits)

section \<open>Hex dumps\<close>

text \<open>A line of a dump: the offset, sixteen columns with a gap in the middle, and the text.\<close>

definition hex_cell :: "string \<Rightarrow> nat \<Rightarrow> string" where
  "hex_cell bytes i = (if i = 8 then '' '' else []) @ (if i < length bytes then hex 2 (of_char (bytes ! i)) @ '' '' else ''   '')"

definition shown :: "char \<Rightarrow> char" where
  "shown c = (if cde_isprint (of_char c) then c else CHR ''.'')"

definition ref_line :: "string \<Rightarrow> nat \<Rightarrow> string" where
  "ref_line data offset =
     (let bytes = take 16 (drop offset data) in
      hex 8 offset @ '':  '' @ concat (map (hex_cell bytes) [0..<16]) @ '' '' @ map shown bytes)"

lemma digits_length: "n < 16 ^ Suc w \<Longrightarrow> length (digits 16 n) \<le> Suc w"
proof (induction w arbitrary: n)
  case 0
  then show ?case by (subst digits.simps) simp
next
  case (Suc w)
  show ?case
  proof (cases "n < 16")
    case True
    then show ?thesis by (subst digits.simps) simp
  next
    case False
    then have "digits 16 n = digits 16 (n div 16) @ [digit (n mod 16)]" by (subst digits.simps) simp
    moreover have "n div 16 < 16 ^ Suc w" using Suc.prems by (simp add: less_mult_imp_div_less mult.commute)
    ultimately show ?thesis using Suc.IH by simp
  qed
qed

lemma hex_length: "n < 16 ^ w \<Longrightarrow> 0 < w \<Longrightarrow> length (hex w n) = w"
  using digits_length [of n "w - 1"] by (simp add: hex_def)

lemma hex_nul: "NUL \<notin> set (hex w n)"
  using digits_nul [of 16 n] by (simp add: hex_def)

lemma hex_byte: "length (hex 2 (of_char c)) = 2"
  by (rule hex_length) simp_all

lemma hex_cell_nul: "NUL \<notin> set (hex_cell bytes i)"
  using hex_nul by (auto simp: hex_cell_def)

lemma hex_cell_length: "length (hex_cell bytes i) = (if i = 8 then 4 else 3)"
  by (simp add: hex_cell_def hex_byte)

lemma shown_nul: "shown c \<noteq> NUL"
proof -
  have "\<not> cde_isprint (of_char NUL)" by code_simp
  then show ?thesis by (auto simp: shown_def)
qed

lemma take_whole: "length s \<le> n \<Longrightarrow> take n s = s"
  by simp

lemma hex_column_cell:
  assumes "holds buf s" "length s + 4 < length buf" "i < 16" "len = length data"
  shows "\<exists>buf'. hex_column data len offset i buf = Some buf' \<and> length buf' = length buf \<and> holds buf' (s @ hex_cell (take 16 (drop offset data)) i)"
proof -
  let ?gap = "if i = 8 then '' '' else []" and ?cell = "if offset + i < length data then hex 2 (of_char (data ! (offset + i))) @ '' '' else ''   ''"
  obtain b where b: "(if i = 8 then cde_strcat buf (snprintf_str 32 '' '') else Some buf) = Some b" "length b = length buf" "holds b (s @ ?gap)"
    using strcat_holds [OF assms(1), of "'' ''"] assms(1,2) by (cases "i = 8") (auto simp: snprintf_str_def)
  have cell: "NUL \<notin> set ?cell" "length ?cell = 3" using hex_nul hex_byte by auto
  have "length (s @ ?gap) + length ?cell < length b" unfolding cell(2) using assms(2) b(2) by (cases "i = 8") simp_all
  from strcat_holds [OF b(3) cell(1) this] obtain b' where b': "cde_strcat b ?cell = Some b'" "length b' = length buf" "holds b' ((s @ ?gap) @ ?cell)"
    unfolding b(2) by blast
  have c: "hex_cell (take 16 (drop offset data)) i = ?gap @ ?cell" using assms(3) by (auto simp: hex_cell_def)
  have "hex_column data len offset i buf = cde_strcat b ?cell"
    using b(1) cell(2) assms(4) by (auto simp: hex_column_def snprintf_str_def hex_byte)
  then show ?thesis using b' c by auto
qed

lemma hex_columns_cells:
  assumes "holds buf s" "k \<le> 16" "length s + 4 * k < length buf" "len = length data"
  shows "\<exists>buf'. mfold (hex_column data len offset) [0..<k] buf = Some buf' \<and> length buf' = length buf
    \<and> holds buf' (s @ concat (map (hex_cell (take 16 (drop offset data))) [0..<k]))"
  using assms(2,3)
proof (induction k)
  case 0
  then show ?case using assms(1) by simp
next
  case (Suc k)
  let ?t = "s @ concat (map (hex_cell (take 16 (drop offset data))) [0..<k])"
  obtain b where b: "mfold (hex_column data len offset) [0..<k] buf = Some b" "length b = length buf" "holds b ?t" using Suc by auto
  have "length (concat (map (hex_cell bs) xs)) \<le> 4 * length xs" for bs xs by (induction xs) (simp_all add: hex_cell_length)
  from this [of "take 16 (drop offset data)" "[0..<k]"] have "length ?t + 4 < length b" using Suc.prems(2) b(2) by simp
  from hex_column_cell [OF b(3) this _ assms(4), of k offset] show ?case using Suc.prems(1) b(1,2) by (auto simp: mfold_append)
qed

lemma text_columns_shown:
  assumes "holds buf s" "k \<le> n" "length s + (n - k) < length buf" "len = length data"
  shows "\<exists>buf'. text_columns data len offset [k..<n] buf = Some buf' \<and> holds buf' (s @ map shown (take (n - k) (drop (offset + k) data)))"
  using assms(1-3)
proof (induction "n - k" arbitrary: k s buf)
  case 0
  then show ?case by auto
next
  case (Suc d)
  then have k: "[k..<n] = k # [Suc k..<n]" by (simp add: upt_conv_Cons)
  show ?case
  proof (cases "offset + k < length data")
    case True
    let ?c = "data ! (offset + k)"
    have "drop (offset + k) data = ?c # drop (offset + Suc k) data" using True by (simp add: Cons_nth_drop_Suc)
    then have t: "take (n - k) (drop (offset + k) data) = ?c # take (n - Suc k) (drop (offset + Suc k) data)"
    proof -
      have "n - k = Suc (n - Suc k)" using Suc(2) by simp
      then show ?thesis using \<open>drop (offset + k) data = ?c # drop (offset + Suc k) data\<close> by simp
    qed
    obtain b where b: "cde_strcat buf [shown ?c] = Some b" "length b = length buf" "holds b (s @ [shown ?c])"
      using strcat_holds [OF Suc(3), of "[shown ?c]"] shown_nul [of ?c] Suc(2,5) by auto
    have "\<exists>buf'. text_columns data len offset [Suc k..<n] b = Some buf' \<and> holds buf' ((s @ [shown ?c]) @ map shown (take (n - Suc k) (drop (offset + Suc k) data)))"
      by (rule Suc(1) [OF _ b(3)]) (use Suc(2,4,5) b(2) in auto)
    moreover have "snprintf_str 32 (if cde_isprint (of_char ?c) then [?c] else ''.'') = [shown ?c]" by (simp add: snprintf_str_def shown_def)
    ultimately show ?thesis using True b(1) t assms(4) by (simp add: k)
  next
    case False
    then show ?thesis using Suc(3) assms(4) by (simp add: k)
  qed
qed

text \<open>No line is longer than its buffer.\<close>

lemma dump_line_eq:
  assumes "len = length data" "offset < 2 ^ 32"
  shows "dump_line data len offset = Some (ref_line data offset)"
proof -
  let ?bytes = "take 16 (drop offset data)"
  let ?s1 = "hex 8 offset @ '':  ''" and ?cells = "concat (map (hex_cell ?bytes) [0..<16])"
  have s1: "NUL \<notin> set ?s1" "length ?s1 = 11" using hex_nul [of 8 offset] hex_length [of offset 8] assms(2) by simp_all
  obtain b0 where b0: "cde_memset NUL 128 (replicate 128 NUL) = Some b0" "length b0 = 128" "holds b0 []" using holds_memset [of 128] by auto
  obtain b1 where b1: "cde_strcat b0 (snprintf_str 32 ?s1) = Some b1" "length b1 = 128" "holds b1 ?s1"
    using strcat_holds [OF b0(3) s1(1)] s1(2) b0(2) by (auto simp: snprintf_str_def simp del: take_append)
  obtain b2 where b2: "mfold (hex_column data len offset) [0..<16] b1 = Some b2" "length b2 = 128" "holds b2 (?s1 @ ?cells)"
    using hex_columns_cells [OF b1(3), of 16 len data offset] s1(2) b1(2) assms(1) by auto
  have cells: "length ?cells = 49" by (simp add: length_concat comp_def hex_cell_length upt_rec)
  obtain b3 where b3: "cde_strcat b2 (snprintf_str 32 '' '') = Some b3" "length b3 = 128" "holds b3 ((?s1 @ ?cells) @ '' '')"
    using strcat_holds [OF b2(3), of "'' ''"] s1(2) cells b2(2) by (auto simp: snprintf_str_def)
  obtain b4 where b4: "text_columns data len offset [0..<16] b3 = Some b4" "holds b4 (((?s1 @ ?cells) @ '' '') @ map shown ?bytes)"
    using text_columns_shown [OF b3(3), of 0 16 len data offset] s1(2) cells b3(2) assms(1) by auto
  show ?thesis using b0(1) b1(1) b2(1) b3(1) b4(1) holds_c_string [OF b4(2)]
    by (simp add: dump_line_def ref_line_def Let_def del: upt_conv_Cons)
qed

definition line_starts :: "nat \<Rightarrow> nat \<Rightarrow> nat list" where
  "line_starts offset len = map (\<lambda>k. offset + 16 * k) [0..<(len - offset + 15) div 16]"

lemma line_starts_end: "len \<le> offset \<Longrightarrow> line_starts offset len = []"
  by (simp add: line_starts_def)

lemma line_starts_next:
  assumes "offset < len"
  shows "line_starts offset len = offset # line_starts (offset + 16) len"
proof -
  define x where "x = len - offset"
  have "(x + 15) div 16 = Suc ((x - 16 + 15) div 16)"
  proof (cases "x \<le> 16")
    case True
    have "x \<noteq> 0" using assms by (simp add: x_def)
    then have "(x + 15) div 16 = Suc ((x - 1) div 16)" using div_add_self2 [of 16 "x - 1"] by simp
    then show ?thesis using True by simp
  next
    case False
    then show ?thesis using div_add_self2 [of 16 "x - 1"] by simp
  qed
  then obtain n where n: "(len - offset + 15) div 16 = Suc n" "(len - (offset + 16) + 15) div 16 = n"
    unfolding x_def diff_diff_left by blast
  have "map (\<lambda>k. offset + 16 * k) [0..<Suc n] = offset # map (\<lambda>k. offset + 16 + 16 * k) [0..<n]"
    by (simp add: upt_conv_Cons map_Suc_upt [symmetric] comp_def add.assoc del: upt_Suc)
  then show ?thesis unfolding line_starts_def n .
qed

lemma dump_loop_all:
  assumes "len = length data" "len < 2 ^ 32" "should_skip \<longrightarrow> len \<le> 160"
  shows "dump_loop data len should_skip offset out = Some (out @ map (ref_line data) (line_starts offset len))"
proof (induction "len - offset" arbitrary: offset out rule: less_induct)
  case less
  show ?case
  proof (cases "offset < len")
    case True
    have "dump_line data len offset = Some (ref_line data offset)" using dump_line_eq [OF assms(1), of offset] True assms(2) by simp
    then have "dump_loop data len should_skip offset out = dump_loop data len should_skip (offset + 16) (out @ [ref_line data offset])"
      using True assms(3) by (subst dump_loop.simps) auto
    then show ?thesis using less [of "offset + 16"] True line_starts_next [OF True] by simp
  next
    case False
    then show ?thesis by (subst dump_loop.simps) (simp add: line_starts_end)
  qed
qed

lemma dump_loop_step:
  assumes "len = length data" "len < 2 ^ 32" "offset < 64" "160 < len"
  shows "dump_loop data len True offset out = dump_loop data len True (offset + 16) (out @ [ref_line data offset])"
  using assms dump_line_eq [OF assms(1), of offset] by (subst dump_loop.simps) simp

lemma dump_loop_skip:
  assumes "offset < len" "160 < len" "dump_line data len offset = Some l" "(int (len div 16) - 2) * 16 < 2 ^ 31"
    "(int (len div 16) - 2) * 16 = int m" "64 \<le> offset"
  shows "dump_loop data len True offset out = dump_loop data len False m (out @ [l] @ [''........''])"
  using assms by (subst dump_loop.simps) (simp add: Let_def)

lemma dump_loop_skips:
  assumes "len = length data" "len < 2 ^ 31" "160 < len"
  shows "dump_loop data len True 0 [] =
    Some (map (ref_line data) [0, 16, 32, 48, 64] @ [''........''] @ map (ref_line data) (line_starts ((len div 16 - 2) * 16) len))"
proof -
  have small: "len < 2 ^ 32" using assms(2) by simp
  have "10 \<le> len div 16" using div_le_mono [of 160 len 16] assms(3) by simp
  then have pos: "(int (len div 16) - 2) * 16 = int ((len div 16 - 2) * 16)" by (simp add: of_nat_diff)
  have "(len div 16 - 2) * 16 \<le> len" using div_times_less_eq_dividend [of len 16] by (simp add: diff_mult_distrib)
  then have "(len div 16 - 2) * 16 < 2147483648" using assms(2) by simp
  then have "int ((len div 16 - 2) * 16) < 2147483648" by (simp only: of_nat_less_numeral_iff)
  then have fits: "(int (len div 16) - 2) * 16 < 2 ^ 31" unfolding pos by (rule less_le_trans) simp
  have line: "dump_line data len 64 = Some (ref_line data 64)" using dump_line_eq [OF assms(1), of 64] by simp
  let ?out = "map (ref_line data) [0, 16, 32, 48]"
  have "dump_loop data len True 0 [] = dump_loop data len True 64 ?out"
    using assms(3) by (simp add: dump_loop_step [OF assms(1) small])
  also have "\<dots> = dump_loop data len False ((len div 16 - 2) * 16) (?out @ [ref_line data 64] @ [''........''])"
    by (rule dump_loop_skip [OF _ _ line fits pos]) (use assms(3) in simp_all)
  finally show ?thesis using dump_loop_all [OF assms(1) small, of False] by simp
qed

text \<open>
  C40: a hex dump shows the data.  It always ends, no line overflows its buffer, and each line shows the
  offset, the bytes in hexadecimal and as text; all data are shown, or, for a dump of more than 160 bytes that
  may skip, the first 80 bytes, a mark, and the last two full lines with what follows them.  A prefix is cut
  at 511 characters.
\<close>

theorem hexdump_shows_data:
  assumes "unat len = length data" and "length data < 2 ^ 31" and "\<not> dump_limit_reached s"
  shows "HEXDUMP_PRI_ORIG_IMPL path func line index data_name data len have_prefix should_skip s =
    Some (s\<lparr>log_out := log_out s
      @ (if have_prefix = 1 then [take 511 (dump_prefix path func line index data_name (length data)) @ [CHR 0x0A]] else []) @
      (if length data \<le> 160 \<or> should_skip \<noteq> 1 then map (ref_line data) (line_starts 0 (length data))
       else map (ref_line data) [0, 16, 32, 48, 64] @ [''........'']
         @ map (ref_line data) (line_starts ((length data div 16 - 2) * 16) (length data)))\<rparr>)"
proof -
  have small: "length data < 2 ^ 32" using assms(2) by simp
  show ?thesis
  proof (cases "length data \<le> 160 \<or> should_skip \<noteq> 1")
    case True
    then have "dump_loop data (length data) (should_skip = 1) 0 [] = Some (map (ref_line data) (line_starts 0 (length data)))"
      using dump_loop_all [OF refl small, of "should_skip = 1" 0 "[]"] by auto
    then show ?thesis using True assms(1,3) by (simp add: HEXDUMP_PRI_ORIG_IMPL_def snprintf_str_def)
  next
    case False
    then show ?thesis using dump_loop_skips [OF refl assms(2)] assms(1,3) by (simp add: HEXDUMP_PRI_ORIG_IMPL_def snprintf_str_def)
  qed
qed

theorem hexdump_shows_data_witness:
  "HEXDUMP_PRI_ORIG_IMPL ''a.c'' ''f'' 7 None ''d'' ''Hi'' 2 0 1 log_start =
     Some (log_start\<lparr>log_out := [''00000000:  48 69'' @ replicate 45 (CHR '' '') @ ''Hi'']\<rparr>)"
  using hexdump_shows_data [of 2 "''Hi''" log_start "''a.c''" "''f''" 7 None "''d''" 0 1]
  by (simp add: log_start_def dump_limit_reached_def) (code_simp)

end
