(* ===== verification/Thread_Pool.thy ===== *)
theory Thread_Pool
  imports Prelude
begin

text \<open>
  \<^verbatim>\<open>native_client/ctcdecode/third_party/ThreadPool/ThreadPool.h\<close>: the worker threads that decode a batch,
  and the part of \<^verbatim>\<open>ctc_beam_search_decoder_batch\<close> that uses them, as a step relation.

  Code between taking and releasing \<^verbatim>\<open>queue_mutex\<close> is one step.  A worker is about to take the lock,
  blocked in \<^verbatim>\<open>condition.wait\<close>, running a task outside of the lock, or has returned.  A task is the number
  of its promise and the arguments bound to it; \<open>work\<close> is the function, \<open>None\<close> when it does not return.
  A wake-up without notification, which the standard allows at any time, is a relation of its own.
\<close>

section \<open>The pool\<close>

datatype 'a worker = Locking | Waiting | Running nat 'a | Returned

record ('a, 'r) thread_pool =
  workers :: "'a worker list"
  pool_tasks :: "(nat \<times> 'a) list"
  stop :: bool
  promises :: "'r option list"

definition ThreadPool_new :: "('a, 'r) thread_pool" where
  "ThreadPool_new = \<lparr>workers = [], pool_tasks = [], stop = False, promises = []\<rparr>"

definition launch_worker :: "('a, 'r) thread_pool \<Rightarrow> ('a, 'r) thread_pool" where
  "launch_worker p = p\<lparr>workers := workers p @ [Locking]\<rparr>"

text \<open>What a worker does under the lock: the predicate of \<^verbatim>\<open>condition.wait\<close>, the test for the end, and
  taking the first task.\<close>

definition worker_turn :: "nat \<Rightarrow> ('a, 'r) thread_pool \<Rightarrow> ('a, 'r) thread_pool" where
  "worker_turn j p =
     (if stop p \<or> pool_tasks p \<noteq> [] then
        (case pool_tasks p of
           [] \<Rightarrow> p\<lparr>workers := (workers p)[j := Returned]\<rparr>
         | (f, a) # ts \<Rightarrow> p\<lparr>workers := (workers p)[j := Running f a], pool_tasks := ts\<rparr>)
      else p\<lparr>workers := (workers p)[j := Waiting]\<rparr>)"

text \<open>The task outside of the lock: it keeps its promise, which must not have been kept before.\<close>

definition run_task :: "('a \<Rightarrow> 'r option) \<Rightarrow> nat \<Rightarrow> ('a, 'r) thread_pool \<Rightarrow> ('a, 'r) thread_pool option" where
  "run_task work j p =
     (case workers p ! j of
        Running f a \<Rightarrow> do {
          r \<leftarrow> work a;
          if promises p ! f = None then Some (p\<lparr>workers := (workers p)[j := Locking], promises := (promises p)[f := Some r]\<rparr>)
          else None
        }
      | _ \<Rightarrow> None)"

definition enqueue :: "'a \<Rightarrow> ('a, 'r) thread_pool \<Rightarrow> string + ('a, 'r) thread_pool" where
  "enqueue a p =
     (if stop p then Inl ''enqueue on stopped ThreadPool''
      else Inr (p\<lparr>pool_tasks := pool_tasks p @ [(length (promises p), a)], promises := promises p @ [None]\<rparr>))"

definition wake :: "nat \<Rightarrow> ('a, 'r) thread_pool \<Rightarrow> ('a, 'r) thread_pool" where
  "wake j p = p\<lparr>workers := (workers p)[j := Locking]\<rparr>"

definition notify_all :: "('a, 'r) thread_pool \<Rightarrow> ('a, 'r) thread_pool" where
  "notify_all p = p\<lparr>workers := map (\<lambda>w. case w of Waiting \<Rightarrow> Locking | _ \<Rightarrow> w) (workers p)\<rparr>"

section \<open>Decoding a batch with the pool\<close>

text \<open>Where the calling thread is: in the constructor, before and after the critical section of a call of
  \<^verbatim>\<open>enqueue\<close>, waiting for a future, in the three parts of the destructor, or done.\<close>

datatype 'r batch_pc =
    Launching | Pushing nat | Notifying nat | Getting "'r list"
  | Stopping "'r list" | NotifyingAll "'r list" | Joining nat "'r list" | Finished "'r list"

type_synonym ('a, 'r) batch_state = "('a, 'r) thread_pool \<times> 'r batch_pc"

inductive pool_step :: "('a \<Rightarrow> 'r option) \<Rightarrow> 'a list \<Rightarrow> nat \<Rightarrow> ('a, 'r) batch_state \<Rightarrow> ('a, 'r) batch_state \<Rightarrow> bool"
  for work args threads where
  launch: "length (workers p) < threads \<Longrightarrow> pool_step work args threads (p, Launching) (launch_worker p, Launching)"
| launched: "length (workers p) = threads \<Longrightarrow> pool_step work args threads (p, Launching) (p, Pushing 0)"
| push: "i < length args \<Longrightarrow> enqueue (args ! i) p = Inr p' \<Longrightarrow> pool_step work args threads (p, Pushing i) (p', Notifying i)"
| pushed: "i = length args \<Longrightarrow> pool_step work args threads (p, Pushing i) (p, Getting [])"
| notify: "j < length (workers p) \<Longrightarrow> workers p ! j = Waiting \<Longrightarrow> pool_step work args threads (p, Notifying i) (wake j p, Pushing (Suc i))"
| notify_none: "Waiting \<notin> set (workers p) \<Longrightarrow> pool_step work args threads (p, Notifying i) (p, Pushing (Suc i))"
| get: "length rs < length args \<Longrightarrow> promises p ! length rs = Some r \<Longrightarrow> pool_step work args threads (p, Getting rs) (p, Getting (rs @ [r]))"
| got: "length rs = length args \<Longrightarrow> pool_step work args threads (p, Getting rs) (p, Stopping rs)"
| set_stop: "pool_step work args threads (p, Stopping rs) (p\<lparr>stop := True\<rparr>, NotifyingAll rs)"
| wake_all: "pool_step work args threads (p, NotifyingAll rs) (notify_all p, Joining 0 rs)"
| join: "j < length (workers p) \<Longrightarrow> workers p ! j = Returned \<Longrightarrow> pool_step work args threads (p, Joining j rs) (p, Joining (Suc j) rs)"
| joined: "j = length (workers p) \<Longrightarrow> pool_step work args threads (p, Joining j rs) (p, Finished rs)"
| turn: "j < length (workers p) \<Longrightarrow> workers p ! j = Locking \<Longrightarrow> pool_step work args threads (p, c) (worker_turn j p, c)"
| task: "j < length (workers p) \<Longrightarrow> run_task work j p = Some p' \<Longrightarrow> pool_step work args threads (p, c) (p', c)"

inductive spurious_wakeup :: "('a, 'r) batch_state \<Rightarrow> ('a, 'r) batch_state \<Rightarrow> bool" where
  wakeup: "j < length (workers p) \<Longrightarrow> workers p ! j = Waiting \<Longrightarrow> spurious_wakeup (p, c) (wake j p, c)"

text \<open>A run from the beginning, with the number of steps and of spurious wake-ups.\<close>

inductive pool_run :: "('a \<Rightarrow> 'r option) \<Rightarrow> 'a list \<Rightarrow> nat \<Rightarrow> nat \<Rightarrow> nat \<Rightarrow> ('a, 'r) batch_state \<Rightarrow> bool"
  for work args threads where
  start: "pool_run work args threads 0 0 (ThreadPool_new, Launching)"
| step: "pool_run work args threads m k s \<Longrightarrow> pool_step work args threads s t \<Longrightarrow> pool_run work args threads (Suc m) k t"
| spurious: "pool_run work args threads m k s \<Longrightarrow> spurious_wakeup s t \<Longrightarrow> pool_run work args threads m (Suc k) t"

inductive_cases pool_stepE: "pool_step work args threads s t"
inductive_cases spurious_wakeupE: "spurious_wakeup s t"

lemmas pool_ops = launch_worker_def worker_turn_def enqueue_def wake_def notify_all_def

section \<open>Tasks and promises\<close>

primrec busy :: "'a worker \<Rightarrow> (nat \<times> 'a) list" where
  "busy Locking = []" | "busy Waiting = []" | "busy Returned = []" | "busy (Running f a) = [(f, a)]"

text \<open>The tasks in the queue and those that workers run.\<close>

definition jobs :: "('a, 'r) thread_pool \<Rightarrow> (nat \<times> 'a) multiset" where
  "jobs p = mset (pool_tasks p) + mset (concat (map busy (workers p)))"

lemma busy_update:
  "j < length ws \<Longrightarrow> mset (concat (map busy (ws[j := w]))) + mset (busy (ws ! j)) = mset (concat (map busy ws)) + mset (busy w)"
proof (induction ws arbitrary: j)
  case Nil
  then show ?case by simp
next
  case (Cons v ws)
  show ?case
  proof (cases j)
    case 0
    then show ?thesis by (simp add: ac_simps)
  next
    case (Suc i)
    then show ?thesis using Cons.IH [of i] Cons.prems by (simp add: ac_simps)
  qed
qed

text \<open>Every promise that is not kept has one job, with the arguments it was made for; every promise that is
  kept has the value of the function.\<close>

definition promises_ok :: "('a \<Rightarrow> 'r option) \<Rightarrow> 'a list \<Rightarrow> ('a, 'r) thread_pool \<Rightarrow> bool" where
  "promises_ok work args p \<longleftrightarrow>
     length (promises p) \<le> length args
     \<and> jobs p = mset (map (\<lambda>f. (f, args ! f)) (filter (\<lambda>f. promises p ! f = None) [0..<length (promises p)]))
     \<and> (\<forall>f<length (promises p). promises p ! f = None \<or> promises p ! f = work (args ! f))"

lemma mset_filter_drop:
  assumes "distinct xs" "x \<in> set xs" "P x"
  shows "mset (filter P xs) = add_mset x (mset (filter (\<lambda>y. y \<noteq> x \<and> P y) xs))"
  using assms
proof (induction xs)
  case Nil
  then show ?case by simp
next
  case (Cons y ys)
  show ?case
  proof (cases "y = x")
    case True
    then have "filter (\<lambda>y. y \<noteq> x \<and> P y) ys = filter P ys" using Cons.prems(1) by (auto intro: filter_cong)
    then show ?thesis using True Cons.prems(3) by simp
  next
    case False
    then show ?thesis using Cons by auto
  qed
qed

lemma promises_ok_job:
  assumes "promises_ok work args p" "(f, a) \<in># jobs p"
  shows "f < length (promises p)" "promises p ! f = None" "a = args ! f"
  using assms unfolding promises_ok_def by auto

lemma promises_ok_turn:
  assumes "promises_ok work args p" "j < length (workers p)" "workers p ! j = Locking"
  shows "promises_ok work args (worker_turn j p)"
proof -
  have "jobs (worker_turn j p) = jobs p"
    using busy_update [OF assms(2)] assms(3) by (auto simp: jobs_def worker_turn_def split: list.split)
  moreover have "promises (worker_turn j p) = promises p" by (simp add: worker_turn_def split: list.split)
  ultimately show ?thesis using assms(1) by (simp add: promises_ok_def)
qed

lemma promises_ok_wake:
  assumes "promises_ok work args p" "j < length (workers p)" "workers p ! j = Waiting"
  shows "promises_ok work args (wake j p)"
  using assms(1) busy_update [OF assms(2), of Locking] assms(3) by (simp add: promises_ok_def jobs_def wake_def)

lemma promises_ok_notify_all: "promises_ok work args p \<Longrightarrow> promises_ok work args (notify_all p)"
proof -
  have "busy (case w of Waiting \<Rightarrow> Locking | _ \<Rightarrow> w) = busy w" for w :: "'a worker" by (cases w) simp_all
  then have ws: "map busy (workers (notify_all p)) = map busy (workers p)" by (simp add: notify_all_def)
  have "jobs (notify_all p) = jobs p" unfolding jobs_def ws by (simp add: notify_all_def)
  moreover have "promises (notify_all p) = promises p" by (simp add: notify_all_def)
  ultimately show "promises_ok work args p \<Longrightarrow> promises_ok work args (notify_all p)" by (simp add: promises_ok_def)
qed

lemma promises_ok_enqueue:
  assumes "promises_ok work args p" "length (promises p) < length args" "enqueue (args ! length (promises p)) p = Inr p'"
  shows "promises_ok work args p'"
proof -
  let ?n = "length (promises p)"
  have p': "p' = p\<lparr>pool_tasks := pool_tasks p @ [(?n, args ! ?n)], promises := promises p @ [None]\<rparr>"
    using assms(3) by (simp add: enqueue_def split: if_splits)
  have "filter (\<lambda>f. (promises p @ [None]) ! f = None) [0..<?n] = filter (\<lambda>f. promises p ! f = None) [0..<?n]"
    by (rule filter_cong) (simp_all add: nth_append)
  then show ?thesis using assms(1,2) unfolding p'
    by (simp add: promises_ok_def jobs_def nth_append less_Suc_eq)
qed

text \<open>A worker's task is a job of its own; afterwards its promise is kept.\<close>

lemma run_taskE:
  assumes "run_task work j p = Some p'"
  obtains f a r where "workers p ! j = Running f a" "work a = Some r" "promises p ! f = None"
    "p' = p\<lparr>workers := (workers p)[j := Locking], promises := (promises p)[f := Some r]\<rparr>"
  using assms unfolding run_task_def by (auto split: worker.splits Option.bind_splits if_splits)

lemma running_job:
  assumes "j < length (workers p)" "workers p ! j = Running f a"
  shows "(f, a) \<in># jobs p"
proof -
  have "(f, a) \<in> set (busy (workers p ! j))" using assms(2) by simp
  then show ?thesis using assms(1) by (auto simp: jobs_def intro!: bexI [of _ "workers p ! j"])
qed

lemma promises_ok_task:
  assumes "promises_ok work args p" "j < length (workers p)" "run_task work j p = Some p'"
  shows "promises_ok work args p'"
proof -
  from assms(3) obtain f a r where w: "workers p ! j = Running f a" and r: "work a = Some r"
    and p': "p' = p\<lparr>workers := (workers p)[j := Locking], promises := (promises p)[f := Some r]\<rparr>"
    by (rule run_taskE)
  let ?n = "length (promises p)" and ?g = "\<lambda>f. (f, args ! f)"
  note job = promises_ok_job [OF assms(1) running_job [OF assms(2) w]]
  have "filter (\<lambda>i. (promises p)[f := Some r] ! i = None) [0..<?n] = filter (\<lambda>i. i \<noteq> f \<and> promises p ! i = None) [0..<?n]"
    by (rule filter_cong) (use job(1) in \<open>auto simp: nth_list_update\<close>)
  moreover have "mset (filter (\<lambda>i. promises p ! i = None) [0..<?n]) = add_mset f (mset (filter (\<lambda>i. i \<noteq> f \<and> promises p ! i = None) [0..<?n]))"
    by (rule mset_filter_drop) (use job in auto)
  moreover have "jobs p = add_mset (f, a) (jobs p')" using busy_update [OF assms(2), of Locking] w by (simp add: jobs_def p')
  ultimately have "jobs p' = mset (map ?g (filter (\<lambda>i. promises p' ! i = None) [0..<length (promises p')]))"
    using assms(1) job(3) by (simp add: promises_ok_def p')
  then show ?thesis using assms(1) r job by (auto simp: promises_ok_def p' nth_list_update)
qed

section \<open>The scheduling invariant\<close>

text \<open>How many tasks the calling thread has pushed.\<close>

primrec pushed_count :: "nat \<Rightarrow> 'r batch_pc \<Rightarrow> nat" where
  "pushed_count n Launching = 0"
| "pushed_count n (Pushing i) = i"
| "pushed_count n (Notifying i) = Suc i"
| "pushed_count n (Getting rs) = n"
| "pushed_count n (Stopping rs) = n"
| "pushed_count n (NotifyingAll rs) = n"
| "pushed_count n (Joining j rs) = n"
| "pushed_count n (Finished rs) = n"

primrec stopped :: "'r batch_pc \<Rightarrow> bool" where
  "stopped Launching = False"
| "stopped (Pushing i) = False"
| "stopped (Notifying i) = False"
| "stopped (Getting rs) = False"
| "stopped (Stopping rs) = False"
| "stopped (NotifyingAll rs) = True"
| "stopped (Joining j rs) = True"
| "stopped (Finished rs) = True"

text \<open>The results the calling thread has read, and the workers it has joined.\<close>

primrec collected :: "'r batch_pc \<Rightarrow> 'r list" where
  "collected Launching = []"
| "collected (Pushing i) = []"
| "collected (Notifying i) = []"
| "collected (Getting rs) = rs"
| "collected (Stopping rs) = rs"
| "collected (NotifyingAll rs) = rs"
| "collected (Joining j rs) = rs"
| "collected (Finished rs) = rs"

primrec all_collected :: "'r batch_pc \<Rightarrow> bool" where
  "all_collected Launching = False"
| "all_collected (Pushing i) = False"
| "all_collected (Notifying i) = False"
| "all_collected (Getting rs) = False"
| "all_collected (Stopping rs) = True"
| "all_collected (NotifyingAll rs) = True"
| "all_collected (Joining j rs) = True"
| "all_collected (Finished rs) = True"

primrec joining :: "nat \<Rightarrow> 'r batch_pc \<Rightarrow> nat option" where
  "joining n Launching = None"
| "joining n (Pushing i) = None"
| "joining n (Notifying i) = None"
| "joining n (Getting rs) = None"
| "joining n (Stopping rs) = None"
| "joining n (NotifyingAll rs) = None"
| "joining n (Joining j rs) = Some j"
| "joining n (Finished rs) = Some n"

fun awake :: "'a worker \<Rightarrow> bool" where
  "awake Locking = True" | "awake (Running f a) = True" | "awake w = False"

text \<open>
  The queue is only non-empty while some worker is awake, or the calling thread is about to wake
  one; workers return only after the stop, with an empty queue; when the workers are being joined,
  none is asleep.
\<close>

definition pool_ok :: "('a \<Rightarrow> 'r option) \<Rightarrow> 'a list \<Rightarrow> nat \<Rightarrow> ('a, 'r) batch_state \<Rightarrow> bool" where
  "pool_ok work args threads s \<longleftrightarrow> (case s of (p, c) \<Rightarrow>
     promises_ok work args p \<and> length (promises p) = pushed_count (length args) c
     \<and> length (workers p) \<le> threads \<and> (c \<noteq> Launching \<longrightarrow> length (workers p) = threads)
     \<and> stop p = stopped c
     \<and> (Returned \<in> set (workers p) \<longrightarrow> stop p \<and> pool_tasks p = [])
     \<and> (pool_tasks p \<noteq> [] \<longrightarrow> (\<exists>i. c = Notifying i) \<or> (\<exists>w\<in>set (workers p). awake w))
     \<and> map Some (collected c) = take (length (collected c)) (promises p)
     \<and> length (collected c) \<le> length args \<and> (all_collected c \<longrightarrow> length (collected c) = length args)
     \<and> (case joining threads c of None \<Rightarrow> True
        | Some j \<Rightarrow> j \<le> threads \<and> Waiting \<notin> set (workers p) \<and> (\<forall>i<j. workers p ! i = Returned)))"

lemma joining_stopped: "joining n c = Some j \<Longrightarrow> stopped c \<and> all_collected c"
  by (cases c) simp_all

lemma update_memD: "w \<in> set (ws[j := v]) \<Longrightarrow> w = v \<or> w \<in> set ws"
  using set_update_subset_insert [of ws j v] by auto

lemma pool_ok_turn:
  assumes "pool_ok work args threads (p, c)" "j < length (workers p)" "workers p ! j = Locking"
  shows "pool_ok work args threads (worker_turn j p, c)"
proof -
  have ok: "promises_ok work args (worker_turn j p)"
    by (rule promises_ok_turn) (use assms in \<open>simp_all add: pool_ok_def\<close>)
  have new: "v \<in> set ((workers p)[j := v])" for v using assms(2) by (rule set_update_memI)
  show ?thesis
  proof (cases "pool_tasks p")
    case Nil
    then show ?thesis using assms ok new
      by (auto simp: pool_ok_def worker_turn_def nth_list_update split: option.splits if_splits dest: joining_stopped update_memD)
  next
    case (Cons t ts)
    then show ?thesis using assms ok new
      by (cases t) (force simp: pool_ok_def worker_turn_def nth_list_update split: option.splits dest: update_memD)
  qed
qed

text \<open>A promise that is kept stays as it is.\<close>

lemma collected_kept:
  assumes "map Some rs = take k ps" "ps ! f = None" "f < length ps"
  shows "map Some rs = take k (ps[f := v])"
proof -
  have "k \<le> f"
  proof (rule ccontr)
    assume "\<not> k \<le> f"
    moreover have "length rs = min (length ps) k" using arg_cong [OF assms(1), of length] by simp
    ultimately have "f < length rs" "map Some rs ! f = ps ! f" using assms(1,3) by simp_all
    then show False using assms(2) by simp
  qed
  then show ?thesis using assms(1) by simp
qed

lemma pool_ok_task:
  assumes "pool_ok work args threads (p, c)" "j < length (workers p)" "run_task work j p = Some p'"
  shows "pool_ok work args threads (p', c)"
proof -
  have old: "promises_ok work args p" using assms(1) by (simp add: pool_ok_def)
  have ok: "promises_ok work args p'" by (rule promises_ok_task [OF old assms(2,3)])
  from assms(3) obtain f a r where w: "workers p ! j = Running f a" and r: "promises p ! f = None"
    and p': "p' = p\<lparr>workers := (workers p)[j := Locking], promises := (promises p)[f := Some r]\<rparr>"
    by (rule run_taskE)
  have new: "Locking \<in> set ((workers p)[j := Locking])" using assms(2) by (rule set_update_memI)
  have "map Some (collected c) = take (length (collected c)) (promises p)" using assms(1) by (simp add: pool_ok_def)
  from collected_kept [OF this r promises_ok_job(1) [OF old running_job [OF assms(2) w]]]
  have "map Some (collected c) = take (length (collected c)) (promises p')" unfolding p' by simp
  then show ?thesis using assms(1,2) ok new w
    by (force simp: pool_ok_def p' nth_list_update split: option.splits dest: update_memD)
qed

lemma pool_ok_wake:
  assumes "pool_ok work args threads (p, c)" "j < length (workers p)" "workers p ! j = Waiting"
  shows "pool_ok work args threads (wake j p, c)"
proof -
  have ok: "promises_ok work args (wake j p)"
    by (rule promises_ok_wake) (use assms in \<open>simp_all add: pool_ok_def\<close>)
  have new: "Locking \<in> set ((workers p)[j := Locking])" using assms(2) by (rule set_update_memI)
  have "Waiting \<in> set (workers p)" using assms(2,3) by (metis nth_mem)
  then show ?thesis using assms ok new
    by (force simp: pool_ok_def wake_def split: option.splits dest: update_memD)
qed

lemma pool_ok_step:
  assumes "pool_step work args threads s t" "pool_ok work args threads s" "0 < threads"
  shows "pool_ok work args threads t"
  using assms
proof cases
  case (launch p)
  then show ?thesis using assms(2,3) by (auto simp: pool_ok_def promises_ok_def jobs_def launch_worker_def)
next
  case (launched p)
  then show ?thesis using assms(2) by (auto simp: pool_ok_def)
next
  case (push i p p')
  have "promises_ok work args p'" by (rule promises_ok_enqueue) (use push assms(2) in \<open>auto simp: pool_ok_def\<close>)
  then show ?thesis using push assms(2) by (auto simp: pool_ok_def enqueue_def split: if_splits)
next
  case (pushed i p)
  then show ?thesis using assms(2) by (auto simp: pool_ok_def)
next
  case (notify j p i)
  have "pool_ok work args threads (wake j p, Notifying i)"
    using pool_ok_wake notify assms(2) by blast
  moreover have "Locking \<in> set (workers (wake j p))" using notify by (simp add: wake_def set_update_memI)
  ultimately show ?thesis using notify by (auto simp: pool_ok_def intro!: bexI [of _ Locking])
next
  case (notify_none p i)
  have "workers p \<noteq> []" "Returned \<notin> set (workers p)" using assms(2,3) notify_none by (auto simp: pool_ok_def)
  then have "awake (hd (workers p))" "hd (workers p) \<in> set (workers p)" using notify_none
    by (cases "hd (workers p)"; metis awake.simps hd_in_set)+
  then show ?thesis using notify_none assms(2) by (auto simp: pool_ok_def)
next
  case (get rs p r)
  then show ?thesis using assms(2) by (auto simp: pool_ok_def take_Suc_conv_app_nth)
next
  case (got rs p)
  then show ?thesis using assms(2) by (auto simp: pool_ok_def)
next
  case (set_stop p rs)
  then show ?thesis using assms(2) by (auto simp: pool_ok_def promises_ok_def jobs_def)
next
  case (wake_all p rs)
  have "promises_ok work args (notify_all p)" by (rule promises_ok_notify_all) (use wake_all assms(2) in \<open>simp add: pool_ok_def\<close>)
  moreover have "Waiting \<notin> set (workers (notify_all p))" "Returned \<in> set (workers (notify_all p)) \<Longrightarrow> Returned \<in> set (workers p)"
    by (auto simp: notify_all_def split: worker.splits)
  moreover have "\<exists>w\<in>set (workers (notify_all p)). awake w" if "\<exists>w\<in>set (workers p). awake w"
    using that by (auto simp: notify_all_def split: worker.splits) (metis awake.simps)+
  ultimately show ?thesis using wake_all assms(2) by (auto simp: pool_ok_def notify_all_def)
next
  case (join j p rs)
  then show ?thesis using assms(2) by (auto simp: pool_ok_def less_Suc_eq)
next
  case (joined j p rs)
  then show ?thesis using assms(2) by (auto simp: pool_ok_def)
next
  case (turn j p c)
  then show ?thesis using pool_ok_turn assms(2) by blast
next
  case (task j p p' c)
  then show ?thesis using pool_ok_task assms(2) by blast
qed

end
