(* ===== verification/Batch_Pool.thy ===== *)
theory Batch_Pool
  imports Thread_Pool Decoder_Spec
begin

text \<open>
  The thread pool serves the batch decoder: whatever the schedule, decoding a batch comes to an end, and
  with the results of decoding the sequences one after the other.
\<close>

section \<open>Progress\<close>

lemma awake_moves:
  assumes "pool_ok work args threads (p, c)" "w \<in> set (workers p)" "awake w" "\<And>a. a \<in> set args \<Longrightarrow> work a \<noteq> None"
  shows "\<exists>t. pool_step work args threads (p, c) t"
proof -
  obtain j where j: "j < length (workers p)" "workers p ! j = w" using assms(2) by (auto simp: in_set_conv_nth)
  show ?thesis
  proof (cases w)
    case Locking
    then show ?thesis using turn j by blast
  next
    case (Running f a)
    have ok: "promises_ok work args p" using assms(1) by (simp add: pool_ok_def)
    have w: "workers p ! j = Running f a" using j(2) Running by simp
    note job = promises_ok_job [OF ok running_job [OF j(1) w]]
    have "a \<in> set args" using job(1,3) ok by (auto simp: promises_ok_def)
    then obtain r where "work a = Some r" using assms(4) by blast
    then have "\<exists>p'. run_task work j p = Some p'" using w job(2) by (simp add: run_task_def)
    then show ?thesis using task [OF j(1)] by blast
  qed (use assms(3) in simp_all)
qed

lemma busy_awake: "x \<in> set (busy w) \<Longrightarrow> awake w"
  by (cases w rule: worker.exhaust) simp_all

lemma pending_moves:
  assumes "pool_ok work args threads (p, c)" "(f, a) \<in># jobs p" "\<And>i. c \<noteq> Notifying i" "\<And>a. a \<in> set args \<Longrightarrow> work a \<noteq> None"
  shows "\<exists>t. pool_step work args threads (p, c) t"
proof -
  have "\<exists>w\<in>set (workers p). awake w"
  proof (cases "pool_tasks p = []")
    case True
    then obtain w where "w \<in> set (workers p)" "(f, a) \<in> set (busy w)" using assms(2) by (auto simp: jobs_def)
    then show ?thesis using busy_awake by blast
  next
    case False
    then show ?thesis using assms(1,3) by (auto simp: pool_ok_def)
  qed
  then show ?thesis using awake_moves [OF assms(1)] assms(4) by blast
qed

lemma unkept_job:
  assumes "promises_ok work args p" "f < length (promises p)" "promises p ! f = None"
  shows "(f, args ! f) \<in># jobs p"
  using assms by (auto simp: promises_ok_def)

lemma pool_progress:
  assumes "pool_ok work args threads (p, c)" "0 < threads" "\<And>a. a \<in> set args \<Longrightarrow> work a \<noteq> None" "\<And>rs. c \<noteq> Finished rs"
  shows "\<exists>t. pool_step work args threads (p, c) t"
proof (cases c)
  case Launching
  then have "length (workers p) \<le> threads" using assms(1) by (simp add: pool_ok_def)
  then have "length (workers p) < threads \<or> length (workers p) = threads" by linarith
  then show ?thesis unfolding Launching using launch [of p threads] launched [of p threads] by blast
next
  case (Pushing i)
  then have "i = length (promises p)" "length (promises p) \<le> length args" "\<not> stop p"
    using assms(1) by (auto simp: pool_ok_def promises_ok_def)
  then have "i = length args \<or> (i < length args \<and> (\<exists>p'. enqueue (args ! i) p = Inr p'))" by (auto simp: enqueue_def)
  then show ?thesis using Pushing push pushed by blast
next
  case (Notifying i)
  show ?thesis
  proof (cases "Waiting \<in> set (workers p)")
    case True
    then obtain j where "j < length (workers p)" "workers p ! j = Waiting" by (auto simp: in_set_conv_nth)
    then show ?thesis using Notifying notify by blast
  next
    case False
    then show ?thesis using Notifying notify_none by blast
  qed
next
  case (Getting rs)
  then have len: "length (promises p) = length args" "length rs \<le> length args" and ok: "promises_ok work args p"
    using assms(1) by (auto simp: pool_ok_def)
  show ?thesis
  proof (cases "length rs = length args")
    case True
    then show ?thesis using Getting got by blast
  next
    case False
    then have less: "length rs < length args" using len by simp
    show ?thesis
    proof (cases "promises p ! length rs")
      case None
      then show ?thesis using pending_moves [OF assms(1) unkept_job [OF ok]] len less Getting assms(3) by simp
    next
      case (Some r)
      then show ?thesis unfolding Getting using get [OF less] by blast
    qed
  qed
next
  case (Stopping rs)
  then show ?thesis using set_stop by blast
next
  case (NotifyingAll rs)
  then show ?thesis using wake_all by blast
next
  case (Joining j rs)
  then have j: "j \<le> length (workers p)" and sleep: "Waiting \<notin> set (workers p)" using assms(1) by (auto simp: pool_ok_def)
  show ?thesis
  proof (cases "j = length (workers p)")
    case True
    then show ?thesis using Joining joined by blast
  next
    case False
    then have j: "j < length (workers p)" using j by simp
    then have "workers p ! j = Returned \<or> awake (workers p ! j)" using sleep by (cases "workers p ! j") (auto simp: in_set_conv_nth)
    then show ?thesis using Joining join j awake_moves [OF assms(1) nth_mem [OF j]] assms(3) by blast
  qed
qed (use assms(4) in blast)

section \<open>A bound on the number of steps\<close>

primrec worker_rank :: "'a worker \<Rightarrow> nat" where
  "worker_rank Locking = 1" | "worker_rank Waiting = 0" | "worker_rank Returned = 0" | "worker_rank (Running f a) = 2"

primrec pc_rank :: "nat \<Rightarrow> nat \<Rightarrow> 'r batch_pc \<Rightarrow> nat" where
  "pc_rank n t Launching = 7 * n + 2 * t + 7"
| "pc_rank n t (Pushing i) = 6 * (n - i) + n + 2 * t + 6"
| "pc_rank n t (Notifying i) = 6 * (n - Suc i) + n + 2 * t + 8"
| "pc_rank n t (Getting rs) = (n - length rs) + 2 * t + 5"
| "pc_rank n t (Stopping rs) = 2 * t + 4"
| "pc_rank n t (NotifyingAll rs) = 2 * t + 3"
| "pc_rank n t (Joining j rs) = (t - j) + 1"
| "pc_rank n t (Finished rs) = 0"

definition rank :: "nat \<Rightarrow> nat \<Rightarrow> ('a, 'r) batch_state \<Rightarrow> nat" where
  "rank n t s = (case s of (p, c) \<Rightarrow>
     pc_rank n t c + (if c = Launching then 2 * (t - length (workers p)) else 0)
     + 3 * length (pool_tasks p) + sum_list (map worker_rank (workers p)))"

lemma worker_rank_update:
  "j < length ws \<Longrightarrow> sum_list (map worker_rank (ws[j := w])) + worker_rank (ws ! j) = sum_list (map worker_rank ws) + worker_rank w"
proof (induction ws arbitrary: j)
  case Nil
  then show ?case by simp
next
  case (Cons v ws)
  then show ?case by (cases j) auto
qed

lemma notify_all_rank: "sum_list (map worker_rank (workers (notify_all p))) \<le> sum_list (map worker_rank (workers p)) + length (workers p)"
proof -
  have "worker_rank (case w of Waiting \<Rightarrow> Locking | _ \<Rightarrow> w) \<le> worker_rank w + 1" for w :: "'a worker" by (cases w) simp_all
  then have "sum_list (map (\<lambda>w. worker_rank (case w of Waiting \<Rightarrow> Locking | _ \<Rightarrow> w)) ws) \<le> sum_list (map (\<lambda>w. worker_rank w + 1) ws)"
    for ws :: "'a worker list" by (rule sum_list_mono)
  moreover have "sum_list (map (\<lambda>w. worker_rank w + 1) ws) = sum_list (map worker_rank ws) + length ws" for ws :: "'a worker list"
    by (induction ws) simp_all
  ultimately have "sum_list (map (\<lambda>w. worker_rank (case w of Waiting \<Rightarrow> Locking | _ \<Rightarrow> w)) ws) \<le> sum_list (map worker_rank ws) + length ws"
    for ws :: "'a worker list" by simp
  then show ?thesis by (simp add: notify_all_def comp_def)
qed

lemma rank_step:
  assumes "pool_step work args threads s t" "pool_ok work args threads s"
  shows "rank (length args) threads t < rank (length args) threads s"
  using assms
proof cases
  case (push i p p')
  then show ?thesis using assms(2) by (auto simp: rank_def pool_ok_def enqueue_def split: if_splits)
next
  case (notify j p i)
  have "Suc i \<le> length args" using notify assms(2) by (auto simp: pool_ok_def promises_ok_def)
  then show ?thesis using notify worker_rank_update [OF notify(3), of Locking] by (simp add: rank_def wake_def)
next
  case (wake_all p rs)
  then show ?thesis using notify_all_rank [of p] assms(2) by (simp add: rank_def pool_ok_def) (simp add: notify_all_def)
next
  case (turn j p c)
  note upd = worker_rank_update [OF turn(3)]
  show ?thesis
  proof (cases "pool_tasks p")
    case Nil
    then show ?thesis using turn upd [of Returned] upd [of Waiting] by (auto simp: rank_def worker_turn_def)
  next
    case (Cons x ts)
    then show ?thesis using turn upd [of "Running (fst x) (snd x)"] by (cases x) (simp add: rank_def worker_turn_def)
  qed
next
  case (task j p p' c)
  from task(4) obtain f a r where "workers p ! j = Running f a"
    "p' = p\<lparr>workers := (workers p)[j := Locking], promises := (promises p)[f := Some r]\<rparr>" by (rule run_taskE)
  then show ?thesis using task worker_rank_update [OF task(3), of Locking] by (simp add: rank_def)
qed (auto simp: rank_def launch_worker_def pool_ok_def)

lemma rank_spurious:
  assumes "spurious_wakeup s t"
  shows "rank n threads t \<le> Suc (rank n threads s)"
  using assms
proof cases
  case (wakeup j p c)
  then show ?thesis using worker_rank_update [OF wakeup(3), of Locking] by (simp add: rank_def wake_def)
qed

lemma pool_run_ok:
  assumes "pool_run work args threads m k s" "0 < threads"
  shows "pool_ok work args threads s \<and> m + rank (length args) threads s \<le> 7 * length args + 4 * threads + 7 + k"
  using assms
proof (induction rule: pool_run.induct)
  case start
  show ?case by (simp add: pool_ok_def ThreadPool_new_def promises_ok_def jobs_def rank_def)
next
  case (step m k s t)
  then show ?case using pool_ok_step [OF step.hyps(2)] rank_step [OF step.hyps(2)] by fastforce
next
  case (spurious m k s t)
  have "pool_ok work args threads t" using spurious.hyps(2) spurious.IH [OF spurious.prems]
    by cases (auto intro: pool_ok_wake)
  then show ?case using rank_spurious [OF spurious.hyps(2), of "length args" threads] spurious.IH [OF spurious.prems] by linarith
qed

lemma pool_finished:
  assumes "pool_run work args threads m k (p, Finished rs)" "0 < threads"
  shows "map work args = map Some rs" "set (workers p) \<subseteq> {Returned}"
proof -
  have ok: "pool_ok work args threads (p, Finished rs)" using pool_run_ok [OF assms] by blast
  then have rs: "map Some rs = promises p" "length (promises p) = length args" by (simp_all add: pool_ok_def)
  show "map work args = map Some rs"
  proof (rule nth_equalityI)
    fix i assume i: "i < length (map work args)"
    have "promises p ! i = None \<or> promises p ! i = work (args ! i)" using ok i rs(2) by (simp add: pool_ok_def promises_ok_def)
    moreover have "promises p ! i \<noteq> None" using i rs unfolding rs(1) [symmetric] by simp
    ultimately show "map work args ! i = map Some rs ! i" using i rs(1) by simp
  qed (use rs in simp)
  show "set (workers p) \<subseteq> {Returned}" using ok by (auto simp: pool_ok_def in_set_conv_nth)
qed

text \<open>Every run can be continued to the end.\<close>

lemma pool_completes:
  assumes "pool_run work args threads m k s" "0 < threads" "\<And>a. a \<in> set args \<Longrightarrow> work a \<noteq> None"
  shows "\<exists>m p rs. pool_run work args threads m k (p, Finished rs)"
  using assms(1)
proof (induction "rank (length args) threads s" arbitrary: m s rule: less_induct)
  case less
  obtain p c where s: "s = (p, c)" by (cases s)
  have ok: "pool_ok work args threads (p, c)" using pool_run_ok [OF less.prems assms(2)] s by simp
  show ?case
  proof (cases "\<exists>rs. c = Finished rs")
    case True
    then show ?thesis using less.prems s by blast
  next
    case False
    then obtain t where t: "pool_step work args threads (p, c) t" using pool_progress [OF ok assms(2,3)] by blast
    then show ?thesis using less.hyps [OF _ step [OF less.prems]] rank_step [OF t ok] s by simp
  qed
qed

section \<open>Decoding a batch\<close>

text \<open>What the calling thread enqueues for sequence \<open>i\<close>.\<close>

definition decode_task ::
    "cxx \<Rightarrow> fval list \<Rightarrow> nat \<Rightarrow> nat \<Rightarrow> int list \<Rightarrow> alphabet \<Rightarrow> nat \<Rightarrow> fval \<Rightarrow> nat \<Rightarrow> 's scorer option
       \<Rightarrow> (string \<times> fval) list \<Rightarrow> nat \<Rightarrow> nat \<Rightarrow> Output list option" where
  "decode_task env probs time_dim class_dim seq_lengths alphabet bs cp ctn es hw num_results i =
     ctc_beam_search_decoder env (drop (i * time_dim * class_dim) probs) (seq_lengths ! i) class_dim alphabet bs cp ctn es hw num_results"

lemma batch_decode_task:
  "ctc_beam_search_decoder_batch env probs n td cd sl al bs threads cp ctn es hw k =
    (if threads = 0 \<or> n \<noteq> length sl then None else map_option_list (decode_task env probs td cd sl al bs cp ctn es hw k) [0..<n])"
  by (simp add: ctc_beam_search_decoder_batch_def decode_task_def [abs_def])

lemma batch_results:
  "ctc_beam_search_decoder_batch env probs n td cd sl al bs threads cp ctn es hw k = Some rs \<longleftrightarrow>
    0 < threads \<and> n = length sl \<and> map (decode_task env probs td cd sl al bs cp ctn es hw k) [0..<n] = map Some rs"
  unfolding batch_decode_task by (auto simp: map_option_list_eq)

text \<open>
  C6: decoding a batch on several threads comes to an end.  When every sequence can be decoded, then on
  every schedule, however the threads interleave, the calling thread and the workers make at most
  \<open>7 n + 4 t + 7\<close> steps for \<open>n\<close> sequences on \<open>t\<close> threads, and one for each spurious wake-up; there is no
  deadlock and no lost wake-up on the way, so some thread can move until all results are returned and all
  workers have ended.
\<close>

theorem batch_pool_finishes:
  assumes "ctc_beam_search_decoder_batch env probs n td cd sl al bs threads cp ctn es hw num_results = Some results"
    and "pool_run (decode_task env probs td cd sl al bs cp ctn es hw num_results) [0..<n] threads m k (p, c)"
  shows "m \<le> 7 * n + 4 * threads + 7 + k
    \<and> (if c = Finished results then set (workers p) \<subseteq> {Returned}
       else \<exists>t. pool_step (decode_task env probs td cd sl al bs cp ctn es hw num_results) [0..<n] threads (p, c) t)"
proof -
  let ?work = "decode_task env probs td cd sl al bs cp ctn es hw num_results"
  have thr: "0 < threads" and res: "map ?work [0..<n] = map Some results" using assms(1) by (auto simp: batch_results)
  have total: "\<And>i. i \<in> set [0..<n] \<Longrightarrow> ?work i \<noteq> None" using arg_cong [OF res, of set] by auto
  have inv: "pool_ok ?work [0..<n] threads (p, c)" "m \<le> 7 * n + 4 * threads + 7 + k" using pool_run_ok [OF assms(2) thr] by auto
  have "set (workers p) \<subseteq> {Returned} \<and> c = Finished results" if c: "c = Finished rs" for rs
  proof -
    have run: "pool_run ?work [0..<n] threads m k (p, Finished rs)" using assms(2) c by simp
    have "map Some rs = map Some results" using pool_finished(1) [OF run thr] res by simp
    then have "rs = results" by (rule map_injective) simp
    then show ?thesis using pool_finished(2) [OF run thr] c by simp
  qed
  then show ?thesis using inv(2) pool_progress [OF inv(1) thr total] by metis
qed

text \<open>
  C7: the threads do not change the results.  On every schedule, what the calling thread returns is what the
  sequences give when they are decoded one after the other, in their order, and no worker is left.
\<close>

theorem batch_pool_results:
  assumes "pool_run (decode_task env probs td cd sl al bs cp ctn es hw num_results) [0..<n] threads m k (p, Finished results)"
    and "0 < threads" and "n = length sl"
  shows "ctc_beam_search_decoder_batch env probs n td cd sl al bs threads cp ctn es hw num_results = Some results
    \<and> set (workers p) \<subseteq> {Returned}"
  using pool_finished [OF assms(1,2)] assms(2,3) by (simp add: batch_results)

lemma empty_sequence:
  "ctc_beam_search_decoder ref_cxx [] 0 3 ab_alphabet 5 (Fin 1 0) 40 (None :: unit scorer option) [] 1
    = Some [\<lparr>confidence = Fin 0 0, tokens = [], out_timesteps = []\<rparr>]"
  by code_simp

lemma two_sequences:
  "ctc_beam_search_decoder_batch ref_cxx [] 2 0 3 [0, 0] ab_alphabet 5 4 (Fin 1 0) 40 (None :: unit scorer option) [] 1
    = Some [[\<lparr>confidence = Fin 0 0, tokens = [], out_timesteps = []\<rparr>], [\<lparr>confidence = Fin 0 0, tokens = [], out_timesteps = []\<rparr>]]"
  by (simp add: ctc_beam_search_decoder_batch_def empty_sequence upt_rec del: One_nat_def)

lemma two_sequences_run:
  "\<exists>m p rs. pool_run (decode_task ref_cxx [] 0 3 [0, 0] ab_alphabet 5 (Fin 1 0) 40 (None :: unit scorer option) [] 1) [0..<2] 4 m 0 (p, Finished rs)"
proof (rule pool_completes [OF start])
  fix i :: nat assume "i \<in> set [0..<2]"
  then have "i = 0 \<or> i = 1" by auto
  then show "decode_task ref_cxx [] 0 3 [0, 0] ab_alphabet 5 (Fin 1 0) 40 (None :: unit scorer option) [] 1 i \<noteq> None"
    using empty_sequence by (auto simp: decode_task_def)
qed simp

theorem batch_pool_finishes_witness:
  "\<exists>m p. pool_run (decode_task ref_cxx [] 0 3 [0, 0] ab_alphabet 5 (Fin 1 0) 40 (None :: unit scorer option) [] 1) [0..<2] 4 m 0
      (p, Finished [[\<lparr>confidence = Fin 0 0, tokens = [], out_timesteps = []\<rparr>], [\<lparr>confidence = Fin 0 0, tokens = [], out_timesteps = []\<rparr>]])
    \<and> m \<le> 37 \<and> set (workers p) \<subseteq> {Returned}"
proof -
  let ?work = "decode_task ref_cxx [] 0 3 [0, 0] ab_alphabet 5 (Fin 1 0) 40 (None :: unit scorer option) [] 1"
  obtain m p rs where run: "pool_run ?work [0..<2] 4 m 0 (p, Finished rs)" using two_sequences_run by blast
  have "map Some rs = map ?work [0..<2]" using pool_finished(1) [OF run] by simp
  also have "\<dots> = map Some [[\<lparr>confidence = Fin 0 0, tokens = [], out_timesteps = []\<rparr>], [\<lparr>confidence = Fin 0 0, tokens = [], out_timesteps = []\<rparr>]]"
    using empty_sequence by (simp add: upt_rec decode_task_def del: One_nat_def)
  finally have "rs = [[\<lparr>confidence = Fin 0 0, tokens = [], out_timesteps = []\<rparr>], [\<lparr>confidence = Fin 0 0, tokens = [], out_timesteps = []\<rparr>]]"
    by (rule map_injective) simp
  with run batch_pool_finishes [OF two_sequences, of m 0 p "Finished rs"] show ?thesis by auto
qed

theorem batch_pool_results_witness:
  "\<exists>m p results. pool_run (decode_task ref_cxx [] 0 3 [0, 0] ab_alphabet 5 (Fin 1 0) 40 (None :: unit scorer option) [] 1) [0..<2] 4 m 0 (p, Finished results)
    \<and> ctc_beam_search_decoder_batch ref_cxx [] 2 0 3 [0, 0] ab_alphabet 5 4 (Fin 1 0) 40 (None :: unit scorer option) [] 1 = Some results"
proof -
  obtain m p results where run:
    "pool_run (decode_task ref_cxx [] 0 3 [0, 0] ab_alphabet 5 (Fin 1 0) 40 (None :: unit scorer option) [] 1) [0..<2] 4 m 0 (p, Finished results)"
    using two_sequences_run by blast
  with batch_pool_results [OF run] show ?thesis by auto
qed

end
