(* ===== verification/Object_Pool.thy ===== *)
theory Object_Pool
  imports Prelude
begin

text \<open>
  \<^verbatim>\<open>native_client/ctcdecode/third_party/object_pool/object_pool.h\<close>: the allocator of the nodes of the tree of time steps.

  A slot is a chunk and a position in it; the objects are what is constructed in the slots.  Deleting
  through a pointer whose slot holds no object is \<open>None\<close>.
\<close>

type_synonym slot = "nat \<times> nat"

definition ChunkSize :: nat where
  "ChunkSize = 1024"

record 'o object_pool =
  memory_chunks :: nat
  recycled_object_slots :: "slot list"
  free_object_slots_begin :: slot
  free_object_slots_end :: slot
  objects :: "slot \<rightharpoonup> 'o"

text \<open>At the beginning the two ends are equal, which simulates a full pool.\<close>

definition object_pool_new :: "slot \<Rightarrow> 'o object_pool" where
  "object_pool_new e = \<lparr>memory_chunks = 0, recycled_object_slots = [], free_object_slots_begin = e, free_object_slots_end = e, objects = Map.empty\<rparr>"

definition delete_object :: "slot \<Rightarrow> 'o object_pool \<Rightarrow> 'o object_pool option" where
  "delete_object a p =
     (if objects p a = None then None
      else Some (p\<lparr>objects := (objects p)(a := None), recycled_object_slots := recycled_object_slots p @ [a]\<rparr>))"

definition make_unique :: "'o \<Rightarrow> 'o object_pool \<Rightarrow> slot \<times> 'o object_pool" where
  "make_unique v p =
     (if recycled_object_slots p \<noteq> [] then
        let a = last (recycled_object_slots p) in
        (a, p\<lparr>recycled_object_slots := butlast (recycled_object_slots p), objects := (objects p)(a \<mapsto> v)\<rparr>)
      else
        let p = (if free_object_slots_begin p = free_object_slots_end p then
                   p\<lparr>memory_chunks := memory_chunks p + 1, free_object_slots_begin := (memory_chunks p, 0),
                     free_object_slots_end := (memory_chunks p, ChunkSize)\<rparr>
                 else p);
            a = free_object_slots_begin p
        in (a, p\<lparr>free_object_slots_begin := (fst a, snd a + 1), objects := (objects p)(a \<mapsto> v)\<rparr>))"

definition capacity :: "'o object_pool \<Rightarrow> nat" where
  "capacity p = memory_chunks p * ChunkSize"

definition pool_size :: "'o object_pool \<Rightarrow> nat" where
  "pool_size p = capacity p - (snd (free_object_slots_end p) - snd (free_object_slots_begin p)) - length (recycled_object_slots p)"

section \<open>Allocators\<close>

text \<open>What the users of an allocator rely on.\<close>

locale allocator =
  fixes alloc :: "'v \<Rightarrow> 'p \<Rightarrow> 'a \<times> 'p"
    and dealloc :: "'a \<Rightarrow> 'p \<Rightarrow> 'p option"
    and contents :: "'p \<Rightarrow> 'a \<rightharpoonup> 'v"
    and inv :: "'p \<Rightarrow> bool"
  assumes alloc_fresh: "inv p \<Longrightarrow> alloc v p = (a, p') \<Longrightarrow> contents p a = None \<and> contents p' = (contents p)(a \<mapsto> v) \<and> inv p'"
    and dealloc_live: "inv p \<Longrightarrow> contents p a \<noteq> None \<Longrightarrow> \<exists>p'. dealloc a p = Some p' \<and> contents p' = (contents p)(a := None) \<and> inv p'"
    and dealloc_dead: "contents p a = None \<Longrightarrow> dealloc a p = None"
begin

primrec alloc_all :: "'v list \<Rightarrow> 'p \<Rightarrow> 'a list \<times> 'p" where
  "alloc_all [] p = ([], p)"
| "alloc_all (v # vs) p = (case alloc v p of (a, p) \<Rightarrow> case alloc_all vs p of (as, p) \<Rightarrow> (a # as, p))"

lemma alloc_all_fresh:
  assumes "inv p" "alloc_all vs p = (as, p')"
  shows "inv p' \<and> length as = length vs \<and> distinct as \<and> set as \<inter> dom (contents p) = {} \<and> contents p' = contents p ++ map_of (zip as vs)"
  using assms
proof (induction vs arbitrary: p as p')
  case Nil
  then show ?case by simp
next
  case (Cons v vs)
  obtain a p1 where a: "alloc v p = (a, p1)" by (cases "alloc v p")
  obtain bs where bs: "alloc_all vs p1 = (bs, p')" "as = a # bs" using Cons.prems(2) a by (auto split: prod.splits)
  note f = alloc_fresh [OF Cons.prems(1) a]
  note IH = Cons.IH [OF conjunct2 [OF conjunct2 [OF f]] bs(1)]
  have "a \<notin> set bs" using IH f by auto
  then have "map_of (zip bs vs) a = None" by (auto simp: map_of_eq_None_iff dest: set_zip_leftD)
  then have new: "contents p1 ++ map_of (zip bs vs) = contents p ++ map_of (zip as (v # vs))"
    using f bs(2) by (auto simp: map_add_def fun_eq_iff split: option.splits)
  have "contents p' = contents p ++ map_of (zip as (v # vs))" using IH new by simp
  moreover have "set as \<inter> dom (contents p) = {}" using IH f bs(2) by auto
  moreover have "length as = length (v # vs)" "distinct as" "inv p'" using IH bs(2) \<open>a \<notin> set bs\<close> by simp_all
  ultimately show ?case by blast
qed

text \<open>Giving back what was allocated, in any order, leaves the contents from before.\<close>

lemma dealloc_all:
  assumes "inv p" "distinct as" "set as \<subseteq> dom (contents p)"
  shows "\<exists>p'. mfold dealloc as p = Some p' \<and> inv p' \<and> contents p' = contents p |` (- set as)"
  using assms
proof (induction as arbitrary: p)
  case Nil
  then show ?case by simp
next
  case (Cons a as)
  obtain p1 where p1: "dealloc a p = Some p1" "contents p1 = (contents p)(a := None)" "inv p1"
    using dealloc_live [OF Cons.prems(1), of a] Cons.prems(3) by auto
  have "set as \<subseteq> dom (contents p1)" using Cons.prems(2,3) p1(2) by auto
  from Cons.IH [OF p1(3) _ this] Cons.prems(2) obtain p' where
    p': "mfold dealloc as p1 = Some p'" "inv p'" "contents p' = contents p1 |` (- set as)" by auto
  have "contents p1 |` (- set as) = contents p |` (- set (a # as))" unfolding p1(2) by (auto simp: restrict_map_def fun_eq_iff)
  then show ?case using p1(1) p' by simp
qed

end

section \<open>The pool is an allocator\<close>

definition free_slots :: "'o object_pool \<Rightarrow> slot set" where
  "free_slots p = {fst (free_object_slots_begin p)} \<times> {snd (free_object_slots_begin p)..<snd (free_object_slots_end p)}"

text \<open>Every slot of every chunk is used, recycled or free, and only one of them.\<close>

definition pool_inv :: "'o object_pool \<Rightarrow> bool" where
  "pool_inv p \<longleftrightarrow>
     fst (free_object_slots_end p) = fst (free_object_slots_begin p)
     \<and> snd (free_object_slots_begin p) \<le> snd (free_object_slots_end p)
     \<and> distinct (recycled_object_slots p)
     \<and> set (recycled_object_slots p) \<inter> dom (objects p) = {}
     \<and> free_slots p \<inter> (set (recycled_object_slots p) \<union> dom (objects p)) = {}
     \<and> dom (objects p) \<union> set (recycled_object_slots p) \<union> free_slots p = {..<memory_chunks p} \<times> {..<ChunkSize}"

lemma pool_inv_new: "pool_inv (object_pool_new e)"
  by (simp add: pool_inv_def object_pool_new_def free_slots_def)

lemma pool_inv_recycle:
  assumes "pool_inv p" "recycled_object_slots p = rs @ [a]"
  shows "objects p a = None" "pool_inv (p\<lparr>recycled_object_slots := rs, objects := (objects p)(a \<mapsto> v)\<rparr>)"
  using assms by (auto simp: pool_inv_def free_slots_def)

lemma pool_inv_grow:
  assumes "pool_inv p" "free_object_slots_begin p = free_object_slots_end p"
  shows "pool_inv (p\<lparr>memory_chunks := memory_chunks p + 1, free_object_slots_begin := (memory_chunks p, 0),
    free_object_slots_end := (memory_chunks p, ChunkSize)\<rparr>)"
proof -
  have "dom (objects p) \<union> set (recycled_object_slots p) = {..<memory_chunks p} \<times> {..<ChunkSize}"
    using assms by (simp add: pool_inv_def free_slots_def)
  then have used: "dom (objects p) \<union> set (recycled_object_slots p) = {..<memory_chunks p} \<times> {..<ChunkSize}"
    "\<And>x. x \<in> dom (objects p) \<union> set (recycled_object_slots p) \<Longrightarrow> fst x \<noteq> memory_chunks p" by auto
  have "{memory_chunks p} \<times> {0..<ChunkSize} \<inter> (set (recycled_object_slots p) \<union> dom (objects p)) = {}" using used(2) by fastforce
  moreover have "{..<memory_chunks p} \<times> {..<ChunkSize} \<union> {memory_chunks p} \<times> {0..<ChunkSize} = {..<memory_chunks p + 1} \<times> {..<ChunkSize}"
    by (auto simp: less_Suc_eq)
  ultimately show ?thesis using assms(1) used(1) by (simp add: pool_inv_def free_slots_def)
qed

lemma pool_inv_take:
  assumes "pool_inv p" "free_object_slots_begin p \<noteq> free_object_slots_end p" "a = free_object_slots_begin p"
  shows "objects p a = None" "pool_inv (p\<lparr>free_object_slots_begin := (fst a, snd a + 1), objects := (objects p)(a \<mapsto> v)\<rparr>)"
proof -
  have less: "snd a < snd (free_object_slots_end p)" using assms by (auto simp: pool_inv_def prod_eq_iff)
  then have a: "a \<in> free_slots p" using assms(3) by (simp add: free_slots_def mem_Times_iff)
  then show "objects p a = None" using assms(1) by (auto simp: pool_inv_def)
  let ?p = "p\<lparr>free_object_slots_begin := (fst a, snd a + 1), objects := (objects p)(a \<mapsto> v)\<rparr>"
  have free: "free_slots ?p = free_slots p - {a}" using assms(3) by (auto simp: free_slots_def prod_eq_iff)
  have "dom (objects ?p) \<union> set (recycled_object_slots ?p) \<union> free_slots ?p = dom (objects p) \<union> set (recycled_object_slots p) \<union> free_slots p"
    unfolding free using a by auto
  moreover have "free_slots ?p \<inter> (set (recycled_object_slots ?p) \<union> dom (objects ?p)) = {}" unfolding free using assms(1) by (auto simp: pool_inv_def)
  moreover have "set (recycled_object_slots ?p) \<inter> dom (objects ?p) = {}" using assms(1) a by (auto simp: pool_inv_def)
  ultimately show "pool_inv ?p" using assms(1,3) less unfolding pool_inv_def by simp
qed

lemma make_unique_inv:
  assumes "pool_inv p" "make_unique v p = (a, p')"
  shows "objects p a = None \<and> objects p' = (objects p)(a \<mapsto> v) \<and> pool_inv p'"
proof (cases "recycled_object_slots p = []")
  case False
  then obtain rs b where rs: "recycled_object_slots p = rs @ [b]" by (metis append_butlast_last_id)
  then show ?thesis using assms(2) pool_inv_recycle [OF assms(1) rs] by (auto simp: make_unique_def Let_def)
next
  case True
  show ?thesis
  proof (cases "free_object_slots_begin p = free_object_slots_end p")
    case full: True
    then show ?thesis using assms(2) True pool_inv_take [OF pool_inv_grow [OF assms(1) full]] by (auto simp: make_unique_def ChunkSize_def Let_def)
  next
    case False
    then show ?thesis using assms(2) True pool_inv_take [OF assms(1) False refl] by (auto simp: make_unique_def Let_def)
  qed
qed

lemma delete_object_inv:
  assumes "pool_inv p" "objects p a \<noteq> None"
  shows "\<exists>p'. delete_object a p = Some p' \<and> objects p' = (objects p)(a := None) \<and> pool_inv p'"
  using assms by (auto simp: delete_object_def pool_inv_def free_slots_def)

interpretation nodes: allocator make_unique delete_object objects pool_inv
proof unfold_locales
  show "objects p a = None \<and> objects p' = (objects p)(a \<mapsto> v) \<and> pool_inv p'" if "pool_inv p" "make_unique v p = (a, p')"
    for p p' :: "'o object_pool" and a v by (rule make_unique_inv [OF that])
  show "\<exists>p'. delete_object a p = Some p' \<and> objects p' = (objects p)(a := None) \<and> pool_inv p'" if "pool_inv p" "objects p a \<noteq> None"
    for p :: "'o object_pool" and a by (rule delete_object_inv [OF that])
qed (simp add: delete_object_def)

section \<open>Sizes\<close>

datatype 'o pool_call = Make 'o | Delete slot

fun pool_op :: "'o pool_call \<Rightarrow> 'o object_pool \<Rightarrow> 'o object_pool option" where
  "pool_op (Make v) p = Some (snd (make_unique v p))"
| "pool_op (Delete a) p = delete_object a p"

lemma pool_ops_inv:
  assumes "mfold pool_op ops (object_pool_new e) = Some p"
  shows "pool_inv p"
proof (rule mfold_preserves [where P = pool_inv, OF assms pool_inv_new])
  fix x s s' assume s: "pool_inv s" "pool_op x s = Some s'"
  show "pool_inv s'"
  proof (cases x)
    case (Make v)
    then show ?thesis using s make_unique_inv [of s v "fst (make_unique v s)" s'] by auto
  next
    case (Delete a)
    then show ?thesis using s delete_object_inv [of s a] by (cases "objects s a") (auto simp: delete_object_def)
  qed
qed

lemma pool_size_card:
  assumes "pool_inv p"
  shows "card (dom (objects p)) + length (recycled_object_slots p) + (snd (free_object_slots_end p) - snd (free_object_slots_begin p)) = capacity p"
    "pool_size p = card (dom (objects p))"
proof -
  let ?U = "dom (objects p)" and ?R = "set (recycled_object_slots p)" and ?F = "free_slots p"
  have all: "?U \<union> ?R \<union> ?F = {..<memory_chunks p} \<times> {..<ChunkSize}" and dis: "?R \<inter> ?U = {}" "?F \<inter> (?R \<union> ?U) = {}"
    and R: "card ?R = length (recycled_object_slots p)" using assms by (auto simp: pool_inv_def distinct_card)
  have fin: "finite ?U" "finite ?R" "finite ?F" using finite_subset [OF _ finite_cartesian_product [of "{..<memory_chunks p}" "{..<ChunkSize}"]] all by blast+
  have "card (?U \<union> ?R \<union> ?F) = card ?U + card ?R + card ?F"
    using card_Un_disjoint [of "?U \<union> ?R" ?F] card_Un_disjoint [of ?U ?R] fin dis by (auto simp: Int_commute)
  moreover have "card ?F = snd (free_object_slots_end p) - snd (free_object_slots_begin p)" by (simp add: free_slots_def)
  ultimately show sum: "card ?U + length (recycled_object_slots p) + (snd (free_object_slots_end p) - snd (free_object_slots_begin p)) = capacity p"
    using R unfolding all by (simp add: capacity_def)
  then show "pool_size p = card ?U" by (simp add: pool_size_def)
qed

lemma make_unique_chunks:
  assumes "pool_inv p"
  shows "memory_chunks (snd (make_unique v p)) = (if pool_size p = capacity p then memory_chunks p + 1 else memory_chunks p)"
proof -
  have "free_object_slots_begin p = free_object_slots_end p \<longleftrightarrow> snd (free_object_slots_end p) - snd (free_object_slots_begin p) = 0"
    using assms by (auto simp: pool_inv_def prod_eq_iff)
  then show ?thesis using pool_size_card [OF assms] by (auto simp: make_unique_def Let_def)
qed

text \<open>
  C28: the object pool is an allocator.  After any sequence of constructions and deletions, a new object gets a
  slot that no living object has and leaves the others alone, a living object can be deleted, once, and its slot
  recycled; \<^verbatim>\<open>size()\<close> counts the living objects, and memory is only asked for when every slot is in use.
\<close>

theorem object_pool_allocates:
  assumes "mfold pool_op ops (object_pool_new e) = Some p"
  shows "objects p (fst (make_unique v p)) = None \<and> objects (snd (make_unique v p)) = (objects p)(fst (make_unique v p) \<mapsto> v)
    \<and> (if objects p a = None then delete_object a p = None else map_option objects (delete_object a p) = Some ((objects p)(a := None)))
    \<and> pool_size p = card (dom (objects p)) \<and> pool_size p \<le> capacity p
    \<and> memory_chunks (snd (make_unique v p)) = (if pool_size p = capacity p then memory_chunks p + 1 else memory_chunks p)"
proof -
  note inv = pool_ops_inv [OF assms]
  have alloc_ok: "objects p (fst (make_unique v p)) = None" "objects (snd (make_unique v p)) = (objects p)(fst (make_unique v p) \<mapsto> v)"
    using nodes.alloc_fresh [OF inv, of v "fst (make_unique v p)" "snd (make_unique v p)"] by simp_all
  moreover have "if objects p a = None then delete_object a p = None else map_option objects (delete_object a p) = Some ((objects p)(a := None))"
    using nodes.dealloc_dead [of p a] nodes.dealloc_live [OF inv, of a] by auto
  ultimately show ?thesis using pool_size_card [OF inv] make_unique_chunks [OF inv, of v] by (simp add: trans_le_add1)
qed

theorem object_pool_allocates_witness:
  "(\<exists>p. mfold pool_op [Make CHR ''a'', Make CHR ''b'', Delete (0, 0)] (object_pool_new (7, 7)) = Some p
     \<and> pool_size p = 1 \<and> fst (make_unique CHR ''c'' p) = (0, 0) \<and> objects p (0, 0) = None)"
proof -
  let ?ops = "[Make CHR ''a'', Make CHR ''b'', Delete (0, 0)]" and ?new = "object_pool_new (7, 7)"
  obtain p where p: "mfold pool_op ?ops ?new = Some p" "objects p = [(0, 1) \<mapsto> CHR ''b'']" "recycled_object_slots p = [(0, 0)]"
    by (auto simp: make_unique_def delete_object_def object_pool_new_def Let_def fun_eq_iff ChunkSize_def)
  have "fst (make_unique CHR ''c'' p) = (0, 0)" using p(3) by (simp add: make_unique_def Let_def)
  then show ?thesis using p(1,2) object_pool_allocates [OF p(1), of "CHR ''c''" "(0, 0)"] by auto
qed

text \<open>Deleting all objects, in any order, empties the pool.\<close>

lemma delete_all_empties:
  assumes "pool_inv p" "distinct as" "set as = dom (objects p)"
  shows "\<exists>p'. mfold delete_object as p = Some p' \<and> pool_inv p' \<and> objects p' = Map.empty"
proof -
  have "objects p |` (- set as) = Map.empty" using assms(3) by (auto simp: restrict_map_def fun_eq_iff)
  then show ?thesis using nodes.dealloc_all [OF assms(1,2)] assms(3) by auto
qed

end
