(* ===== verification/Trie_Delete.thy ===== *)
theory Trie_Delete
  imports Decoder_Spec
begin

text \<open>
  \<^verbatim>\<open>PathTrie::~PathTrie\<close>: deleting the root of the trie, as the destructor of \<^verbatim>\<open>DecoderState\<close> does, frees
  every node once.
\<close>

section \<open>The destructor\<close>

text \<open>\<^verbatim>\<open>delete this\<close>: the children first, then the node itself.\<close>

partial_function (option) delete_trie :: "addr \<Rightarrow> heap \<Rightarrow> heap option" where
  "delete_trie this h = do {
     n \<leftarrow> pnodes h this;
     h \<leftarrow> mfold (\<lambda>child h. delete_trie (snd child) h) (children n) h;
     pnodes h this;
     Some (h\<lparr>pnodes := (pnodes h)(this := None)\<rparr>)
   }"

declare delete_trie.simps [code]

definition DecoderState_delete :: "'s decoder_state \<Rightarrow> heap option" where
  "DecoderState_delete st = delete_trie (prefix_root st) (d_heap st)"

section \<open>Every node once\<close>

definition without :: "addr set \<Rightarrow> heap \<Rightarrow> heap" where
  "without A h = h\<lparr>pnodes := pnodes h |` (- A)\<rparr>"

lemma without_sel [simp]: "pnodes (without A h) = pnodes h |` (- A)"
  by (simp add: without_def)

lemma without_empty [simp]: "without {} h = h"
  by (simp add: without_def restrict_map_def)

lemma without_without [simp]: "without B (without A h) = without (A \<union> B) h"
  by (simp add: without_def restrict_map_def fun_eq_iff)

text \<open>Deleting disjoint subtrees one after the other.\<close>

lemma delete_children:
  assumes "\<And>d h. d \<in> set ds \<Longrightarrow> (\<And>b. b \<in> sub f d \<Longrightarrow> skeleton h b = f b) \<Longrightarrow> delete_trie d h = Some (without (sub f d) h)"
    and "\<And>d e. d \<in> set ds \<Longrightarrow> e \<in> set ds \<Longrightarrow> d \<noteq> e \<Longrightarrow> sub f d \<inter> sub f e = {}"
    and "distinct ds" "\<And>d b. d \<in> set ds \<Longrightarrow> b \<in> sub f d \<Longrightarrow> skeleton h b = f b"
  shows "mfold delete_trie ds h = Some (without (\<Union>d\<in>set ds. sub f d) h)"
  using assms
proof (induction ds arbitrary: h)
  case Nil
  then show ?case by simp
next
  case (Cons d ds)
  have d: "delete_trie d h = Some (without (sub f d) h)" by (rule Cons.prems(1)) (use Cons.prems(4) [of d] in simp_all)
  have "skeleton (without (sub f d) h) b = f b" if "e \<in> set ds" "b \<in> sub f e" for e b
  proof -
    have "sub f d \<inter> sub f e = {}" using Cons.prems(2) [of d e] Cons.prems(3) that(1) by auto
    then have "b \<notin> sub f d" using that(2) by blast
    then show ?thesis using Cons.prems(4) [of e b] that by (simp add: skeleton_def)
  qed
  then have "mfold delete_trie ds (without (sub f d) h) = Some (without (\<Union>d\<in>set ds. sub f d) (without (sub f d) h))"
    using Cons.prems by (intro Cons.IH) auto
  then show ?case using d by simp
qed

lemma delete_trie_sub:
  assumes "skel_wf {} r N f" "f a = Some s" "\<And>b. b \<in> sub f a \<Longrightarrow> skeleton h b = f b"
  shows "delete_trie a h = Some (without (sub f a) h)"
  using assms(2,3)
proof (induction "N - a" arbitrary: a s h rule: less_induct)
  case less
  note wf = assms(1)
  have "skeleton h a = Some s" using less.prems by simp
  then obtain n where n: "pnodes h a = Some n" "s = skel_of n" by (auto simp: skeleton_def)
  let ?ds = "map snd (children n)"
  have kids: "sk_children s = children n" by (simp add: n(2))
  note unf = sub_unfold [OF wf less.prems(1), unfolded kids]
  have "mfold delete_trie ?ds h = Some (without (\<Union>d\<in>set ?ds. sub f d) h)"
  proof (rule delete_children)
    fix d h' assume d: "d \<in> set ?ds" and h': "\<And>b. b \<in> sub f d \<Longrightarrow> skeleton h' b = f b"
    obtain x where x: "(x, d) \<in> set (sk_children s)" using d kids by auto
    obtain t where t: "f d = Some t" using skel_wf_child [OF wf less.prems(1) _ x] by auto
    have "N - d < N - a" using skel_wf_child_gt [OF wf less.prems(1) _ x] skel_wf_bound [OF wf t] by simp
    then show "delete_trie d h' = Some (without (sub f d) h')" using less.hyps t h' by blast
  next
    fix d e assume "d \<in> set ?ds" "e \<in> set ?ds" "d \<noteq> e"
    then show "sub f d \<inter> sub f e = {}" using sub_siblings_disjoint [OF wf less.prems(1)] kids by fastforce
  next
    show "distinct ?ds" using distinct_children [OF wf less.prems(1)] kids by simp
    show "skeleton h b = f b" if "d \<in> set ?ds" "b \<in> sub f d" for d b using less.prems(2) unf(1) that by blast
  qed
  then have "mfold (\<lambda>child. delete_trie (snd child)) (children n) h = Some (without (\<Union>d\<in>set ?ds. sub f d) h)"
    unfolding mfold_map .
  moreover have "pnodes (without (\<Union>d\<in>set ?ds. sub f d) h) a = Some n" using unf(2) n(1) by simp
  moreover have "(without (\<Union>d\<in>set ?ds. sub f d) h)\<lparr>pnodes := (pnodes h |` (- (\<Union>d\<in>set ?ds. sub f d)))(a := None)\<rparr> = without (sub f a) h"
    unfolding unf(1) by (auto simp: without_def restrict_map_def fun_eq_iff)
  ultimately show ?case using n(1) by (subst delete_trie.simps) simp
qed

lemma delete_trie_root:
  assumes "store_ok r h"
  shows "delete_trie r h = Some (h\<lparr>pnodes := Map.empty\<rparr>)"
proof -
  note wf = store_okD(4) [OF assms]
  obtain s where s: "skeleton h r = Some s" using skel_wf_root [OF wf] by blast
  have "pnodes h |` (- sub (skeleton h) r) = Map.empty"
  proof
    fix b show "(pnodes h |` (- sub (skeleton h) r)) b = None"
      using sub_root [OF wf, of b] by (cases "pnodes h b") (auto simp: restrict_map_def skeleton_def)
  qed
  then show ?thesis using delete_trie_sub [OF wf s, of h] by (simp add: without_def)
qed



end
