(* ===== verification/Spec2Isabelle.thy ===== *)
theory Spec2Isabelle
  imports Scorer_Package Backend_Interface Client_Memory Cde_Log_Spec Batch_Pool Object_Pool Trie_Delete
begin

text \<open>
  A verification development of the native client of DeepSpeech, the library and the programs under
  \<^verbatim>\<open>src/native_client\<close> that turn recorded speech into text, and of the log of its Android library.

  \<^bold>\<open>The program.\<close>  A caller makes a model (\<^verbatim>\<open>DS_CreateModel\<close>), optionally gives it a language model
  (\<^verbatim>\<open>DS_EnableExternalScorer\<close>) and hot words, opens a stream, feeds it 16-bit samples in pieces and
  finishes it.  The stream (\<^verbatim>\<open>deepspeech.cc\<close>) collects samples into overlapping windows, lets a backend
  (\<^verbatim>\<open>tfmodelstate.cc\<close> or \<^verbatim>\<open>tflitemodelstate.cc\<close>) compute features, collects features with context into
  time steps and time steps into batches, and lets the backend compute a distribution over the
  alphabet for every time step.  A beam search (\<^verbatim>\<open>ctcdecode/\<close>) extends a trie of prefixes frame by
  frame, scoring them with the language model and a dictionary automaton, and reads the best
  prefixes at the end.  The other programs build the package of language model and dictionary, and
  offer the library on the command line.

  \<^bold>\<open>Conventions.\<close>  Structures are records, enumerations datatypes, 32-bit integers words; sizes of
  containers are natural numbers.  An operation that can be undefined, abort, fail an assertion or
  run forever returns an option, and \<open>None\<close> says that it does not return normally; error codes are
  ordinary values.  Loops whose end is not obvious are \<^theory_text>\<open>partial_function\<close>s, so no fuel is used
  anywhere: totality is a theorem (\<open>decoder_never_stuck\<close>, \<open>stream_never_stuck\<close>,
  \<open>batch_pool_finishes\<close>, \<open>find_parent_node_ids_plan\<close>, \<open>getopt_long_roundtrip\<close>).  Floating point numbers are dyadic rationals
  with infinities and a NaN, rounded to the format of the operation; \<open>log\<close> and \<open>exp\<close> are parameters.
  Assertions depend on a flag for \<^verbatim>\<open>NDEBUG\<close>.

  \<^bold>\<open>Theories, from the bottom.\<close>
  \<^item> \<open>Prelude\<close>, \<open>Floats\<close>: the option monad, checked array access, little-endian numbers, words; floating
    point values and their order.
  \<^item> \<open>Alphabet\<close> (\<^verbatim>\<open>alphabet.h\<close>, \<^verbatim>\<open>alphabet.cc\<close>), \<open>Decoder_Utils\<close> (\<^verbatim>\<open>decoder_utils.*\<close>), \<open>Ds_Errors\<close>
    (\<^verbatim>\<open>deepspeech_errors.cc\<close>), \<open>Fst_Matcher\<close> (the searches of OpenFst's \<^verbatim>\<open>SortedMatcher\<close>): loading,
    serialising, encoding and decoding; pruning a frame; the table of codes; the equivalence of the binary
    and the linear search.
  \<^item> \<open>Path_Trie\<close> (\<^verbatim>\<open>path_trie.*\<close>) with \<open>Trie_Invariant\<close>, \<open>Trie_Ops\<close>, \<open>Timestep_Tree\<close>, \<open>Trie_Iterate\<close>, \<open>Trie_Grow\<close>,
    \<open>Trie_Remove\<close>: the trie and the tree of time steps in explicit stores of nodes, their well-formedness
    and what each operation keeps: extension, enumeration with score updates, and removal that cascades
    upwards without leaving a dangling pointer.
  \<^item> \<open>Scorer\<close> (\<^verbatim>\<open>scorer.*\<close>) with \<open>Dictionary_Build\<close>, \<open>Ngram_Spec\<close>, \<open>Scorer_File\<close>: the language of the dictionary
    automaton, the n-gram of a prefix, and the round trip of a package through a file.  KenLM and the
    file format of OpenFst are fields of the record \<open>lib\<close>.
  \<^item> \<open>Ctc_Decoder\<close> (\<^verbatim>\<open>ctc_beam_search_decoder.*\<close>) with \<open>Decoder_Invariant\<close>, \<open>Decoder_Run\<close>, \<open>Decoder_Spec\<close>: the
    beam search, its invariant, that it never gets stuck, and what its results are.  \<open>Trie_Delete\<close>: its destructor.
  \<^item> \<open>Thread_Pool\<close> (\<^verbatim>\<open>third_party/ThreadPool\<close>), \<open>Batch_Pool\<close>: the worker threads of the batch decoder as a step
    relation in which critical sections are steps, threads interleave in any order and may wake up without
    reason; no deadlock, no lost wake-up, a bound on the steps, and the results of sequential decoding.
  \<^item> \<open>Object_Pool\<close> (\<^verbatim>\<open>third_party/object_pool\<close>): the allocator of the tree of time steps.
  \<^item> \<open>Model_State\<close> (\<^verbatim>\<open>modelstate.*\<close>), \<open>Streaming\<close> (\<^verbatim>\<open>deepspeech.cc\<close>) with \<open>Sliding_Window\<close>, \<open>Stream_Spec\<close>,
    \<open>Transcription\<close>, \<open>Api_Spec\<close>, \<open>Model_Api\<close>: the three buffers of a stream are three instances of one locale
    of sliding windows; a stream computes what \<open>transcribe\<close> says of the whole recording, whatever pieces
    it is fed; the calls that configure a model keep its invariant.
  \<^item> \<open>Api_Memory\<close>, \<open>Memory_Spec\<close> (\<^verbatim>\<open>deepspeech.cc\<close>, \<^verbatim>\<open>modelstate.cc\<close>): the same calls on a heap of blocks.  They refine
    the calls above, and what they allocate is what the functions that release memory free.
  \<^item> \<open>Exec_Plan\<close>, \<open>Tflite_Backend\<close>, \<open>Tflite_Spec\<close> (\<^verbatim>\<open>tflitemodelstate.*\<close>), \<open>Tf_Backend\<close> (\<^verbatim>\<open>tfmodelstate.*\<close>),
    \<open>Backend_Interface\<close>: planning, loading and running the acoustic model.  The interpreter and the session
    are parameters, with what the graph promises about the sizes of tensors as hypotheses.
  \<^item> \<open>Scorer_Package\<close> (\<^verbatim>\<open>generate_scorer_package.cpp\<close>, \<^verbatim>\<open>trie_load.cc\<close>, \<^verbatim>\<open>enumerate_kenlm_vocabulary.cpp\<close>): a
    package that was built from a vocabulary can be enabled, and its dictionary has the words of the
    vocabulary.
  \<^item> \<open>Getopt_Win\<close> (\<^verbatim>\<open>getopt_win.h\<close>) with \<open>Getopt_Permute\<close>, \<open>Getopt_Spec\<close>: the option parser of the Windows build;
    the in-place permutation of the argument vector and the round trip from options to a command line and
    back.
  \<^item> \<open>Client_Args\<close> (\<^verbatim>\<open>args.h\<close>), \<open>Client\<close> (\<^verbatim>\<open>client.cc\<close>), \<open>Client_Spec\<close>: the command line client.
    \<open>Client_Memory\<close>: its pointers; every block of a transcribed file is freed once, after its last use.
  \<^item> \<open>Cde_Log\<close>, \<open>Cde_Log_Spec\<close> (\<^verbatim>\<open>deepspeech-jni/src/cde_log.c\<close>): the log of the Android library: settings and
    filters, messages in one fixed buffer and when they fit, and what a hex dump prints.

  \<^bold>\<open>Interfaces.\<close>  \<open>label_codec\<close>: encoding by labels, for text and for bytes.  \<open>parent_linked\<close>: stores whose nodes
  point to their parents, for the trie and for the time steps.  \<open>unit_walk\<close>: walking back over one unit,
  for words and for graphemes.  \<open>scoring\<close>: what the beam search needs of a scorer.  \<open>window_stage\<close> and
  \<open>window_loop\<close>: a buffer that is filled, processed and shifted.  \<open>acoustic_backend\<close>: the virtual method
  \<^verbatim>\<open>infer\<close>.  \<open>option_source\<close>: the option parser as the client uses it.  \<open>allocator\<close>: memory for
  objects.  Each is interpreted on the model's
  own definitions.

  \<^bold>\<open>Bounds.\<close>  The hypotheses \<open>model_ok\<close> and \<open>acoustic_ok\<close> bound the geometry of a model so that the conversions
  between signed and unsigned 32-bit sizes are exact; \<open>tflite_init_geometry\<close> shows that loading establishes the
  first.  Standard algorithms (\<^verbatim>\<open>std::sort\<close>, \<^verbatim>\<open>std::partial_sort\<close>, \<^verbatim>\<open>std::nth_element\<close>) are parameters with the
  contract \<open>stl_ok\<close>, and the C allocator is a parameter with the contract \<open>malloc_ok\<close>.

  \<^bold>\<open>Not modelled.\<close>  KenLM, the rest of OpenFst, TensorFlow and TFLite, and the SoX library with the branch of
  \<^verbatim>\<open>GetAudioBuffer\<close> that calls it are third-party code; the language bindings are generated or thin
  wrappers; help texts, CPU times and the delegates of TFLite have no effect on a result.  Running out
  of memory is not modelled, and the mutex and the condition variable of the thread pool are taken to work
  as the standard says.
\<close>

section \<open>Recordings on the backends\<close>

text \<open>
  C12: the streaming code respects the contract of the TFLite backend.  For any recording, in debug and
  in release builds, the calls of \<open>infer\<close> that the stream makes stay within the tensors and the recurrent
  state keeps its size; every batch gives one row of class scores per frame, or nothing when the
  interpreter reports an error.
\<close>

theorem recording_on_tflite:
  assumes "lite_ready sizes T"
  shows "\<exists>outs T' c h. infer_batches (tl_infer_method ndebug) (recording_batches (tl_base T) samples)
      (T, replicate (unat (state_size (tl_base T))) (Fin 0 0), replicate (unat (state_size (tl_base T))) (Fin 0 0)) = Some (outs, T', c, h)
    \<and> list_all2 (\<lambda>(buf, n) logits. batch_result (tl_base T) n logits) (recording_batches (tl_base T) samples) outs"
  by (rule lite.recording_total [OF assms])

text \<open>
  The streaming code respects the contract of the TensorFlow backend in the same way.
\<close>

lemma recording_on_tf:
  assumes "model_ok M" and "session_ok run M" and "unat (n_steps M) * (GetSize (ms_alphabet M) + 1) < 2 ^ 31"
  shows "\<exists>outs b c h. infer_batches tf_infer_method (recording_batches M samples)
      ((run, M), replicate (unat (state_size M)) (Fin 0 0), replicate (unat (state_size M)) (Fin 0 0)) = Some (outs, b, c, h)
    \<and> list_all2 (\<lambda>(buf, n) logits. batch_result M n logits) (recording_batches M samples) outs"
  using tf.recording_total [of "(run, M)" samples] assms by (simp add: tf_ready_def)

theorem recording_on_tflite_witness:
  "\<exists>T outs T' c h. tflite_init True 6 True (Some (toy_ip, toy_mem)) tiny_model = Some (Inr T)
     \<and> infer_batches (tl_infer_method False) (recording_batches (tl_base T) [1, 2, 3]) (T, [Fin 0 0], [Fin 0 0]) = Some (outs, T', c, h)"
proof -
  obtain T where T: "tflite_init True 6 True (Some (toy_ip, toy_mem)) tiny_model = Some (Inr T)" "model_ok (tl_base T)" "input_node_idx T = 0" "logits_idx T = 10"
    "tl_interpreter T = toy_ip" "mem T = toy_mem"
    "previous_state_c_idx T = 1" "previous_state_h_idx T = 2" "new_state_c_idx T = 11" "new_state_h_idx T = 12"
    "state_size (tl_base T) = 1" "n_steps (tl_base T) = 2" "asize (ms_alphabet (tl_base T)) = 2" "mfcc_feats_per_timestep (tl_base T) = 3"
    using toy_state by blast
  have "lite_ready (\<lambda>i. length (toy_mem i)) T" unfolding lite_ready_def Let_def T(5) toy_invoke
    using T(2) by (simp add: T toy_mem_def GetSize_def batch_capacity_def)
  from recording_on_tflite [OF this, of False "[1, 2, 3]"] show ?thesis using T(1) by (auto simp: T(11))
qed

lemma recording_on_tf_witness:
  "\<exists>outs b c h. infer_batches tf_infer_method (recording_batches tiny_model [1, 2, 3]) ((row_session, tiny_model), [Fin 0 0], [Fin 0 0]) = Some (outs, b, c, h)"
proof -
  have "session_ok row_session tiny_model"
    by (simp add: session_ok_def row_session_def tiny_model_def ModelState_new_def GetSize_def ab_alphabet_def)
  moreover have "state_size tiny_model = 1" by (simp add: tiny_model_def)
  ultimately show ?thesis using recording_on_tf [OF tiny_model_ok, of row_session "[1, 2, 3]"]
    by (auto simp: tiny_model_def ModelState_new_def GetSize_def ab_alphabet_def)
qed

end
